(* ===== verification/Prelude.thy ===== *)
theory Prelude
  imports Main "HOL-Library.Word" "HOL-Library.Finite_Map" "HOL-Library.Multiset"
begin

text \<open>
  Shared vocabulary of the development: machine integers at the width of the Rust code,
  the result type, Rust's saturating arithmetic, hash collections with an unspecified
  iteration order, and the generic lemmas the component theories use.

  A Rust \<open>HashMap\<close> or \<open>DashMap\<close> is a finite map (\<open>fmap\<close>), a \<open>HashSet\<close> a set. Where the
  code iterates over one, the order is the argument \<open>ord\<close> of the operation, of which
  \<open>hash_order ord\<close> is all that is known. Arithmetic on \<open>u8\<close>, \<open>u32\<close>, \<open>u64\<close> is that of the
  release profile (the workspace sets no profile): it wraps. Lengths of vectors are \<open>nat\<close>.
\<close>

subsection \<open>Machine integers and results\<close>

type_synonym u8 = "8 word"
type_synonym u16 = "16 word"
type_synonym u32 = "32 word"
type_synonym u64 = "64 word"
type_synonym usize = "64 word"
type_synonym i32 = "32 word"
type_synonym uuid = "128 word"

abbreviation Err :: "'e \<Rightarrow> 'e + 'a" where "Err \<equiv> Inl"
abbreviation Ok :: "'a \<Rightarrow> 'e + 'a" where "Ok \<equiv> Inr"

definition is_ok :: "'e + 'a \<Rightarrow> bool" where
  "is_ok r = (case r of Inl _ \<Rightarrow> False | Inr _ \<Rightarrow> True)"

lemma is_ok_simps [simp]: "is_ok (Inr x)" "\<not> is_ok (Inl e)"
  by (simp_all add: is_ok_def)

lemma is_okE: "is_ok r \<Longrightarrow> (\<And>x. r = Inr x \<Longrightarrow> P) \<Longrightarrow> P"
  by (cases r) simp_all

definition saturating_sub :: "'n::len word \<Rightarrow> 'n word \<Rightarrow> 'n word" where
  "saturating_sub a b = (if a < b then 0 else a - b)"

definition saturating_add :: "'n::len word \<Rightarrow> 'n word \<Rightarrow> 'n word" where
  "saturating_add a b = (if unat a + unat b < 2 ^ LENGTH('n) then a + b else - 1)"

lemma unat_saturating_sub: "unat (saturating_sub a b) = unat a - unat b"
  by (simp add: saturating_sub_def word_less_nat_alt unat_sub word_le_nat_alt)

lemma saturating_sub_le: "saturating_sub a b \<le> a"
  by (simp add: word_le_nat_alt unat_saturating_sub)

lemma unat_add_no_wrap:
  "unat (a::'n::len word) + unat b < 2 ^ LENGTH('n) \<Longrightarrow> unat (a + b) = unat a + unat b"
  by (simp add: unat_word_ariths)

lemma unat_mult_no_wrap:
  "unat (a::'n::len word) * unat b < 2 ^ LENGTH('n) \<Longrightarrow> unat (a * b) = unat a * unat b"
  by (simp add: unat_word_ariths)

lemma unat_saturating_add:
  "unat (saturating_add a (b::'n::len word)) = min (unat a + unat b) (2 ^ LENGTH('n) - 1)"
  by (auto simp: saturating_add_def unat_add_no_wrap unsigned_minus_1_eq_mask mask_eq_exp_minus_1 min_def)

subsection \<open>Iteration order of hash collections\<close>

definition hash_order :: "('a set \<Rightarrow> 'a list) \<Rightarrow> bool" where
  "hash_order ord \<longleftrightarrow> (\<forall>S. finite S \<longrightarrow> set (ord S) = S \<and> distinct (ord S))"

lemma hash_order_set [simp]: "hash_order ord \<Longrightarrow> finite S \<Longrightarrow> set (ord S) = S"
  by (simp add: hash_order_def)

lemma hash_order_distinct [simp]: "hash_order ord \<Longrightarrow> finite S \<Longrightarrow> distinct (ord S)"
  by (simp add: hash_order_def)

lemma hash_order_sorted: "hash_order (sorted_list_of_set :: 'a::linorder set \<Rightarrow> 'a list)"
  by (simp add: hash_order_def)

subsection \<open>Finite maps\<close>

lemma fmdom'_lookup: "k \<in> fmdom' m \<longleftrightarrow> fmlookup m k \<noteq> None"
  by (simp add: fmdom'_notI fmdom'_alt_def fmlookup_dom_iff)

lemma fmdom'_lookup_Some: "fmlookup m k = Some v \<Longrightarrow> k \<in> fmdom' m"
  by (simp add: fmdom'_lookup)

lemma finite_lookup [simp]: "finite {k. fmlookup m k = Some v}"
  by (rule finite_subset [of _ "fmdom' m"]) (auto simp: fmdom'_lookup)

lemma finite_lookup_P: "finite {k. \<exists>v. fmlookup m k = Some v \<and> P k v}"
  by (rule finite_subset [of _ "fmdom' m"]) (auto simp: fmdom'_lookup)

subsection \<open>The interface of a max-heap\<close>

text \<open>
  What the code relies on of \<open>std::collections::BinaryHeap\<close>: \<open>pop\<close> removes an element that
  is greatest in the element type's order. The heap is the list of its elements; the order of
  the list is not observable.
\<close>

locale max_heap =
  fixes le :: "'a \<Rightarrow> 'a \<Rightarrow> bool"
    and pop :: "'a list \<Rightarrow> ('a \<times> 'a list) option"
  assumes le_refl: "le x x"
    and le_trans: "le x y \<Longrightarrow> le y z \<Longrightarrow> le x z"
    and pop_empty: "pop h = None \<longleftrightarrow> h = []"
    and pop_elements: "pop h = Some (e, h') \<Longrightarrow> mset h = add_mset e (mset h')"
    and pop_max: "pop h = Some (e, h') \<Longrightarrow> x \<in> set h \<Longrightarrow> le x e"
begin

lemma pop_set: "pop h = Some (e, h') \<Longrightarrow> set h = insert e (set h')"
  using pop_elements [of h e h'] mset_eq_setD [of h "e # h'"] by simp

lemma pop_length: "pop h = Some (e, h') \<Longrightarrow> length h = Suc (length h')"
  using pop_elements [of h e h'] mset_eq_length [of h "e # h'"] by simp

lemma pop_twice: "pop h = Some (e, h') \<Longrightarrow> pop h' = Some (e', h'') \<Longrightarrow> le e' e"
  using pop_max [of h e h' e'] pop_set [of h e h'] pop_set [of h' e' h''] by simp

lemma pop_cases:
  obtains "h = []" "pop h = None" | e h' where "pop h = Some (e, h')"
  using pop_empty [of h] by (cases "pop h") auto

text \<open>Popping past elements that are not wanted reaches a greatest wanted one.\<close>

lemma pop_skip:
  assumes "pop h = Some (e, h')" "\<not> P e" "\<forall>x \<in> set h'. P x \<longrightarrow> le x m"
  shows "\<forall>x \<in> set h. P x \<longrightarrow> le x m"
  using assms pop_set [OF assms(1)] by auto

end

end
