(* ===== verification/Floats.thy ===== *)
theory Floats
  imports Prelude Complex_Main "HOL-Library.Log_Nat"
begin

text \<open>
  Rust's \<open>f32\<close> and \<open>f64\<close>: finite values are rationals, every operation rounds the exact
  result to nearest, ties to even, in the binary32 or binary64 format. The sign of zero is
  not represented: no operation the modelled code applies to these values can tell the two
  zeros apart. Comparisons with NaN are false and \<open>min\<close>/\<open>max\<close> ignore a NaN operand, as
  \<open>f64::min\<close> and \<open>f32::max\<close> are documented to.
\<close>

subsection \<open>Values and rounding\<close>

datatype fp = NaN | PosInf | NegInf | Fin rat

record fp_format =
  prec :: nat
  emin :: int
  emax :: int

definition binary32 :: fp_format where
  "binary32 = \<lparr>prec = 24, emin = - 149, emax = 128\<rparr>"

definition binary64 :: fp_format where
  "binary64 = \<lparr>prec = 53, emin = - 1074, emax = 1024\<rparr>"

definition rne :: "rat \<Rightarrow> int" where
  "rne q = (let n = \<lfloor>q\<rfloor>; d = q - of_int n in
     if d < 1/2 then n else if d > 1/2 then n + 1 else if even n then n else n + 1)"

definition ilog2 :: "rat \<Rightarrow> int" where
  "ilog2 x = (case quotient_of x of (a, b) \<Rightarrow>
     let k = bitlen a - bitlen b in if 2 powi k \<le> x then k else k - 1)"

definition ulp_exp :: "fp_format \<Rightarrow> rat \<Rightarrow> int" where
  "ulp_exp f x = max (emin f) (ilog2 x - (int (prec f) - 1))"

definition round_pos :: "fp_format \<Rightarrow> rat \<Rightarrow> rat" where
  "round_pos f x = of_int (rne (x / 2 powi ulp_exp f x)) * 2 powi ulp_exp f x"

definition fp_round :: "fp_format \<Rightarrow> rat \<Rightarrow> fp" where
  "fp_round f x =
     (if x = 0 then Fin 0
      else if 0 < x then
        (let r = round_pos f x in if r < 2 powi emax f then Fin r else PosInf)
      else
        (let r = round_pos f (- x) in if r < 2 powi emax f then Fin (- r) else NegInf))"

subsection \<open>Arithmetic, comparison, casts\<close>

fun fadd :: "fp_format \<Rightarrow> fp \<Rightarrow> fp \<Rightarrow> fp" where
  "fadd f (Fin a) (Fin b) = fp_round f (a + b)"
| "fadd f NaN _ = NaN"
| "fadd f _ NaN = NaN"
| "fadd f PosInf NegInf = NaN"
| "fadd f NegInf PosInf = NaN"
| "fadd f PosInf _ = PosInf"
| "fadd f NegInf _ = NegInf"
| "fadd f _ PosInf = PosInf"
| "fadd f _ NegInf = NegInf"

fun fneg :: "fp \<Rightarrow> fp" where
  "fneg NaN = NaN"
| "fneg PosInf = NegInf"
| "fneg NegInf = PosInf"
| "fneg (Fin a) = Fin (- a)"

definition fsub :: "fp_format \<Rightarrow> fp \<Rightarrow> fp \<Rightarrow> fp" where
  "fsub f a b = fadd f a (fneg b)"

definition signed_inf :: "rat \<Rightarrow> fp" where
  "signed_inf s = (if s = 0 then NaN else if 0 < s then PosInf else NegInf)"

fun fmul :: "fp_format \<Rightarrow> fp \<Rightarrow> fp \<Rightarrow> fp" where
  "fmul f (Fin a) (Fin b) = fp_round f (a * b)"
| "fmul f NaN _ = NaN"
| "fmul f _ NaN = NaN"
| "fmul f PosInf (Fin b) = signed_inf b"
| "fmul f NegInf (Fin b) = signed_inf (- b)"
| "fmul f (Fin a) PosInf = signed_inf a"
| "fmul f (Fin a) NegInf = signed_inf (- a)"
| "fmul f PosInf PosInf = PosInf"
| "fmul f NegInf NegInf = PosInf"
| "fmul f _ _ = NegInf"

text \<open>
  Division where the divisor is not negative: the only divisions of the modelled code are
  by a count converted to \<open>f64\<close>, whose zero is the positive one.
\<close>

fun fdiv :: "fp_format \<Rightarrow> fp \<Rightarrow> fp \<Rightarrow> fp" where
  "fdiv f (Fin a) (Fin b) = (if b = 0 then signed_inf a else fp_round f (a / b))"
| "fdiv f NaN _ = NaN"
| "fdiv f _ NaN = NaN"
| "fdiv f (Fin a) _ = Fin 0"
| "fdiv f PosInf (Fin b) = (if 0 \<le> b then PosInf else NegInf)"
| "fdiv f NegInf (Fin b) = (if 0 \<le> b then NegInf else PosInf)"
| "fdiv f _ _ = NaN"

fun fle :: "fp \<Rightarrow> fp \<Rightarrow> bool" where
  "fle NaN _ = False"
| "fle _ NaN = False"
| "fle NegInf _ = True"
| "fle _ PosInf = True"
| "fle (Fin a) (Fin b) = (a \<le> b)"
| "fle _ _ = False"

definition flt :: "fp \<Rightarrow> fp \<Rightarrow> bool" where
  "flt a b \<longleftrightarrow> fle a b \<and> \<not> fle b a"

definition fmin :: "fp \<Rightarrow> fp \<Rightarrow> fp" where
  "fmin a b = (if a = NaN then b else if b = NaN then a else if fle a b then a else b)"

definition fmax :: "fp \<Rightarrow> fp \<Rightarrow> fp" where
  "fmax a b = (if a = NaN then b else if b = NaN then a else if fle b a then a else b)"

text \<open>\<open>n as f64\<close> of an unsigned integer, and the saturating truncation \<open>x as usize\<close>.\<close>

definition f64_of_word :: "'n::len word \<Rightarrow> fp" where
  "f64_of_word w = fp_round binary64 (of_int (uint w))"

fun fp_trunc :: "fp \<Rightarrow> int" where
  "fp_trunc NaN = 0"
| "fp_trunc NegInf = 0"
| "fp_trunc PosInf = 2 ^ 64 - 1"
| "fp_trunc (Fin a) = min (2 ^ 64 - 1) (max 0 \<lfloor>a\<rfloor>)"

definition fp_to_usize :: "fp \<Rightarrow> usize" where
  "fp_to_usize x = word_of_int (fp_trunc x)"

subsection \<open>Order\<close>

lemma fle_refl: "a \<noteq> NaN \<Longrightarrow> fle a a"
  by (cases a) simp_all

lemma fle_trans: "fle a b \<Longrightarrow> fle b c \<Longrightarrow> fle a c"
  by (cases a; cases b; cases c) auto

lemma fle_total: "a \<noteq> NaN \<Longrightarrow> b \<noteq> NaN \<Longrightarrow> fle a b \<or> fle b a"
  by (cases a; cases b) auto

lemma fle_antisym: "fle a b \<Longrightarrow> fle b a \<Longrightarrow> a = b"
  by (cases a; cases b) auto

lemma fle_not_NaN: "fle a b \<Longrightarrow> a \<noteq> NaN \<and> b \<noteq> NaN"
  by (cases a; cases b) auto

lemma fmin_le2: "b \<noteq> NaN \<Longrightarrow> fle (fmin a b) b"
  using fle_refl fle_total by (auto simp: fmin_def)

lemma fmin_not_NaN: "b \<noteq> NaN \<Longrightarrow> fmin a b \<noteq> NaN"
  by (auto simp: fmin_def)

lemma fmin_mono: "fle a b \<Longrightarrow> c \<noteq> NaN \<Longrightarrow> fle (fmin a c) (fmin b c)"
  by (cases a; cases b; cases c) (auto simp: fmin_def)

lemma fmax_ge2: "b \<noteq> NaN \<Longrightarrow> fle b (fmax a b)"
  using fle_refl fle_total by (auto simp: fmax_def)

lemma fp_trunc_range: "0 \<le> fp_trunc x" "fp_trunc x < 2 ^ 64"
  by (cases x; simp)+

lemma fp_trunc_mono: "fle a b \<Longrightarrow> fp_trunc a \<le> fp_trunc b"
  by (cases a; cases b) (auto simp: min_def max_def intro: order_trans floor_mono)

lemma uint_fp_to_usize: "uint (fp_to_usize x) = fp_trunc x"
  using fp_trunc_range [of x] by (simp add: fp_to_usize_def uint_word_of_int_eq take_bit_int_eq_self)

lemma fp_to_usize_mono: "fle a b \<Longrightarrow> fp_to_usize a \<le> fp_to_usize b"
  by (simp add: word_le_def uint_fp_to_usize fp_trunc_mono)

subsection \<open>Rounding is monotone\<close>

lemma rne_le: "q \<le> of_int n \<Longrightarrow> rne q \<le> n"
proof -
  assume q: "q \<le> of_int n"
  consider "\<lfloor>q\<rfloor> = n" | "\<lfloor>q\<rfloor> + 1 \<le> n"
    using q by (metis add1_zle_eq floor_mono floor_of_int nless_le)
  then show "rne q \<le> n"
  proof cases
    case 1
    with q have "q = of_int n" using of_int_floor_le [of q] by simp
    then show ?thesis by (simp add: rne_def)
  next
    case 2
    then show ?thesis by (simp add: rne_def Let_def)
  qed
qed

lemma rne_ge: "of_int n \<le> q \<Longrightarrow> n \<le> rne q"
  by (simp add: rne_def Let_def le_floor_iff) linarith

lemma rne_of_int [simp]: "rne (of_int n) = n"
  by (simp add: rne_def)

lemma rne_mono: "p \<le> q \<Longrightarrow> rne p \<le> rne q"
proof -
  assume le: "p \<le> q"
  then have fl: "\<lfloor>p\<rfloor> \<le> \<lfloor>q\<rfloor>" by (rule floor_mono)
  show ?thesis
  proof (cases "\<lfloor>p\<rfloor> = \<lfloor>q\<rfloor>")
    case True
    then show ?thesis using le by (auto simp: rne_def Let_def)
  next
    case False
    with fl have "\<lfloor>p\<rfloor> + 1 \<le> \<lfloor>q\<rfloor>" by simp
    moreover have "rne p \<le> \<lfloor>p\<rfloor> + 1" by (simp add: rne_def Let_def)
    moreover have "\<lfloor>q\<rfloor> \<le> rne q" by (rule rne_ge) simp
    ultimately show ?thesis by linarith
  qed
qed

lemma ilog2_bounds:
  assumes "0 < x"
  shows "2 powi ilog2 x \<le> x" and "x < 2 powi (ilog2 x + 1)"
proof -
  obtain a b where ab: "quotient_of x = (a, b)" by (cases "quotient_of x")
  have b: "0 < b" using quotient_of_denom_pos [OF ab] .
  have x: "x = of_int a / of_int b" using quotient_of_div [OF ab] .
  have a: "0 < a" using assms b x by (simp add: zero_less_divide_iff)
  define k where "k = bitlen a - bitlen b"
  have la: "2 ^ nat (bitlen a - 1) \<le> a" "a < 2 ^ nat (bitlen a)" using bitlen_bounds [OF a] by auto
  have lb: "2 ^ nat (bitlen b - 1) \<le> b" "b < 2 ^ nat (bitlen b)" using bitlen_bounds [OF b] by auto
  have pa: "1 \<le> bitlen a" using la(2) a by (cases "1 \<le> bitlen a") simp_all
  have pb: "1 \<le> bitlen b" using lb(2) b by (cases "1 \<le> bitlen b") simp_all
  have le_pow: "(2::rat) powi m \<le> of_int c" if "0 \<le> m" "2 ^ nat m \<le> c" for m c
    using that by (simp add: power_int_def)
  have lt_pow: "of_int c < (2::rat) powi m" if "0 \<le> m" "c < 2 ^ nat m" for m c
    using that by (simp add: power_int_def)
  have ra: "2 powi (bitlen a - 1) \<le> (of_int a :: rat)" "of_int a < (2 powi bitlen a :: rat)"
    using la pa by (auto intro: le_pow lt_pow)
  have rb: "2 powi (bitlen b - 1) \<le> (of_int b :: rat)" "of_int b < (2 powi bitlen b :: rat)"
    using lb pb by (auto intro: le_pow lt_pow)
  have b0: "(0::rat) < of_int b" using b by simp
  have eq: "ilog2 x = (if 2 powi k \<le> x then k else k - 1)"
    by (simp add: ilog2_def ab k_def Let_def)
  have lo: "2 powi (k - 1) \<le> x"
  proof -
    have "2 powi (k - 1) * of_int b \<le> (2 powi (k - 1) * 2 powi bitlen b :: rat)"
      using rb(2) by (intro mult_left_mono) auto
    also have "\<dots> = 2 powi (bitlen a - 1)"
      by (simp add: k_def flip: power_int_add)
    also have "\<dots> \<le> of_int a" by (rule ra)
    finally show ?thesis using b0 by (simp add: x pos_le_divide_eq)
  qed
  have hi: "x < 2 powi (k + 1)"
  proof -
    have "of_int a < (2 powi bitlen a :: rat)" by (rule ra)
    also have "\<dots> = 2 powi (k + 1) * 2 powi (bitlen b - 1)"
      by (simp add: k_def flip: power_int_add)
    also have "\<dots> \<le> 2 powi (k + 1) * of_int b"
      using rb(1) by (intro mult_left_mono) auto
    finally show ?thesis using b0 by (simp add: x pos_divide_less_eq)
  qed
  show "2 powi ilog2 x \<le> x" using lo by (simp add: eq)
  show "x < 2 powi (ilog2 x + 1)" using hi by (simp add: eq)
qed

lemma ilog2_mono: "0 < x \<Longrightarrow> x \<le> y \<Longrightarrow> ilog2 x \<le> ilog2 y"
proof -
  assume x: "0 < x" and xy: "x \<le> y"
  have "2 powi ilog2 x < (2::rat) powi (ilog2 y + 1)"
    using ilog2_bounds(1) [OF x] ilog2_bounds(2) [of y] x xy by linarith
  then have "ilog2 x < ilog2 y + 1"
    by (meson linorder_not_le order_less_le_trans order_less_irrefl power_int_increasing
        one_le_numeral)
  then show "ilog2 x \<le> ilog2 y" by simp
qed

lemma ulp_exp_mono: "0 < x \<Longrightarrow> x \<le> y \<Longrightarrow> ulp_exp f x \<le> ulp_exp f y"
  unfolding ulp_exp_def using ilog2_mono [of x y] by (simp add: max_def)

lemma powi_split: "e \<le> k \<Longrightarrow> (2::rat) powi k = of_int (2 ^ nat (k - e)) * 2 powi e"
proof -
  assume "e \<le> k"
  then have "(2::rat) powi k = 2 powi (k - e) * 2 powi e" by (simp flip: power_int_add)
  also have "(2::rat) powi (k - e) = of_int (2 ^ nat (k - e))"
    using \<open>e \<le> k\<close> by (simp add: power_int_def)
  finally show ?thesis .
qed

lemma round_pos_le_pow:
  assumes "x \<le> 2 powi k" and "ulp_exp f x \<le> k"
  shows "round_pos f x \<le> 2 powi k"
proof -
  let ?e = "ulp_exp f x"
  have "x / 2 powi ?e \<le> of_int (2 ^ nat (k - ?e))"
    using assms powi_split [OF assms(2)] by (simp add: pos_divide_le_eq)
  then have "rne (x / 2 powi ?e) \<le> 2 ^ nat (k - ?e)" by (rule rne_le)
  then have "of_int (rne (x / 2 powi ?e)) \<le> (of_int (2 ^ nat (k - ?e)) :: rat)" by (simp only: of_int_le_iff)
  then show ?thesis
    unfolding round_pos_def powi_split [OF assms(2)] by (intro mult_right_mono) auto
qed

lemma round_pos_ge_pow:
  assumes "2 powi k \<le> x" and "ulp_exp f x \<le> k"
  shows "2 powi k \<le> round_pos f x"
proof -
  let ?e = "ulp_exp f x"
  have "of_int (2 ^ nat (k - ?e)) \<le> x / 2 powi ?e"
    using assms powi_split [OF assms(2)] by (simp add: pos_le_divide_eq)
  then have "2 ^ nat (k - ?e) \<le> rne (x / 2 powi ?e)" by (rule rne_ge)
  then have "of_int (2 ^ nat (k - ?e)) \<le> (of_int (rne (x / 2 powi ?e)) :: rat)" by (simp only: of_int_le_iff)
  then show ?thesis
    unfolding round_pos_def powi_split [OF assms(2)] by (intro mult_right_mono) auto
qed

lemma round_pos_mono:
  assumes x: "0 < x" and xy: "x \<le> y" and p: "1 \<le> prec f"
  shows "round_pos f x \<le> round_pos f y"
proof (cases "ulp_exp f x = ulp_exp f y")
  case True
  have "rne (x / 2 powi ulp_exp f y) \<le> rne (y / 2 powi ulp_exp f y)"
    using xy by (intro rne_mono divide_right_mono) auto
  then show ?thesis
    unfolding round_pos_def True by (intro mult_right_mono) auto
next
  case False
  with ulp_exp_mono [OF x xy] have lt: "ulp_exp f x < ulp_exp f y" by (simp add: order.strict_iff_order)
  then have ey: "ulp_exp f y = ilog2 y - (int (prec f) - 1)" and em: "emin f < ulp_exp f y"
    by (auto simp: ulp_exp_def max_def split: if_splits)
  have y: "0 < y" using x xy by simp
  let ?l = "ilog2 y"
  have le_l: "ulp_exp f y \<le> ?l" using ey p by simp
  have xl: "ilog2 x < ?l"
    using lt ey unfolding ulp_exp_def by (simp add: max_def split: if_splits)
  have "x \<le> 2 powi ?l"
  proof -
    have "x < 2 powi (ilog2 x + 1)" by (rule ilog2_bounds [OF x])
    also have "\<dots> \<le> (2::rat) powi ?l" using xl by (intro power_int_increasing) auto
    finally show ?thesis by simp
  qed
  then have "round_pos f x \<le> 2 powi ?l" using lt le_l by (intro round_pos_le_pow) auto
  also have "\<dots> \<le> round_pos f y" using ilog2_bounds(1) [OF y] le_l by (intro round_pos_ge_pow)
  finally show ?thesis .
qed

lemma round_pos_nonneg: "0 < x \<Longrightarrow> 0 \<le> round_pos f x"
  unfolding round_pos_def using rne_ge [of 0 "x / 2 powi ulp_exp f x"] by simp

lemma fp_round_not_NaN [simp]: "fp_round f x \<noteq> NaN"
  by (simp add: fp_round_def Let_def)

lemma fp_round_zero [simp]: "fp_round f 0 = Fin 0"
  by (simp add: fp_round_def)

lemma fp_round_mono:
  assumes xy: "x \<le> y" and p: "1 \<le> prec f"
  shows "fle (fp_round f x) (fp_round f y)"
proof -
  consider "0 < x" | "x \<le> 0" "0 \<le> y" | "y < 0" by linarith
  then show ?thesis
  proof cases
    case 1
    then show ?thesis using round_pos_mono [OF 1 xy p] xy by (simp add: fp_round_def Let_def)
  next
    case 2
    then show ?thesis
      using round_pos_nonneg [of "- x" f] round_pos_nonneg [of y f]
      by (auto simp: fp_round_def Let_def)
  next
    case 3
    then show ?thesis using round_pos_mono [of "- y" "- x" f] xy p by (simp add: fp_round_def Let_def)
  qed
qed

lemma prec_pos [simp]: "1 \<le> prec binary32" "1 \<le> prec binary64"
  "Suc 0 \<le> prec binary32" "Suc 0 \<le> prec binary64"
  by (simp_all add: binary32_def binary64_def)

lemma fmul_nonneg_mono:
  "0 \<le> c \<Longrightarrow> a \<le> b \<Longrightarrow> 1 \<le> prec f \<Longrightarrow> fle (fmul f (Fin c) (Fin a)) (fmul f (Fin c) (Fin b))"
  by (simp add: fp_round_mono mult_left_mono)

lemma f64_of_word_mono: "m \<le> n \<Longrightarrow> fle (f64_of_word m) (f64_of_word n)"
  unfolding f64_of_word_def by (rule fp_round_mono) (simp_all only: of_int_le_iff word_le_def prec_pos)

lemma fsub_le:
  assumes "0 \<le> b" and "fp_round f a = Fin a" and "1 \<le> prec f"
  shows "fle (fsub f (Fin a) (Fin b)) (Fin a)"
  using fp_round_mono [of "a - b" a f] assms by (simp add: fsub_def)

text \<open>Evaluating a rounding: the binary exponent is given, the rest is arithmetic.\<close>

lemma ilog2_eqI: "2 powi k \<le> x \<Longrightarrow> x < 2 powi (k + 1) \<Longrightarrow> ilog2 x = k"
proof -
  assume lo: "2 powi k \<le> x" and hi: "x < 2 powi (k + 1)"
  have x: "0 < x" using lo zero_less_power_int [of "2::rat" k] by linarith
  have "(2::rat) powi k < 2 powi (ilog2 x + 1)" "(2::rat) powi ilog2 x < 2 powi (k + 1)"
    using ilog2_bounds [OF x] lo hi by linarith+
  then have "k < ilog2 x + 1" "ilog2 x < k + 1"
    by (meson linorder_not_le order_less_le_trans order_less_irrefl power_int_increasing
        one_le_numeral)+
  then show ?thesis by simp
qed

lemma round_pos_eval:
  "2 powi k \<le> x \<Longrightarrow> x < 2 powi (k + 1) \<Longrightarrow> e = max (emin f) (k - (int (prec f) - 1)) \<Longrightarrow>
   round_pos f x = of_int (rne (x / 2 powi e)) * 2 powi e"
  by (simp add: round_pos_def ulp_exp_def ilog2_eqI)

text \<open>Rounding moves a value by at most half a unit in the last place.\<close>

lemma rne_error: "\<bar>of_int (rne q) - q\<bar> \<le> 1 / 2"
proof -
  have "of_int \<lfloor>q\<rfloor> \<le> q" "q < of_int \<lfloor>q\<rfloor> + 1" by linarith+
  then show ?thesis by (auto simp: rne_def Let_def abs_le_iff)
qed

lemma fp_round_error:
  assumes x: "0 \<le> x" "x < 2 powi k" and k: "emin f + int (prec f) \<le> k" "k < emax f" and p: "1 \<le> prec f"
  shows "\<exists>r. fp_round f x = Fin r \<and> 0 \<le> r \<and> r \<le> 2 powi k \<and> \<bar>r - x\<bar> \<le> 2 powi (k - int (prec f)) / 2"
proof (cases "x = 0")
  case False
  then have x0: "0 < x" using x by simp
  let ?e = "ulp_exp f x"
  have "(2::rat) powi ilog2 x < 2 powi k" using ilog2_bounds(1) [OF x0] x(2) by linarith
  then have "ilog2 x < k" using power_int_increasing [of k "ilog2 x" "2::rat"] by linarith
  then have e: "?e \<le> k - int (prec f)" "?e \<le> k" using k(1) p by (simp_all add: ulp_exp_def)
  have pos: "(0::rat) < 2 powi ?e" by simp
  have "round_pos f x - x = (of_int (rne (x / 2 powi ?e)) - x / 2 powi ?e) * 2 powi ?e"
    using pos by (simp add: round_pos_def left_diff_distrib)
  then have "\<bar>round_pos f x - x\<bar> = \<bar>of_int (rne (x / 2 powi ?e)) - x / 2 powi ?e\<bar> * 2 powi ?e"
    using pos by (simp only: abs_mult abs_of_pos)
  also have "\<dots> \<le> 1 / 2 * 2 powi ?e" using rne_error [of "x / 2 powi ?e"] pos by (intro mult_right_mono) auto
  also have "\<dots> \<le> 2 powi (k - int (prec f)) / 2" using power_int_increasing [OF e(1), of "2::rat"] by simp
  finally have err: "\<bar>round_pos f x - x\<bar> \<le> 2 powi (k - int (prec f)) / 2" .
  have le: "round_pos f x \<le> 2 powi k" using x e(2) by (intro round_pos_le_pow) auto
  also have "(2::rat) powi k < 2 powi emax f" using k(2) by (simp add: power_int_strict_increasing)
  finally have "fp_round f x = Fin (round_pos f x)" using x0 by (simp add: fp_round_def Let_def)
  then show ?thesis using err le round_pos_nonneg [OF x0] by blast
qed simp

text \<open>Integers below \<open>2 ^ 53\<close> are exact in \<open>f64\<close>.\<close>

lemma fp_round_small_int:
  assumes n: "0 < n" "n < 2 ^ 53"
  shows "fp_round binary64 (of_int n) = Fin (of_int n)"
proof -
  let ?x = "of_int n :: rat" and ?k = "ilog2 (of_int n)"
  have x: "0 < ?x" using n by simp
  have "(2::rat) powi ?k < 2 powi 53"
    using ilog2_bounds(1) [OF x] n by (simp add: le_less_trans [of _ ?x] power_int_def flip: of_int_less_iff)
  then have "?k < 53" using power_int_increasing [of 53 ?k "2::rat"] by linarith
  then have e: "ulp_exp binary64 ?x \<le> 0" by (simp add: ulp_exp_def binary64_def)
  define j where "j = nat (- ulp_exp binary64 ?x)"
  have pw: "2 powi ulp_exp binary64 ?x = (1 / 2 ^ j :: rat)"
    using e by (simp add: j_def power_int_def field_simps split: if_splits)
  have "?x / 2 powi ulp_exp binary64 ?x = of_int (n * 2 ^ j)" by (simp add: pw)
  then have "round_pos binary64 ?x = ?x" by (simp add: round_pos_def del: of_int_mult) (simp add: pw)
  moreover have "?x < 2 powi emax binary64"
  proof -
    have "?x < of_int (2 ^ 53)" using n(2) by (simp only: of_int_less_iff)
    also have "\<dots> \<le> 2 ^ 1024" by (simp add: power_increasing)
    finally show ?thesis by (simp add: binary64_def power_int_def)
  qed
  ultimately show ?thesis using x by (simp add: fp_round_def Let_def)
qed

lemma f64_of_word_exact:
  assumes "unat w < 2 ^ 53"
  shows "f64_of_word w = Fin (of_nat (unat w))"
proof (cases "unat w = 0")
  case True
  then have "w = 0" by (simp only: unat_eq_zero)
  then show ?thesis using True by (simp add: f64_of_word_def)
next
  case False
  have u: "uint w = int (unat w)" by simp
  have "0 < int (unat w)" using False by (simp only: of_nat_0_less_iff neq0_conv)
  moreover have "int (unat w) < 2 ^ 53"
    using assms by (metis of_nat_less_iff of_nat_numeral of_nat_power)
  ultimately have "fp_round binary64 (of_int (int (unat w))) = Fin (of_int (int (unat w)))"
    by (rule fp_round_small_int)
  then show ?thesis unfolding f64_of_word_def u by (simp only: of_int_of_nat_eq)
qed

end
