(* ===== verification/CoreTypes.thy ===== *)
theory CoreTypes
  imports Prelude Floats
begin

text \<open>
  The shared data model of the \<open>core\<close> crate: identifiers (\<open>ids.rs\<close>), priorities
  (\<open>priority.rs\<close>), resource requests (\<open>resource.rs\<close>), errors (\<open>error.rs\<close>), leases
  (\<open>lease.rs\<close>), retry policies and outcomes (\<open>retry.rs\<close>), execution locations
  (\<open>execution_location.rs\<close>), events (\<open>event.rs\<close>) and task descriptors (\<open>traits.rs\<close>).

  A \<open>Duration\<close> is its number of nanoseconds; an instant (\<open>DateTime<Utc>\<close>) is the number of
  nanoseconds since the epoch. Randomly drawn identifiers and clock readings are arguments
  of the operations that draw them.
\<close>

subsection \<open>Time\<close>

type_synonym duration = nat
type_synonym instant = int

definition from_millis :: "u64 \<Rightarrow> duration" where
  "from_millis ms = unat ms * 10 ^ 6"

definition from_secs :: "nat \<Rightarrow> duration" where
  "from_secs s = s * 10 ^ 9"

definition as_millis :: "duration \<Rightarrow> nat" where
  "as_millis d = d div 10 ^ 6"

definition as_secs_f64 :: "duration \<Rightarrow> fp" where
  "as_secs_f64 d = fadd binary64 (fp_round binary64 (of_nat (d div 10 ^ 9)))
     (fdiv binary64 (fp_round binary64 (of_nat (d mod 10 ^ 9))) (Fin (10 ^ 9)))"

text \<open>
  \<open>Duration::from_secs_f64\<close> rounds to the nearest nanosecond, ties to even, and panics
  (\<open>None\<close>) on a negative, non-finite or too large number of seconds.
\<close>

fun from_secs_f64 :: "fp \<Rightarrow> duration option" where
  "from_secs_f64 (Fin s) =
     (if s < 0 then None else if 2 ^ 64 * 10 ^ 9 \<le> rne (s * 10 ^ 9) then None
      else Some (nat (rne (s * 10 ^ 9))))"
| "from_secs_f64 _ = None"

subsection \<open>Identifiers\<close>

datatype TaskId = TaskId uuid
datatype WorkerId = WorkerId uuid
datatype LeaseId = LeaseId uuid

primrec task_uuid :: "TaskId \<Rightarrow> uuid" where
  "task_uuid (TaskId u) = u"

text \<open>\<open>Ord\<close> of \<open>TaskId\<close> is derived from that of \<open>Uuid\<close>: its sixteen bytes, big-endian.\<close>

instantiation TaskId :: linorder
begin

definition less_eq_TaskId :: "TaskId \<Rightarrow> TaskId \<Rightarrow> bool" where
  "less_eq_TaskId a b \<longleftrightarrow> task_uuid a \<le> task_uuid b"

definition less_TaskId :: "TaskId \<Rightarrow> TaskId \<Rightarrow> bool" where
  "less_TaskId a b \<longleftrightarrow> task_uuid a < task_uuid b"

instance
proof
  fix a b c :: TaskId
  show "a < b \<longleftrightarrow> a \<le> b \<and> \<not> b \<le> a" by (auto simp: less_TaskId_def less_eq_TaskId_def)
  show "a \<le> a" by (simp add: less_eq_TaskId_def)
  show "a \<le> b \<Longrightarrow> b \<le> c \<Longrightarrow> a \<le> c" by (simp add: less_eq_TaskId_def)
  show "a \<le> b \<Longrightarrow> b \<le> a \<Longrightarrow> a = b" by (cases a; cases b) (simp add: less_eq_TaskId_def)
  show "a \<le> b \<or> b \<le> a" by (auto simp: less_eq_TaskId_def)
qed

end

subsection \<open>Priorities\<close>

datatype Priority = Low | Normal | High | Critical

definition from_u8 :: "u8 \<Rightarrow> Priority option" where
  "from_u8 v = (if v = 0 then Some Low else if v = 1 then Some Normal
     else if v = 2 then Some High else if v = 3 then Some Critical else None)"

primrec as_u8 :: "Priority \<Rightarrow> u8" where
  "as_u8 Low = 0"
| "as_u8 Normal = 1"
| "as_u8 High = 2"
| "as_u8 Critical = 3"

fun is_critical_priority :: "Priority \<Rightarrow> bool" where
  "is_critical_priority Critical = True"
| "is_critical_priority _ = False"

primrec weight_percentage :: "Priority \<Rightarrow> fp" where
  "weight_percentage Critical = Fin 50"
| "weight_percentage High = Fin 30"
| "weight_percentage Normal = Fin 15"
| "weight_percentage Low = Fin 5"

primrec priority_label :: "Priority \<Rightarrow> string" where
  "priority_label Critical = ''Critical''"
| "priority_label High = ''High''"
| "priority_label Normal = ''Normal''"
| "priority_label Low = ''Low''"

definition priority_all :: "Priority list" where
  "priority_all = [Low, Normal, High, Critical]"

definition priority_all_desc :: "Priority list" where
  "priority_all_desc = [Critical, High, Normal, Low]"

definition priority_from_bool :: "bool \<Rightarrow> Priority" where
  "priority_from_bool is_critical = (if is_critical then Critical else Normal)"

text \<open>The derived order of the enum is that of its discriminants.\<close>

instantiation Priority :: linorder
begin

definition less_eq_Priority :: "Priority \<Rightarrow> Priority \<Rightarrow> bool" where
  "less_eq_Priority p q \<longleftrightarrow> as_u8 p \<le> as_u8 q"

definition less_Priority :: "Priority \<Rightarrow> Priority \<Rightarrow> bool" where
  "less_Priority p q \<longleftrightarrow> as_u8 p < as_u8 q"

instance
proof
  fix p q r :: Priority
  show "p < q \<longleftrightarrow> p \<le> q \<and> \<not> q \<le> p" by (auto simp: less_Priority_def less_eq_Priority_def)
  show "p \<le> p" by (simp add: less_eq_Priority_def)
  show "p \<le> q \<Longrightarrow> q \<le> r \<Longrightarrow> p \<le> r" by (simp add: less_eq_Priority_def)
  show "p \<le> q \<Longrightarrow> q \<le> p \<Longrightarrow> p = q" by (cases p; cases q) (simp_all add: less_eq_Priority_def word_le_nat_alt)
  show "p \<le> q \<or> q \<le> p" by (auto simp: less_eq_Priority_def)
qed

end

lemma from_u8_as_u8 [simp]: "from_u8 (as_u8 p) = Some p"
  by (cases p) (simp_all add: from_u8_def)

lemma as_u8_from_u8: "from_u8 v = Some p \<Longrightarrow> as_u8 p = v"
  by (auto simp: from_u8_def split: if_splits)

lemma as_u8_le_3: "as_u8 p \<le> 3"
  by (cases p) simp_all

lemma priority_le_Critical [simp]: "p \<le> Critical"
  by (cases p) (simp_all add: less_eq_Priority_def)

lemma Low_le_priority [simp]: "Low \<le> p"
  by (cases p) (simp_all add: less_eq_Priority_def)

lemma set_priority_all [simp]: "set priority_all = UNIV" "set priority_all_desc = UNIV"
  by (auto simp: priority_all_def priority_all_desc_def intro: Priority.exhaust)

lemma Priority_le_simps [simp]:
  "Low \<le> p" "Normal \<le> p \<longleftrightarrow> p \<noteq> Low" "High \<le> p \<longleftrightarrow> p = High \<or> p = Critical"
  "Critical \<le> p \<longleftrightarrow> p = Critical"
  by (cases p; simp add: less_eq_Priority_def word_le_nat_alt)+

lemma Priority_less_simps [simp]:
  "p < Low \<longleftrightarrow> False" "p < Normal \<longleftrightarrow> p = Low" "p < High \<longleftrightarrow> p = Low \<or> p = Normal"
  "p < Critical \<longleftrightarrow> p \<noteq> Critical"
  by (cases p; simp add: less_Priority_def word_less_nat_alt)+

subsection \<open>Resource requests, errors, locations\<close>

record ResourceAllocation =
  cpu_cores :: fp
  memory_mb :: u32
  gpu_cores :: u32

definition allocation_new :: "fp \<Rightarrow> u32 \<Rightarrow> u32 \<Rightarrow> ResourceAllocation" where
  "allocation_new cpu memory gpu = \<lparr>cpu_cores = cpu, memory_mb = memory, gpu_cores = gpu\<rparr>"

definition default_allocation :: ResourceAllocation where
  "default_allocation = \<lparr>cpu_cores = Fin 1, memory_mb = 256, gpu_cores = 0\<rparr>"

text \<open>
  The messages of the error values are data of the model where the code reads them again;
  \<open>IoError\<close>, \<open>DatabaseError\<close> and \<open>SerializationError\<close> carry the text of the library's error.
\<close>

datatype CoreError =
    AlreadyLeased
  | LeaseNotFound
  | StaleLeaseId
  | InvalidStateTransition string
  | ResourceAllocationFailed string
  | IoError string
  | Internal string
  | LockPoisoned string
  | DatabaseError string
  | SerializationError string
  | CyclicDependency TaskId
  | UnknownDependency TaskId
  | DuplicateTask TaskId
  | DependencyFailedFor TaskId
  | SessionFailed string

text \<open>The texts of \<open>CoreError\<close>; \<open>id_text\<close> is the text of a task id.\<close>

fun core_error_text :: "(TaskId \<Rightarrow> string) \<Rightarrow> CoreError \<Rightarrow> string" where
  "core_error_text _ AlreadyLeased = ''task already has an active lease''"
| "core_error_text _ LeaseNotFound = ''lease not found''"
| "core_error_text _ StaleLeaseId = ''stale lease id''"
| "core_error_text _ (InvalidStateTransition s) = ''invalid state transition: '' @ s"
| "core_error_text _ (ResourceAllocationFailed s) = ''resource allocation failed: '' @ s"
| "core_error_text _ (IoError s) = ''io error: '' @ s"
| "core_error_text _ (Internal s) = ''internal error: '' @ s"
| "core_error_text _ (LockPoisoned s) = ''lock poisoned: '' @ s"
| "core_error_text _ (DatabaseError s) = ''database error: '' @ s"
| "core_error_text _ (SerializationError s) = ''serialization error: '' @ s"
| "core_error_text id_text (CyclicDependency t) = ''cyclic dependency detected involving task '' @ id_text t"
| "core_error_text id_text (UnknownDependency t) = ''unknown dependency: task '' @ id_text t @ '' not in graph''"
| "core_error_text id_text (DuplicateTask t) = ''duplicate task id: '' @ id_text t"
| "core_error_text id_text (DependencyFailedFor t) = ''dependency failed for task '' @ id_text t"
| "core_error_text _ (SessionFailed s) = ''session operation failed: '' @ s"

record RemoteSessionTarget =
  rt_host :: string
  rt_user :: string
  rt_repo_name :: string

datatype ExecutionLocation = Local | RemoteSession RemoteSessionTarget

subsection \<open>Retry policies and outcomes\<close>

record RetryPolicy =
  max_attempts :: u32
  initial_backoff :: duration
  backoff_multiplier :: fp
  max_backoff :: duration
  retryable_exit_codes :: "i32 list"

datatype ExitOutcome = Success | FailedWithCode i32 | KilledBySignal i32 | TimedOut

fun is_retryable :: "ExitOutcome \<Rightarrow> RetryPolicy \<Rightarrow> bool" where
  "is_retryable Success p = False"
| "is_retryable (FailedWithCode code) p =
     (if retryable_exit_codes p = [] then True else code \<in> set (retryable_exit_codes p))"
| "is_retryable (KilledBySignal _) p = True"
| "is_retryable TimedOut p = True"

definition default_retry_policy :: RetryPolicy where
  "default_retry_policy = \<lparr>max_attempts = 3, initial_backoff = from_millis 100, backoff_multiplier = Fin 2,
     max_backoff = from_secs 30, retryable_exit_codes = []\<rparr>"

subsection \<open>Task descriptors\<close>

record EvaluationMetadata =
  aivcs_run_id :: "string option"
  rubric_path :: "string option"
  is_promotion_gate :: bool
  agent_phase :: u8

definition default_evaluation :: EvaluationMetadata where
  "default_evaluation =
     \<lparr>aivcs_run_id = None, rubric_path = None, is_promotion_gate = False, agent_phase = 0\<rparr>"

record TaskDescriptor =
  td_task_id :: TaskId
  td_command :: "string list"
  td_working_dir :: string
  td_env :: "(string, string) fmap"
  td_resources :: ResourceAllocation
  td_policy :: RetryPolicy
  td_attempt :: u32
  td_is_critical :: bool
  td_priority :: Priority
  td_dependencies :: "TaskId list"
  td_location :: ExecutionLocation
  td_evaluation :: EvaluationMetadata

subsection \<open>Leases\<close>

datatype LeaseState = Active | Completed | Failed u32 | Expired | Cancelled

record Lease =
  ls_lease_id :: LeaseId
  ls_task_id :: TaskId
  ls_worker_id :: WorkerId
  ls_state :: LeaseState
  ls_acquired_at :: instant
  ls_expires_at :: instant
  ls_attempt :: u32

text \<open>
  \<open>chrono::Duration::from_std\<close> fails beyond chrono's largest duration, which is
  \<open>i64::MAX\<close> milliseconds; \<open>unwrap_or_default\<close> then yields zero.
\<close>

definition chrono_max :: duration where
  "chrono_max = (2 ^ 63 - 1) * 10 ^ 6"

definition chrono_from_std :: "duration \<Rightarrow> int" where
  "chrono_from_std ttl = (if ttl \<le> chrono_max then int ttl else 0)"

definition lease_new :: "LeaseId \<Rightarrow> instant \<Rightarrow> TaskId \<Rightarrow> WorkerId \<Rightarrow> duration \<Rightarrow> u32 \<Rightarrow> Lease" where
  "lease_new fresh now task_id worker_id ttl attempt =
     \<lparr>ls_lease_id = fresh, ls_task_id = task_id, ls_worker_id = worker_id, ls_state = Active,
      ls_acquired_at = now, ls_expires_at = now + chrono_from_std ttl, ls_attempt = attempt\<rparr>"

definition lease_is_expired :: "instant \<Rightarrow> Lease \<Rightarrow> bool" where
  "lease_is_expired now l \<longleftrightarrow> now > ls_expires_at l"

definition lease_renew :: "instant \<Rightarrow> duration \<Rightarrow> Lease \<Rightarrow> Lease" where
  "lease_renew now ttl l = l\<lparr>ls_expires_at := now + chrono_from_std ttl\<rparr>"

record HeartbeatRecord =
  hb_lease_id :: LeaseId
  hb_timestamp :: instant

definition heartbeat_new :: "instant \<Rightarrow> LeaseId \<Rightarrow> HeartbeatRecord" where
  "heartbeat_new now l = \<lparr>hb_lease_id = l, hb_timestamp = now\<rparr>"

subsection \<open>Events and log lines\<close>

datatype LogSource = Stdout | Stderr

record LogLine =
  ll_task_id :: TaskId
  ll_seq :: u64
  ll_timestamp :: instant
  ll_source :: LogSource
  ll_content :: string

definition log_line_new :: "instant \<Rightarrow> TaskId \<Rightarrow> u64 \<Rightarrow> LogSource \<Rightarrow> string \<Rightarrow> LogLine" where
  "log_line_new now task_id seq source content =
     \<lparr>ll_task_id = task_id, ll_seq = seq, ll_timestamp = now, ll_source = source,
      ll_content = content\<rparr>"

datatype TaskEvent =
    EvAcquired TaskId WorkerId u32
  | EvStarted TaskId u32
  | EvCompleted TaskId ExitOutcome
  | EvCancelled TaskId
  | EvWillRetry TaskId u32 u64
  | EvAbandoned TaskId string
  | EvLeaseExpired TaskId

subsection \<open>Concrete tasks\<close>

text \<open>A descriptor with the default resources, used to evaluate operations on concrete input.\<close>

definition example_task :: "uuid \<Rightarrow> TaskId list \<Rightarrow> Priority \<Rightarrow> TaskDescriptor" where
  "example_task i deps priority =
     \<lparr>td_task_id = TaskId i, td_command = [''cargo'', ''test''], td_working_dir = ''/repo'', td_env = fmempty,
      td_resources = default_allocation, td_policy = default_retry_policy, td_attempt = 0,
      td_is_critical = False, td_priority = priority, td_dependencies = deps, td_location = Local,
      td_evaluation = default_evaluation\<rparr>"

end
