(* ===== verification/DagScheduler.thy ===== *)
theory DagScheduler
  imports CoreTypes
begin

text \<open>
  The DAG scheduler of \<open>crates/scheduler/src/dag.rs\<close>: its state \<open>Inner\<close>, the depth-first
  cycle check, and the operations \<open>enqueue\<close>, \<open>dequeue\<close>, \<open>complete\<close>, \<open>fail\<close>, \<open>requeue\<close>
  and \<open>discard\<close>, each run under the scheduler's mutex and therefore atomic.

  An operation reads the clock at one instant \<open>now\<close> (milliseconds since the epoch). The
  binary heap is the list of its entries: \<open>pop\<close> removes a greatest one.
\<close>

subsection \<open>Policies, metrics, resources\<close>

datatype TaskState = Pending | Ready | Running | TaskCompleted | TaskFailed | DependencyFailed

record FairnessPolicy =
  aging_threshold_ms :: u64
  aging_boost_levels :: u8
  enable_weighted_selection :: bool

definition default_fairness :: FairnessPolicy where
  "default_fairness = \<lparr>aging_threshold_ms = 500, aging_boost_levels = 1,
     enable_weighted_selection = True\<rparr>"

record StarvationPreventionPolicy =
  low_priority_quota_percent :: fp
  normal_priority_quota_percent :: fp
  max_queue_wait_ms :: u64
  enable_quota_enforcement :: bool

definition default_starvation :: StarvationPreventionPolicy where
  "default_starvation = \<lparr>low_priority_quota_percent = Fin 5, normal_priority_quota_percent = Fin 15,
     max_queue_wait_ms = 2000, enable_quota_enforcement = True\<rparr>"

record StarvationMetrics =
  aging_events :: u64
  deadline_enforcements :: u64
  quota_enforcements :: u64
  current_queue_depth :: nat

definition default_metrics :: StarvationMetrics where
  "default_metrics = \<lparr>aging_events = 0, deadline_enforcements = 0, quota_enforcements = 0,
     current_queue_depth = 0\<rparr>"

record ResourceConfig =
  max_cpu_cores :: fp
  max_memory_mb :: u32
  max_gpu_cores :: u32

definition resource_config_new :: "fp \<Rightarrow> u32 \<Rightarrow> u32 \<Rightarrow> ResourceConfig" where
  "resource_config_new cpu mem gpu =
     \<lparr>max_cpu_cores = cpu, max_memory_mb = mem, max_gpu_cores = gpu\<rparr>"

record ResourcePool =
  rp_config :: ResourceConfig
  used_cpu :: fp
  used_memory_mb :: u32
  used_gpu_cores :: u32

definition pool_new :: "ResourceConfig \<Rightarrow> ResourcePool" where
  "pool_new config = \<lparr>rp_config = config, used_cpu = Fin 0, used_memory_mb = 0, used_gpu_cores = 0\<rparr>"

definition can_fit :: "ResourcePool \<Rightarrow> ResourceAllocation \<Rightarrow> bool" where
  "can_fit p req \<longleftrightarrow>
     fle (fadd binary32 (used_cpu p) (cpu_cores req)) (max_cpu_cores (rp_config p))
     \<and> used_memory_mb p + memory_mb req \<le> max_memory_mb (rp_config p)
     \<and> used_gpu_cores p + gpu_cores req \<le> max_gpu_cores (rp_config p)"

definition pool_allocate :: "ResourcePool \<Rightarrow> ResourceAllocation \<Rightarrow> ResourcePool" where
  "pool_allocate p req = p\<lparr>
     used_cpu := fadd binary32 (used_cpu p) (cpu_cores req),
     used_memory_mb := used_memory_mb p + memory_mb req,
     used_gpu_cores := used_gpu_cores p + gpu_cores req\<rparr>"

definition pool_release :: "ResourcePool \<Rightarrow> ResourceAllocation \<Rightarrow> ResourcePool" where
  "pool_release p req = p\<lparr>
     used_cpu := fmax (fsub binary32 (used_cpu p) (cpu_cores req)) (Fin 0),
     used_memory_mb := saturating_sub (used_memory_mb p) (memory_mb req),
     used_gpu_cores := saturating_sub (used_gpu_cores p) (gpu_cores req)\<rparr>"

subsection \<open>Task metadata and ready entries\<close>

record TaskMetadata =
  enqueued_at_ms :: u64
  md_effective_priority :: Priority

definition metadata_new :: "u64 \<Rightarrow> Priority \<Rightarrow> TaskMetadata" where
  "metadata_new now p = \<lparr>enqueued_at_ms = now, md_effective_priority = p\<rparr>"

definition waiting_time_ms :: "u64 \<Rightarrow> TaskMetadata \<Rightarrow> u64" where
  "waiting_time_ms now m = saturating_sub now (enqueued_at_ms m)"

definition apply_aging :: "u64 \<Rightarrow> FairnessPolicy \<Rightarrow> TaskMetadata \<Rightarrow> TaskMetadata" where
  "apply_aging now policy m =
     (if aging_threshold_ms policy = 0 then m
      else if waiting_time_ms now m \<ge> aging_threshold_ms policy then
        (case from_u8 (min (as_u8 (md_effective_priority m) + aging_boost_levels policy) 3) of
           None \<Rightarrow> m
         | Some new_priority \<Rightarrow> m\<lparr>md_effective_priority := new_priority\<rparr>)
      else m)"

record ReadyEntry =
  original_priority :: Priority
  effective_priority :: Priority
  re_task_id :: TaskId

text \<open>\<open>Ord for ReadyEntry\<close>: by effective priority, ties by task id.\<close>

definition entry_le :: "ReadyEntry \<Rightarrow> ReadyEntry \<Rightarrow> bool" where
  "entry_le a b \<longleftrightarrow>
     (if effective_priority a = effective_priority b then re_task_id a \<le> re_task_id b
      else effective_priority a < effective_priority b)"

fun heap_max :: "ReadyEntry \<Rightarrow> ReadyEntry list \<Rightarrow> ReadyEntry" where
  "heap_max e [] = e"
| "heap_max e (x # xs) = heap_max (if entry_le e x then x else e) xs"

fun heap_pop :: "ReadyEntry list \<Rightarrow> (ReadyEntry \<times> ReadyEntry list) option" where
  "heap_pop [] = None"
| "heap_pop (x # xs) = (let m = heap_max x xs in Some (m, remove1 m (x # xs)))"

definition heap_push :: "ReadyEntry \<Rightarrow> ReadyEntry list \<Rightarrow> ReadyEntry list" where
  "heap_push e h = h @ [e]"

subsection \<open>The scheduler's state\<close>

record Inner =
  dag_tasks :: "(TaskId, TaskDescriptor) fmap"
  dag_states :: "(TaskId, TaskState) fmap"
  dag_successors :: "(TaskId, TaskId set) fmap"
  dag_in_degree :: "(TaskId, nat) fmap"
  dag_ready :: "ReadyEntry list"
  dag_fairness_policy :: FairnessPolicy
  dag_starvation_policy :: StarvationPreventionPolicy
  dag_metadata :: "(TaskId, TaskMetadata) fmap"
  dag_metrics :: StarvationMetrics
  dag_resource_pool :: "ResourcePool option"
  dag_running_resources :: "(TaskId, ResourceAllocation) fmap"

definition inner_new_with_policies :: "FairnessPolicy \<Rightarrow> StarvationPreventionPolicy \<Rightarrow> Inner" where
  "inner_new_with_policies fairness starvation =
     \<lparr>dag_tasks = fmempty, dag_states = fmempty, dag_successors = fmempty, dag_in_degree = fmempty,
      dag_ready = [], dag_fairness_policy = fairness, dag_starvation_policy = starvation,
      dag_metadata = fmempty, dag_metrics = default_metrics, dag_resource_pool = None,
      dag_running_resources = fmempty\<rparr>"

definition inner_new_with_policy :: "FairnessPolicy \<Rightarrow> Inner" where
  "inner_new_with_policy policy = inner_new_with_policies policy default_starvation"

definition inner_new :: Inner where
  "inner_new = inner_new_with_policies default_fairness default_starvation"

definition inner_new_with_resource_config :: "ResourceConfig \<Rightarrow> Inner" where
  "inner_new_with_resource_config config = inner_new\<lparr>dag_resource_pool := Some (pool_new config)\<rparr>"

definition set_fairness_policy :: "FairnessPolicy \<Rightarrow> Inner \<Rightarrow> Inner" where
  "set_fairness_policy policy s = s\<lparr>dag_fairness_policy := policy\<rparr>"

definition set_starvation_policy :: "StarvationPreventionPolicy \<Rightarrow> Inner \<Rightarrow> Inner" where
  "set_starvation_policy policy s = s\<lparr>dag_starvation_policy := policy\<rparr>"

definition starvation_metrics :: "Inner \<Rightarrow> StarvationMetrics" where
  "starvation_metrics s = dag_metrics s"

subsection \<open>Cycle detection\<close>

datatype Color = White | Gray | Black

text \<open>
  \<open>tasks[&node].dependencies\<close>. The index would panic on an unknown node; the search only
  visits nodes with a colour, which are the keys of \<open>tasks\<close> (\<open>dfs_deps_keys\<close> below).
\<close>

definition deps_of :: "(TaskId, TaskDescriptor) fmap \<Rightarrow> TaskId \<Rightarrow> TaskId list" where
  "deps_of ts node = (case fmlookup ts node of None \<Rightarrow> [] | Some t \<Rightarrow> td_dependencies t)"

definition whites :: "(TaskId, Color) fmap \<Rightarrow> TaskId set" where
  "whites c = {x. fmlookup c x = Some White}"

text \<open>
  The loop of \<open>dfs\<close> over the dependencies of a node, with the recursive call for a white
  dependency written in place: colour it gray, visit its dependencies, colour it black.
\<close>

function dfs_deps :: "(TaskId, TaskDescriptor) fmap \<Rightarrow> TaskId list \<Rightarrow> (TaskId, Color) fmap
    \<Rightarrow> TaskId option \<times> (TaskId, Color) fmap" where
  "dfs_deps ts [] c = (None, c)"
| "dfs_deps ts (d # ds) c =
     (case fmlookup c d of
        Some Gray \<Rightarrow> (Some d, c)
      | Some White \<Rightarrow>
          (case dfs_deps ts (deps_of ts d) (fmupd d Gray c) of
             (Some _, c') \<Rightarrow> (Some d, c')
           | (None, c') \<Rightarrow> dfs_deps ts ds (fmupd d Black c'))
      | _ \<Rightarrow> dfs_deps ts ds c)"
  by pat_completeness auto

lemma finite_whites [simp]: "finite (whites c)"
  by (simp add: whites_def)

lemma whites_fmupd: "col \<noteq> White \<Longrightarrow> whites (fmupd d col c) = whites c - {d}"
  by (auto simp: whites_def)

lemma dfs_deps_whites_dom:
  "dfs_deps_dom (ts, ds, c) \<Longrightarrow> whites (snd (dfs_deps ts ds c)) \<subseteq> whites c"
proof (induction ts ds c rule: dfs_deps.pinduct)
  case (1 ts c)
  then show ?case by (simp add: dfs_deps.psimps)
next
  case (2 ts d ds c)
  show ?case
  proof (cases "fmlookup c d")
    case None
    then show ?thesis using 2 by (simp add: dfs_deps.psimps)
  next
    case (Some col)
    show ?thesis
    proof (cases col)
      case White
      obtain r c' where rec: "dfs_deps ts (deps_of ts d) (fmupd d Gray c) = (r, c')"
        by (cases "dfs_deps ts (deps_of ts d) (fmupd d Gray c)")
      have sub: "whites c' \<subseteq> whites c - {d}"
        using 2(3) Some White rec by (simp add: whites_fmupd)
      show ?thesis
      proof (cases r)
        case None
        have "whites (snd (dfs_deps ts ds (fmupd d Black c'))) \<subseteq> whites (fmupd d Black c')"
          using 2(4) Some White rec None by simp
        then show ?thesis using 2(1) Some White rec None sub
          by (auto simp: dfs_deps.psimps whites_fmupd)
      qed (use 2(1) Some White rec sub in \<open>auto simp: dfs_deps.psimps\<close>)
    qed (use 2 Some in \<open>simp_all add: dfs_deps.psimps\<close>)
  qed
qed

termination dfs_deps
proof (relation "measures [\<lambda>(ts, ds, c). card (whites c), \<lambda>(ts, ds, c). length ds]", goal_cases)
  case (3 ts d ds c col)
  then have "card (whites c - {d}) < card (whites c)"
    by (intro psubset_card_mono) (auto simp: whites_def)
  with 3 show ?case by (simp add: whites_fmupd)
next
  case (4 ts d ds c col r c')
  then have "whites c' \<subseteq> whites c - {d}"
    using dfs_deps_whites_dom [OF 4(5)] by (simp add: whites_fmupd flip: 4(3))
  moreover have "d \<in> whites c" using 4 by (simp add: whites_def)
  ultimately have "whites (fmupd d Black c') \<subset> whites c" by (auto simp: whites_fmupd)
  then show ?case by (simp add: psubset_card_mono)
qed auto

definition dfs :: "(TaskId, TaskDescriptor) fmap \<Rightarrow> TaskId \<Rightarrow> (TaskId, Color) fmap
    \<Rightarrow> TaskId option \<times> (TaskId, Color) fmap" where
  "dfs ts node c =
     (case dfs_deps ts (deps_of ts node) (fmupd node Gray c) of
        (Some x, c') \<Rightarrow> (Some x, c')
      | (None, c') \<Rightarrow> (None, fmupd node Black c'))"

fun detect_cycle_from :: "(TaskId, TaskDescriptor) fmap \<Rightarrow> TaskId list \<Rightarrow> (TaskId, Color) fmap
    \<Rightarrow> TaskId option" where
  "detect_cycle_from ts [] c = None"
| "detect_cycle_from ts (k # ks) c =
     (if fmlookup c k = Some White then
        (case dfs ts k c of
           (Some _, c') \<Rightarrow> Some k
         | (None, c') \<Rightarrow> detect_cycle_from ts ks c')
      else detect_cycle_from ts ks c)"

definition detect_cycle ::
    "(TaskId set \<Rightarrow> TaskId list) \<Rightarrow> (TaskId, TaskDescriptor) fmap \<Rightarrow> TaskId option" where
  "detect_cycle ord ts = detect_cycle_from ts (ord (fmdom' ts)) (fmmap (\<lambda>_. White) ts)"

text \<open>The loop body as the code writes it, with the recursive call to \<open>dfs\<close>.\<close>

lemma dfs_deps_Cons:
  "dfs_deps ts (d # ds) c =
     (case fmlookup c d of
        Some Gray \<Rightarrow> (Some d, c)
      | Some White \<Rightarrow>
          (case dfs ts d c of (Some _, c') \<Rightarrow> (Some d, c') | (None, c') \<Rightarrow> dfs_deps ts ds c')
      | _ \<Rightarrow> dfs_deps ts ds c)"
  by (simp add: dfs_def split: option.split prod.split Color.split)

subsection \<open>Enqueue\<close>

text \<open>\<open>entry(dep).or_insert_with(HashSet::new).insert(task_id)\<close> and its undoing.\<close>

definition add_successor :: "TaskId \<Rightarrow> TaskId \<Rightarrow> (TaskId, TaskId set) fmap \<Rightarrow> (TaskId, TaskId set) fmap" where
  "add_successor t dep m =
     fmupd dep (insert t (case fmlookup m dep of None \<Rightarrow> {} | Some S \<Rightarrow> S)) m"

definition remove_successor :: "TaskId \<Rightarrow> TaskId \<Rightarrow> (TaskId, TaskId set) fmap \<Rightarrow> (TaskId, TaskId set) fmap" where
  "remove_successor t dep m =
     (case fmlookup m dep of None \<Rightarrow> m | Some S \<Rightarrow> fmupd dep (S - {t}) m)"

definition ready_entry :: "Priority \<Rightarrow> TaskId \<Rightarrow> ReadyEntry" where
  "ready_entry p t = \<lparr>original_priority = p, effective_priority = p, re_task_id = t\<rparr>"

definition inner_enqueue ::
    "(TaskId set \<Rightarrow> TaskId list) \<Rightarrow> u64 \<Rightarrow> TaskDescriptor \<Rightarrow> Inner \<Rightarrow> (CoreError + unit) \<times> Inner" where
  "inner_enqueue ord now task s =
    (let t = td_task_id task; deps = td_dependencies task in
     if fmlookup (dag_tasks s) t \<noteq> None then (Err (DuplicateTask t), s)
     else
       let s1 = s\<lparr>dag_tasks := fmupd t task (dag_tasks s)\<rparr> in
       case find (\<lambda>d. fmlookup (dag_tasks s1) d = None) deps of
         Some d \<Rightarrow> (Err (UnknownDependency d), s1\<lparr>dag_tasks := fmdrop t (dag_tasks s1)\<rparr>)
       | None \<Rightarrow>
           let in_degree = length deps;
               s2 = s1\<lparr>dag_successors := fold (add_successor t) deps (dag_successors s1)\<rparr> in
           if detect_cycle ord (dag_tasks s2) \<noteq> None then
             (Err (CyclicDependency t),
              s2\<lparr>dag_tasks := fmdrop t (dag_tasks s2),
                 dag_successors := fold (remove_successor t) deps (dag_successors s2)\<rparr>)
           else
             let initial_state = (if in_degree = 0 then Ready else Pending);
                 s3 = s2\<lparr>dag_states := fmupd t initial_state (dag_states s2),
                         dag_in_degree := fmupd t in_degree (dag_in_degree s2),
                         dag_metadata := fmupd t (metadata_new now (td_priority task)) (dag_metadata s2)\<rparr> in
             (Ok (),
              if initial_state = Ready
              then s3\<lparr>dag_ready := heap_push (ready_entry (td_priority task) t) (dag_ready s3)\<rparr>
              else s3))"

subsection \<open>Complete and fail\<close>

primrec task_state_debug :: "TaskState \<Rightarrow> string" where
  "task_state_debug Pending = ''Pending''"
| "task_state_debug Ready = ''Ready''"
| "task_state_debug Running = ''Running''"
| "task_state_debug TaskCompleted = ''Completed''"
| "task_state_debug TaskFailed = ''Failed''"
| "task_state_debug DependencyFailed = ''DependencyFailed''"

text \<open>
  Releasing a task's allocation. The text of \<open>task {} not found\<close> omits the identifier: its
  textual form is the \<open>uuid\<close> crate's.
\<close>

definition release_running :: "TaskId \<Rightarrow> Inner \<Rightarrow> Inner" where
  "release_running t s =
     (case fmlookup (dag_running_resources s) t of
        None \<Rightarrow> s
      | Some alloc \<Rightarrow>
          s\<lparr>dag_running_resources := fmdrop t (dag_running_resources s),
            dag_resource_pool := map_option (\<lambda>p. pool_release p alloc) (dag_resource_pool s)\<rparr>)"

definition make_ready :: "u64 \<Rightarrow> TaskId \<Rightarrow> Inner \<Rightarrow> Inner" where
  "make_ready now t s =
     (let s1 = s\<lparr>dag_states := fmupd t Ready (dag_states s)\<rparr> in
      case fmlookup (dag_tasks s1) t of
        None \<Rightarrow> s1
      | Some task \<Rightarrow>
          s1\<lparr>dag_metadata := fmupd t (metadata_new now (td_priority task)) (dag_metadata s1),
             dag_ready := heap_push (ready_entry (td_priority task) t) (dag_ready s1)\<rparr>)"

definition unblock :: "u64 \<Rightarrow> TaskId \<Rightarrow> Inner \<Rightarrow> Inner" where
  "unblock now succ s =
     (case fmlookup (dag_in_degree s) succ of
        None \<Rightarrow> s
      | Some degree \<Rightarrow>
          let degree' = degree - 1;
              s1 = s\<lparr>dag_in_degree := fmupd succ degree' (dag_in_degree s)\<rparr> in
          if degree' = 0 \<and> fmlookup (dag_states s1) succ = Some Pending
          then make_ready now succ s1
          else s1)"

definition successors_of :: "Inner \<Rightarrow> TaskId \<Rightarrow> TaskId set" where
  "successors_of s t = (case fmlookup (dag_successors s) t of None \<Rightarrow> {} | Some S \<Rightarrow> S)"

definition inner_complete ::
    "(TaskId set \<Rightarrow> TaskId list) \<Rightarrow> u64 \<Rightarrow> TaskId \<Rightarrow> Inner \<Rightarrow> (CoreError + unit) \<times> Inner" where
  "inner_complete ord now t s =
     (case fmlookup (dag_states s) t of
        None \<Rightarrow> (Err (Internal ''task not found''), s)
      | Some st \<Rightarrow>
          if st = Running then
            let s1 = s\<lparr>dag_states := fmupd t TaskCompleted (dag_states s)\<rparr>;
                s2 = release_running t s1
            in (Ok (), fold (unblock now) (ord (successors_of s2 t)) s2)
          else (Err (Internal (''cannot complete task in state '' @ task_state_debug st)), s))"

text \<open>
  The breadth-first loop of \<open>fail\<close>: one dequeued node marks its pending or ready successors
  \<open>DependencyFailed\<close> and appends them to the queue.
\<close>

fun cascade_one :: "TaskId \<Rightarrow> TaskId list \<times> (TaskId, TaskState) fmap
    \<Rightarrow> TaskId list \<times> (TaskId, TaskState) fmap" where
  "cascade_one x (q, st) =
    (if fmlookup st x = Some Pending \<or> fmlookup st x = Some Ready
     then (q @ [x], fmupd x DependencyFailed st) else (q, st))"

definition live_states :: "(TaskId, TaskState) fmap \<Rightarrow> TaskId set" where
  "live_states st = {x. fmlookup st x = Some Pending \<or> fmlookup st x = Some Ready}"

lemma finite_live_states [simp]: "finite (live_states st)"
  by (rule finite_subset [of _ "fmdom' st"]) (auto simp: live_states_def fmdom'_lookup)

lemma cascade_fold_measure:
  "fold cascade_one xs (q, st) = (q', st') \<Longrightarrow>
   live_states st' \<subseteq> live_states st \<and> card (live_states st') + length q' = card (live_states st) + length q"
proof (induction xs arbitrary: q st)
  case (Cons x xs)
  show ?case
  proof (cases "x \<in> live_states st")
    case True
    then have live: "live_states (fmupd x DependencyFailed st) = live_states st - {x}"
      by (auto simp: live_states_def)
    have "fold cascade_one xs (q @ [x], fmupd x DependencyFailed st) = (q', st')"
      using Cons.prems True by (simp add: live_states_def)
    from Cons.IH [OF this] True show ?thesis
      using card_Suc_Diff1 [OF finite_live_states True] by (auto simp: live)
  next
    case False
    then have "cascade_one x (q, st) = (q, st)"
      by (simp add: live_states_def)
    with Cons show ?thesis by simp
  qed
qed simp

function cascade :: "(TaskId set \<Rightarrow> TaskId list) \<Rightarrow> (TaskId, TaskId set) fmap \<Rightarrow> TaskId list
    \<Rightarrow> (TaskId, TaskState) fmap \<Rightarrow> (TaskId, TaskState) fmap" where
  "cascade ord succs [] st = st"
| "cascade ord succs (current # q) st =
     (case fmlookup succs current of
        None \<Rightarrow> cascade ord succs q st
      | Some S \<Rightarrow> (case fold cascade_one (ord S) (q, st) of (q', st') \<Rightarrow> cascade ord succs q' st'))"
  by pat_completeness auto

termination cascade
proof (relation "measure (\<lambda>(ord, succs, q, st). 2 * card (live_states st) + length q)", goal_cases)
  case (3 ord succs current q st S q' st')
  then have "card (live_states st') + length q' = card (live_states st) + length q"
    and "live_states st' \<subseteq> live_states st"
    using cascade_fold_measure [of "ord S" q st q' st'] by simp_all
  moreover from this have "card (live_states st') \<le> card (live_states st)"
    by (intro card_mono) auto
  ultimately show ?case by simp
qed auto

definition inner_fail ::
    "(TaskId set \<Rightarrow> TaskId list) \<Rightarrow> TaskId \<Rightarrow> Inner \<Rightarrow> (CoreError + unit) \<times> Inner" where
  "inner_fail ord t s =
     (let was_running = (fmlookup (dag_states s) t = Some Running) in
      case fmlookup (dag_states s) t of
        None \<Rightarrow> (Err (Internal ''task not found''), s)
      | Some st \<Rightarrow>
          if st = Running \<or> st = Ready \<or> st = Pending then
            let s1 = s\<lparr>dag_states := fmupd t TaskFailed (dag_states s)\<rparr>;
                s2 = (if was_running then release_running t s1 else s1)
            in (Ok (), s2\<lparr>dag_states := cascade ord (dag_successors s2) [t] (dag_states s2)\<rparr>)
          else (Err (Internal (''cannot fail task in state '' @ task_state_debug st)), s))"

subsection \<open>Dequeue\<close>

text \<open>
  The pass over the drained heap: aging and deadline enforcement update the metadata of each
  entry's task and the entry's effective priority, and count the promotions.
\<close>

definition enforce_deadline ::
    "u64 \<Rightarrow> StarvationPreventionPolicy \<Rightarrow> TaskMetadata \<Rightarrow> TaskMetadata \<times> u64" where
  "enforce_deadline now policy m =
     (if enable_quota_enforcement policy \<and> max_queue_wait_ms policy > 0
         \<and> waiting_time_ms now m \<ge> max_queue_wait_ms policy
      then if md_effective_priority m < Normal
        then (m\<lparr>md_effective_priority := Normal\<rparr>, 1) else (m, 0)
      else (m, 0))"

fun age_entries :: "u64 \<Rightarrow> FairnessPolicy \<Rightarrow> StarvationPreventionPolicy \<Rightarrow> ReadyEntry list
    \<Rightarrow> (TaskId, TaskMetadata) fmap \<Rightarrow> ReadyEntry list \<times> (TaskId, TaskMetadata) fmap \<times> u64 \<times> u64" where
  "age_entries now fp sp [] md = ([], md, 0, 0)"
| "age_entries now fp sp (e # es) md =
     (case fmlookup md (re_task_id e) of
        None \<Rightarrow> (case age_entries now fp sp es md of (es', md', a, d) \<Rightarrow> (e # es', md', a, d))
      | Some m \<Rightarrow>
          let m1 = apply_aging now fp m;
              aged = (if md_effective_priority m1 > md_effective_priority m then 1 else 0) in
          case enforce_deadline now sp m1 of (m2, dl) \<Rightarrow>
          case age_entries now fp sp es (fmupd (re_task_id e) m2 md) of (es', md', a, d) \<Rightarrow>
            (e\<lparr>effective_priority := md_effective_priority m2\<rparr> # es', md', aged + a, dl + d))"

definition age_ready :: "u64 \<Rightarrow> Inner \<Rightarrow> Inner" where
  "age_ready now s =
     (case age_entries now (dag_fairness_policy s) (dag_starvation_policy s) (dag_ready s) (dag_metadata s) of
        (entries, md, aging_count, deadline_count) \<Rightarrow>
          s\<lparr>dag_ready := entries, dag_metadata := md,
            dag_metrics := (dag_metrics s)\<lparr>
              aging_events := aging_events (dag_metrics s) + aging_count,
              deadline_enforcements := deadline_enforcements (dag_metrics s) + deadline_count\<rparr>\<rparr>)"

definition fits :: "Inner \<Rightarrow> TaskDescriptor \<Rightarrow> bool" where
  "fits s task = (case dag_resource_pool s of None \<Rightarrow> True | Some pool \<Rightarrow> can_fit pool (td_resources task))"

definition start_task :: "ReadyEntry \<Rightarrow> TaskDescriptor \<Rightarrow> Inner \<Rightarrow> Inner" where
  "start_task e task s =
     (let t = re_task_id e;
          s1 = s\<lparr>dag_states := fmupd t Running (dag_states s)\<rparr>;
          s2 = (case dag_resource_pool s1 of
                  None \<Rightarrow> s1
                | Some pool \<Rightarrow>
                    s1\<lparr>dag_resource_pool := Some (pool_allocate pool (td_resources task)),
                       dag_running_resources := fmupd t (td_resources task) (dag_running_resources s1)\<rparr>)
      in case fmlookup (dag_metadata s2) t of
           None \<Rightarrow> s2
         | Some m \<Rightarrow>
             s2\<lparr>dag_metadata := fmupd t (m\<lparr>md_effective_priority := original_priority e\<rparr>) (dag_metadata s2)\<rparr>)"

text \<open>The pop loop: stale entries are dropped, entries that do not fit are set aside.\<close>

lemma heap_max_in: "heap_max e xs \<in> set (e # xs)"
proof (induction xs arbitrary: e)
  case (Cons x xs)
  from Cons [of "if entry_le e x then x else e"] show ?case by (auto split: if_splits)
qed simp

lemma heap_pop_Some: "heap_pop h = Some (e, h') \<Longrightarrow> e \<in> set h \<and> h' = remove1 e h"
  using heap_max_in by (cases h) (auto simp: Let_def)

lemma heap_pop_None [simp]: "heap_pop h = None \<longleftrightarrow> h = []"
  by (cases h) (simp_all add: Let_def)

lemma heap_pop_length: "heap_pop h = Some (e, h') \<Longrightarrow> length h' < length h"
  using heap_pop_Some [of h e h'] length_pos_if_in_set [of e h] by (simp add: length_remove1)

function pop_loop :: "Inner \<Rightarrow> ReadyEntry list \<Rightarrow> ReadyEntry list \<Rightarrow> TaskDescriptor option \<times> Inner" where
  "pop_loop s h skipped =
     (case heap_pop h of
        None \<Rightarrow> (None, s\<lparr>dag_ready := fold heap_push skipped []\<rparr>)
      | Some (e, h') \<Rightarrow>
          if fmlookup (dag_states s) (re_task_id e) = Some Ready then
            (case fmlookup (dag_tasks s) (re_task_id e) of
               None \<Rightarrow> pop_loop s h' skipped
             | Some task \<Rightarrow>
                 if fits s task
                 then (Some task, (start_task e task s)\<lparr>dag_ready := fold heap_push skipped h'\<rparr>)
                 else pop_loop s h' (skipped @ [e]))
          else pop_loop s h' skipped)"
  by pat_completeness auto

termination pop_loop
  by (relation "measure (\<lambda>(s, h, skipped). length h)") (auto dest: heap_pop_length)

declare pop_loop.simps [simp del]

definition inner_dequeue :: "u64 \<Rightarrow> Inner \<Rightarrow> (CoreError + TaskDescriptor option) \<times> Inner" where
  "inner_dequeue now s =
     (let s1 = age_ready now s in
      case pop_loop s1 (dag_ready s1) [] of (r, s2) \<Rightarrow> (Ok r, s2))"

subsection \<open>Requeue and discard\<close>

definition inner_requeue :: "u64 \<Rightarrow> TaskId \<Rightarrow> u32 \<Rightarrow> Inner \<Rightarrow> (CoreError + unit) \<times> Inner" where
  "inner_requeue now t attempt s =
     (let s1 = (case fmlookup (dag_tasks s) t of
                  None \<Rightarrow> s
                | Some task \<Rightarrow> s\<lparr>dag_tasks := fmupd t (task\<lparr>td_attempt := attempt\<rparr>) (dag_tasks s)\<rparr>) in
      if fmlookup (dag_states s1) t = Some Running then
        let priority = (case fmlookup (dag_tasks s1) t of None \<Rightarrow> Normal | Some task \<Rightarrow> td_priority task) in
        (Ok (),
         s1\<lparr>dag_states := fmupd t Ready (dag_states s1),
            dag_metadata := fmupd t (metadata_new now priority) (dag_metadata s1),
            dag_ready := heap_push (ready_entry priority t) (dag_ready s1)\<rparr>)
      else (Ok (), s1))"

definition inner_discard ::
    "(TaskId set \<Rightarrow> TaskId list) \<Rightarrow> TaskId \<Rightarrow> Inner \<Rightarrow> (CoreError + unit) \<times> Inner" where
  "inner_discard ord t s = inner_fail ord t s"

subsection \<open>The mutex\<close>

text \<open>
  \<open>DagScheduler\<close> is the state behind a mutex; a poisoned mutex makes every operation fail
  before it touches the state. The text of the error omits the poison error's own message.
\<close>

record DagScheduler =
  dag_inner :: Inner
  dag_poisoned :: bool

definition with_lock :: "(Inner \<Rightarrow> (CoreError + 'a) \<times> Inner) \<Rightarrow> DagScheduler
    \<Rightarrow> (CoreError + 'a) \<times> DagScheduler" where
  "with_lock f d =
     (if dag_poisoned d then (Err (Internal ''mutex poisoned''), d)
      else case f (dag_inner d) of (r, s) \<Rightarrow> (r, d\<lparr>dag_inner := s\<rparr>))"

definition dag_new :: DagScheduler where
  "dag_new = \<lparr>dag_inner = inner_new, dag_poisoned = False\<rparr>"

definition dag_with_fairness_policy :: "FairnessPolicy \<Rightarrow> DagScheduler" where
  "dag_with_fairness_policy p = \<lparr>dag_inner = inner_new_with_policy p, dag_poisoned = False\<rparr>"

definition dag_with_resource_config :: "ResourceConfig \<Rightarrow> DagScheduler" where
  "dag_with_resource_config c = \<lparr>dag_inner = inner_new_with_resource_config c, dag_poisoned = False\<rparr>"

text \<open>The calls a client can make, with what each reads from its environment.\<close>

datatype DagOp =
    OpEnqueue u64 TaskDescriptor
  | OpDequeue u64
  | OpComplete u64 TaskId
  | OpFail TaskId
  | OpRequeue u64 TaskId u32
  | OpSetFairness FairnessPolicy
  | OpSetStarvation StarvationPreventionPolicy

fun dag_step :: "(TaskId set \<Rightarrow> TaskId list) \<Rightarrow> DagOp \<Rightarrow> Inner \<Rightarrow> Inner" where
  "dag_step ord (OpEnqueue now task) s = snd (inner_enqueue ord now task s)"
| "dag_step ord (OpDequeue now) s = snd (inner_dequeue now s)"
| "dag_step ord (OpComplete now t) s = snd (inner_complete ord now t s)"
| "dag_step ord (OpFail t) s = snd (inner_fail ord t s)"
| "dag_step ord (OpRequeue now t attempt) s = snd (inner_requeue now t attempt s)"
| "dag_step ord (OpSetFairness p) s = set_fairness_policy p s"
| "dag_step ord (OpSetStarvation p) s = set_starvation_policy p s"

inductive dag_reachable :: "Inner \<Rightarrow> bool" where
  start: "dag_resource_pool s = None \<or> dag_resource_pool s = Some (pool_new c) \<Longrightarrow>
     s = (inner_new_with_policies f p)\<lparr>dag_resource_pool := dag_resource_pool s\<rparr> \<Longrightarrow> dag_reachable s"
| step: "dag_reachable s \<Longrightarrow> hash_order ord \<Longrightarrow> dag_reachable (dag_step ord oper s)"

end
