(* ===== verification/DagCycle.thy ===== *)
theory DagCycle
  imports DagScheduler
begin

text \<open>
  Correctness of the scheduler's cycle check: the white/gray/black depth-first search of
  \<open>detect_cycle\<close> finds a cycle exactly when the dependency graph has one, whatever order the
  hash map is iterated in, and never looks up a node that is not in the graph.
\<close>

subsection \<open>The dependency graph\<close>

definition dag_edges :: "(TaskId, TaskDescriptor) fmap \<Rightarrow> (TaskId \<times> TaskId) set" where
  "dag_edges ts = {(x, d). d \<in> set (deps_of ts x) \<and> d \<in> fmdom' ts}"

lemma dag_edges_dom: "(x, d) \<in> dag_edges ts \<Longrightarrow> x \<in> fmdom' ts \<and> d \<in> fmdom' ts"
  by (cases "fmlookup ts x") (auto simp: dag_edges_def deps_of_def fmdom'_lookup)

definition grays :: "(TaskId, Color) fmap \<Rightarrow> TaskId set" where
  "grays c = {x. fmlookup c x = Some Gray}"

definition blacks :: "(TaskId, Color) fmap \<Rightarrow> TaskId set" where
  "blacks c = {x. fmlookup c x = Some Black}"

lemma colour_upd [simp]:
  "grays (fmupd d Gray c) = insert d (grays c)"
  "grays (fmupd d Black c) = grays c - {d}"
  "blacks (fmupd d Gray c) = blacks c - {d}"
  "blacks (fmupd d Black c) = insert d (blacks c)"
  by (auto simp: grays_def blacks_def)

lemma dfs_deps_keys: "fmdom' (snd (dfs_deps ts ds c)) = fmdom' c"
proof (induction ts ds c rule: dfs_deps.induct)
  case (2 ts d ds c)
  show ?case
  proof (cases "fmlookup c d")
    case (Some col)
    then have d: "d \<in> fmdom' c" by (rule fmdom'_lookup_Some)
    show ?thesis
    proof (cases col)
      case White
      obtain r c' where rec: "dfs_deps ts (deps_of ts d) (fmupd d Gray c) = (r, c')"
        by (cases "dfs_deps ts (deps_of ts d) (fmupd d Gray c)")
      have c': "fmdom' c' = fmdom' c" using 2(2) [OF Some White] d rec by (auto simp: insert_absorb)
      show ?thesis
      proof (cases r)
        case None
        have "fmdom' (snd (dfs_deps ts ds (fmupd d Black c'))) = fmdom' (fmupd d Black c')"
          by (rule 2(3) [OF Some White rec [symmetric] None])
        then show ?thesis using Some White rec None c' d by (simp add: insert_absorb)
      qed (use Some White rec c' in simp)
    qed (use 2 Some in simp_all)
  qed (use 2 in simp)
qed simp

lemma gray_not_black: "d \<in> grays c \<Longrightarrow> d \<notin> blacks c"
  by (simp add: grays_def blacks_def)

subsection \<open>Finished nodes are acyclic and closed\<close>

definition black_closed :: "(TaskId \<times> TaskId) set \<Rightarrow> TaskId set \<Rightarrow> bool" where
  "black_closed E B \<longleftrightarrow> E `` B \<subseteq> B \<and> acyclic (E \<inter> B \<times> UNIV)"

lemma closed_trancl:
  assumes "(x, y) \<in> (E \<inter> A \<times> UNIV)\<^sup>+" "E `` B \<subseteq> B" "x \<in> B"
  shows "y \<in> B \<and> (x, y) \<in> (E \<inter> B \<times> UNIV)\<^sup>+"
  using assms
proof (induction rule: trancl_induct)
  case (base y)
  then show ?case by blast
next
  case (step y z)
  then have "y \<in> B" and "(x, y) \<in> (E \<inter> B \<times> UNIV)\<^sup>+" by auto
  moreover have "(y, z) \<in> E \<inter> B \<times> UNIV" using step \<open>y \<in> B\<close> by auto
  ultimately show ?case using step.prems by (auto intro: trancl_into_trancl)
qed

lemma black_closed_insert:
  assumes bc: "black_closed E B" and out: "E `` {d} \<subseteq> B" and d: "d \<notin> B"
  shows "black_closed E (insert d B)"
proof -
  have cl: "E `` B \<subseteq> B" and ac: "acyclic (E \<inter> B \<times> UNIV)" using bc by (auto simp: black_closed_def)
  have "acyclic (E \<inter> insert d B \<times> UNIV)"
  proof (rule acyclicI, intro allI notI)
    fix x assume cyc: "(x, x) \<in> (E \<inter> insert d B \<times> UNIV)\<^sup>+"
    show False
    proof (cases "x \<in> B")
      case True
      then show False using closed_trancl [OF cyc cl] ac by (auto simp: acyclic_def)
    next
      case False
      obtain z where z: "(x, z) \<in> E \<inter> insert d B \<times> UNIV" "(z, x) \<in> (E \<inter> insert d B \<times> UNIV)\<^sup>*"
        using cyc by (meson tranclD)
      have zB: "z \<in> B" using z(1) False out by auto
      with False have "z \<noteq> x" by auto
      with z(2) have "(z, x) \<in> (E \<inter> insert d B \<times> UNIV)\<^sup>+" by (simp add: rtrancl_eq_or_trancl)
      then show False using closed_trancl [OF _ cl zB] False by blast
    qed
  qed
  then show ?thesis using cl out by (auto simp: black_closed_def)
qed

lemma dfs_deps_None:
  assumes "dfs_deps ts ds c = (None, c')" "fmdom' c = fmdom' ts" "black_closed (dag_edges ts) (blacks c)"
  shows "grays c' = grays c \<and> blacks c \<subseteq> blacks c' \<and> black_closed (dag_edges ts) (blacks c')
    \<and> set ds \<inter> fmdom' ts \<subseteq> blacks c'"
  using assms
proof (induction ts ds c arbitrary: c' rule: dfs_deps.induct)
  case (1 ts c)
  then show ?case by simp
next
  case (2 ts d ds c)
  show ?case
  proof (cases "fmlookup c d")
    case None
    then have "d \<notin> fmdom' ts" using 2(6) fmdom'_lookup [of d c] by simp
    then show ?thesis using 2(1) [OF None, of c'] 2(5,6,7) None by simp
  next
    case (Some col)
    then have d: "d \<in> fmdom' ts" using 2(6) fmdom'_lookup_Some by metis
    show ?thesis
    proof (cases col)
      case Gray
      then show ?thesis using 2(5) Some by simp
    next
      case Black
      then have "d \<in> blacks c" using Some by (simp add: blacks_def)
      then show ?thesis using 2(4) [OF Some Black, of c'] 2(5,6,7) Some Black by auto
    next
      case White
      obtain r c1 where rec: "dfs_deps ts (deps_of ts d) (fmupd d Gray c) = (r, c1)"
        by (cases "dfs_deps ts (deps_of ts d) (fmupd d Gray c)")
      have r: "r = None" using 2(5) Some White rec by (cases r) auto
      have nb: "d \<notin> blacks c" "d \<notin> grays c" using Some White by (auto simp: blacks_def grays_def)
      have keys1: "fmdom' (fmupd d Gray c) = fmdom' ts" using d 2(6) by auto
      have inner: "grays c1 = insert d (grays c)" "blacks c \<subseteq> blacks c1"
          "black_closed (dag_edges ts) (blacks c1)" "set (deps_of ts d) \<inter> fmdom' ts \<subseteq> blacks c1"
        using 2(2) [OF Some White rec [unfolded r] keys1] 2(7) nb by auto
      have d1: "d \<notin> blacks c1" using inner(1) by (intro gray_not_black) simp
      have "black_closed (dag_edges ts) (blacks (fmupd d Black c1))"
        using black_closed_insert [OF inner(3) _ d1] inner(4) by (auto simp: dag_edges_def)
      moreover have "fmdom' (fmupd d Black c1) = fmdom' ts"
        using dfs_deps_keys [of ts "deps_of ts d" "fmupd d Gray c"] keys1 rec d by auto
      moreover have "dfs_deps ts ds (fmupd d Black c1) = (None, c')"
        using 2(5) Some White rec r by simp
      ultimately have "grays c' = grays (fmupd d Black c1)" "blacks (fmupd d Black c1) \<subseteq> blacks c'"
          "black_closed (dag_edges ts) (blacks c')" "set ds \<inter> fmdom' ts \<subseteq> blacks c'"
        using 2(3) [OF Some White rec [symmetric] r] by auto
      then show ?thesis using inner nb by auto
    qed
  qed
qed

subsection \<open>A reported dependency lies on a cycle\<close>

lemma dfs_deps_Some:
  assumes "dfs_deps ts ds c = (Some z, c')" "fmdom' c = fmdom' ts" "set ds \<subseteq> set (deps_of ts n)"
    and "grays c \<subseteq> {g. (g, n) \<in> (dag_edges ts)\<^sup>*}" "black_closed (dag_edges ts) (blacks c)"
  shows "\<not> acyclic (dag_edges ts)"
  using assms
proof (induction ts ds c arbitrary: n z c' rule: dfs_deps.induct)
  case (1 ts c)
  then show ?case by simp
next
  case (2 ts d ds c)
  show ?case
  proof (cases "fmlookup c d")
    case None
    then show ?thesis using 2(1) [OF None, of z c' n] 2(5-9) by simp
  next
    case (Some col)
    then have d: "d \<in> fmdom' ts" using 2(6) fmdom'_lookup_Some by metis
    have edge: "(n, d) \<in> dag_edges ts" using d 2(7) by (auto simp: dag_edges_def)
    show ?thesis
    proof (cases col)
      case Gray
      then have "(d, n) \<in> (dag_edges ts)\<^sup>*" using Some 2(8) by (auto simp: grays_def)
      then have "(d, d) \<in> (dag_edges ts)\<^sup>+" using edge by (rule rtrancl_into_trancl1)
      then show ?thesis by (auto simp: acyclic_def)
    next
      case Black
      then show ?thesis using 2(4) [OF Some Black, of z c' n] 2(5-9) Some by simp
    next
      case White
      obtain r c1 where rec: "dfs_deps ts (deps_of ts d) (fmupd d Gray c) = (r, c1)"
        by (cases "dfs_deps ts (deps_of ts d) (fmupd d Gray c)")
      have nb: "d \<notin> blacks c" "d \<notin> grays c" using Some White by (auto simp: blacks_def grays_def)
      have keys1: "fmdom' (fmupd d Gray c) = fmdom' ts" using d 2(6) by auto
      have gr: "grays (fmupd d Gray c) \<subseteq> {g. (g, d) \<in> (dag_edges ts)\<^sup>*}"
        using 2(8) edge by (auto intro: rtrancl_into_rtrancl)
      have bl: "black_closed (dag_edges ts) (blacks (fmupd d Gray c))" using 2(9) nb by simp
      show ?thesis
      proof (cases r)
        case (Some x)
        then show ?thesis using 2(2) [OF \<open>fmlookup c d = Some col\<close> White, of x c1 d] rec keys1 gr bl by simp
      next
        case None
        note inner = dfs_deps_None [OF rec [unfolded None] keys1 bl]
        have d1: "d \<notin> blacks c1" using inner by (intro gray_not_black) simp
        have keys2: "fmdom' (fmupd d Black c1) = fmdom' ts"
          using dfs_deps_keys [of ts "deps_of ts d" "fmupd d Gray c"] keys1 rec d by auto
        have gr2: "grays (fmupd d Black c1) \<subseteq> {g. (g, n) \<in> (dag_edges ts)\<^sup>*}"
          using inner 2(8) nb by auto
        have bl2: "black_closed (dag_edges ts) (blacks (fmupd d Black c1))"
          using black_closed_insert [of "dag_edges ts" "blacks c1" d] inner d1
          by (auto simp: dag_edges_def)
        have "dfs_deps ts ds (fmupd d Black c1) = (Some z, c')"
          using 2(5) Some White rec None by simp
        then show ?thesis
          using 2(3) [OF Some White rec [symmetric] None, of z c' n] keys2 2(7) gr2 bl2 by simp
      qed
    qed
  qed
qed

subsection \<open>The search over all nodes\<close>

lemma dfs_None:
  assumes "dfs ts k c = (None, c')" "fmlookup c k = Some White" "fmdom' c = fmdom' ts"
    and "black_closed (dag_edges ts) (blacks c)"
  shows "fmdom' c' = fmdom' ts \<and> grays c' = grays c \<and> insert k (blacks c) \<subseteq> blacks c'
    \<and> black_closed (dag_edges ts) (blacks c')"
proof -
  from assms(1) obtain c1 where rec: "dfs_deps ts (deps_of ts k) (fmupd k Gray c) = (None, c1)"
    and c': "c' = fmupd k Black c1"
    by (auto simp: dfs_def split: prod.splits option.splits)
  have k: "k \<in> fmdom' ts" and nb: "k \<notin> blacks c" "k \<notin> grays c"
    using assms fmdom'_lookup_Some [of c k] by (auto simp: blacks_def grays_def)
  then have keys: "fmdom' (fmupd k Gray c) = fmdom' ts" using assms(3) by auto
  have bl: "black_closed (dag_edges ts) (blacks (fmupd k Gray c))" using assms(4) nb by simp
  note inner = dfs_deps_None [OF rec keys bl]
  have k1: "k \<notin> blacks c1" using inner by (intro gray_not_black) simp
  have "black_closed (dag_edges ts) (insert k (blacks c1))"
    using inner k1 by (intro black_closed_insert) (auto simp: dag_edges_def)
  moreover have "fmdom' c1 = fmdom' ts"
    using dfs_deps_keys [of ts "deps_of ts k" "fmupd k Gray c"] rec keys by simp
  ultimately show ?thesis using inner nb k by (auto simp: c')
qed

lemma dfs_Some:
  assumes "dfs ts k c = (Some z, c')" "fmlookup c k = Some White" "fmdom' c = fmdom' ts"
    and "black_closed (dag_edges ts) (blacks c)" "grays c = {}"
  shows "\<not> acyclic (dag_edges ts)"
proof -
  from assms(1) have rec: "dfs_deps ts (deps_of ts k) (fmupd k Gray c) = (Some z, c')"
    by (auto simp: dfs_def split: prod.splits option.splits)
  have k: "k \<in> fmdom' ts" and nb: "k \<notin> blacks c"
    using assms fmdom'_lookup_Some [of c k] by (auto simp: blacks_def)
  then have "fmdom' (fmupd k Gray c) = fmdom' ts" using assms(3) by auto
  then show ?thesis
    using dfs_deps_Some [OF rec, of k] assms(4,5) nb by simp
qed

lemma detect_cycle_from_correct:
  assumes "fmdom' c = fmdom' ts" "black_closed (dag_edges ts) (blacks c)" "grays c = {}"
    and "set ks \<subseteq> fmdom' ts" "fmdom' ts \<subseteq> set ks \<union> blacks c"
  shows "detect_cycle_from ts ks c = None \<longleftrightarrow> acyclic (dag_edges ts)"
  using assms
proof (induction ts ks c rule: detect_cycle_from.induct)
  case (1 ts c)
  then have all: "fmdom' ts \<subseteq> blacks c" by simp
  have "dag_edges ts \<subseteq> dag_edges ts \<inter> blacks c \<times> UNIV"
    using all by (auto dest: dag_edges_dom)
  then have "acyclic (dag_edges ts)"
    using 1 acyclic_subset unfolding black_closed_def by blast
  then show ?case by simp
next
  case (2 ts k ks c)
  show ?case
  proof (cases "fmlookup c k = Some White")
    case False
    have "k \<in> fmdom' c" using 2 by auto
    then obtain col where col: "fmlookup c k = Some col" by (auto simp: fmdom'_lookup)
    then have "k \<in> blacks c" using False 2(5) by (cases col) (auto simp: grays_def blacks_def)
    then show ?thesis using 2(2) [OF False 2(3-5)] 2(6,7) False by auto
  next
    case True
    obtain r c' where rec: "dfs ts k c = (r, c')" by (cases "dfs ts k c")
    show ?thesis
    proof (cases r)
      case None
      note post = dfs_None [OF rec [unfolded None] True 2(3,4)]
      then have "fmdom' ts \<subseteq> set ks \<union> blacks c'" using 2(7) by auto
      then show ?thesis using post 2(1) [OF True rec [symmetric] None] 2(5,6) True rec None by simp
    next
      case (Some z)
      then show ?thesis using dfs_Some [OF rec [unfolded Some] True 2(3-5)] True rec by simp
    qed
  qed
qed

lemma detect_cycle_None_iff:
  assumes "hash_order ord"
  shows "detect_cycle ord ts = None \<longleftrightarrow> acyclic (dag_edges ts)"
proof -
  have "blacks (fmmap (\<lambda>_. White) ts) = {}" "grays (fmmap (\<lambda>_. White) ts) = {}"
    by (auto simp: blacks_def grays_def)
  moreover have "fmdom' (fmmap (\<lambda>_. White) ts) = fmdom' ts" by (auto simp: fmdom'_lookup)
  ultimately show ?thesis
    unfolding detect_cycle_def using assms
    by (intro detect_cycle_from_correct) (auto simp: black_closed_def acyclic_def)
qed

end
