(* ===== verification/DagInvariant.thy ===== *)
theory DagInvariant
  imports DagCycle
begin

text \<open>
  The invariant of the DAG scheduler and its preservation by every operation: the maps agree
  on their keys, the dependency graph is closed and acyclic, the successor sets invert it, a
  task's in-degree bounds its incomplete dependencies, a ready, running or completed task has
  none, and the heap holds each ready task exactly once.
\<close>

subsection \<open>The invariant\<close>

definition incomplete :: "Inner \<Rightarrow> TaskId \<Rightarrow> TaskId set" where
  "incomplete s t = {d \<in> set (deps_of (dag_tasks s) t). fmlookup (dag_states s) d \<noteq> Some TaskCompleted}"

definition graph_ok :: "Inner \<Rightarrow> bool" where
  "graph_ok s \<longleftrightarrow>
     fmdom' (dag_states s) = fmdom' (dag_tasks s) \<and> fmdom' (dag_in_degree s) = fmdom' (dag_tasks s)
     \<and> fmdom' (dag_metadata s) = fmdom' (dag_tasks s)
     \<and> (\<forall>t task. fmlookup (dag_tasks s) t = Some task \<longrightarrow>
          td_task_id task = t \<and> set (td_dependencies task) \<subseteq> fmdom' (dag_tasks s))
     \<and> acyclic (dag_edges (dag_tasks s))
     \<and> (\<forall>d t. t \<in> successors_of s d \<longleftrightarrow> d \<in> set (deps_of (dag_tasks s) t))
     \<and> (\<forall>d. finite (successors_of s d))"

text \<open>
  While \<open>complete\<close> works through the successors of the finished task, those still to be
  decremented (the set \<open>S\<close>) have an in-degree that is one higher than it will be.
\<close>

definition degrees_ok :: "TaskId set \<Rightarrow> Inner \<Rightarrow> bool" where
  "degrees_ok S s \<longleftrightarrow>
     (\<forall>t deg. fmlookup (dag_in_degree s) t = Some deg \<longrightarrow>
        card (incomplete s t) + (if t \<in> S then 1 else 0) \<le> deg)
     \<and> (\<forall>t. fmlookup (dag_states s) t = Some Pending \<longrightarrow> fmlookup (dag_in_degree s) t \<noteq> Some 0)
     \<and> (\<forall>t. fmlookup (dag_states s) t \<in> {Some Ready, Some Running, Some TaskCompleted} \<longrightarrow>
          incomplete s t = {})"

definition entries_ok :: "(TaskId, TaskState) fmap \<Rightarrow> ReadyEntry list \<Rightarrow> bool" where
  "entries_ok st es \<longleftrightarrow>
     distinct (map re_task_id es)
     \<and> (\<forall>e \<in> set es. fmlookup st (re_task_id e) \<in> {Some Ready, Some TaskFailed, Some DependencyFailed})
     \<and> (\<forall>t. fmlookup st t = Some Ready \<longrightarrow> t \<in> re_task_id ` set es)"

definition dag_inv_during :: "TaskId set \<Rightarrow> Inner \<Rightarrow> bool" where
  "dag_inv_during S s \<longleftrightarrow> graph_ok s \<and> degrees_ok S s \<and> entries_ok (dag_states s) (dag_ready s)"

definition dag_inv :: "Inner \<Rightarrow> bool" where
  "dag_inv s \<longleftrightarrow> dag_inv_during {} s"

named_theorems dag_inv_defs

declare dag_inv_def [dag_inv_defs] dag_inv_during_def [dag_inv_defs] graph_ok_def [dag_inv_defs]
  degrees_ok_def [dag_inv_defs] entries_ok_def [dag_inv_defs]

lemma finite_incomplete [simp]: "finite (incomplete s t)"
  by (rule finite_subset [of _ "set (deps_of (dag_tasks s) t)"]) (auto simp: incomplete_def)

lemma deps_of_Some: "fmlookup ts t = Some task \<Longrightarrow> deps_of ts t = td_dependencies task"
  by (simp add: deps_of_def)

lemma deps_of_None: "fmlookup ts t = None \<Longrightarrow> deps_of ts t = []"
  by (simp add: deps_of_def)

lemma graph_ok_task:
  "graph_ok s \<Longrightarrow> fmlookup (dag_tasks s) t = Some task
   \<Longrightarrow> td_task_id task = t \<and> set (td_dependencies task) \<subseteq> fmdom' (dag_tasks s)"
  unfolding graph_ok_def by blast

lemma degrees_okD:
  "degrees_ok S s \<Longrightarrow> fmlookup (dag_in_degree s) t = Some deg
   \<Longrightarrow> card (incomplete s t) + (if t \<in> S then 1 else 0) \<le> deg"
  unfolding degrees_ok_def by blast

lemma degrees_ok_pending:
  "degrees_ok S s \<Longrightarrow> fmlookup (dag_states s) t = Some Pending \<Longrightarrow> fmlookup (dag_in_degree s) t \<noteq> Some 0"
  unfolding degrees_ok_def by blast

lemma degrees_ok_started:
  "degrees_ok S s \<Longrightarrow> fmlookup (dag_states s) t \<in> {Some Ready, Some Running, Some TaskCompleted}
   \<Longrightarrow> incomplete s t = {}"
  unfolding degrees_ok_def by blast

lemma degrees_ok_mono:
  assumes "degrees_ok T s" "\<And>u. u \<in> S \<Longrightarrow> u \<in> T \<or> fmlookup (dag_in_degree s) u = None"
  shows "degrees_ok S s"
  unfolding degrees_ok_def
proof (intro conjI allI impI)
  fix u deg assume u: "fmlookup (dag_in_degree s) u = Some deg"
  then have "card (incomplete s u) + (if u \<in> T then 1 else 0) \<le> deg"
    using assms(1) unfolding degrees_ok_def by blast
  then show "card (incomplete s u) + (if u \<in> S then 1 else 0) \<le> deg"
    using assms(2) [of u] u by (auto split: if_splits)
qed (use degrees_ok_pending [OF assms(1)] degrees_ok_started [OF assms(1)] in auto)

lemma degrees_ok_decrement:
  assumes d: "degrees_ok (insert x S) s" and x: "fmlookup (dag_in_degree s) x = Some deg" "x \<notin> S"
    and u: "fmlookup (fmupd x (deg - 1) (dag_in_degree s)) u = Some dg"
  shows "card (incomplete s u) + (if u \<in> S then 1 else 0) \<le> dg"
proof (cases "u = x")
  case True
  then show ?thesis using degrees_okD [OF d x(1)] x(2) u by auto
next
  case False
  then show ?thesis using degrees_okD [OF d, of u dg] u by simp
qed

lemma deps_in_dom: "graph_ok s \<Longrightarrow> d \<in> set (deps_of (dag_tasks s) t) \<Longrightarrow> t \<in> fmdom' (dag_tasks s) \<and> d \<in> fmdom' (dag_tasks s)"
proof (cases "fmlookup (dag_tasks s) t")
  case (Some task)
  assume "graph_ok s" "d \<in> set (deps_of (dag_tasks s) t)"
  then have "d \<in> fmdom' (dag_tasks s)" using graph_ok_task [OF _ Some] by (auto simp: deps_of_Some [OF Some])
  then show ?thesis using fmdom'_lookup_Some [OF Some] by simp
qed (simp add: deps_of_def)

lemma graph_ok_keys:
  "graph_ok s \<Longrightarrow> fmlookup (dag_states s) t = None \<longleftrightarrow> fmlookup (dag_tasks s) t = None"
  "graph_ok s \<Longrightarrow> fmlookup (dag_in_degree s) t = None \<longleftrightarrow> fmlookup (dag_tasks s) t = None"
  "graph_ok s \<Longrightarrow> fmlookup (dag_metadata s) t = None \<longleftrightarrow> fmlookup (dag_tasks s) t = None"
  using fmdom'_lookup [of t "dag_tasks s"] fmdom'_lookup [of t "dag_states s"]
    fmdom'_lookup [of t "dag_in_degree s"] fmdom'_lookup [of t "dag_metadata s"]
  by (auto simp: graph_ok_def)

lemma no_self_dependency: "graph_ok s \<Longrightarrow> t \<notin> set (deps_of (dag_tasks s) t)"
proof
  assume g: "graph_ok s" and t: "t \<in> set (deps_of (dag_tasks s) t)"
  then have "(t, t) \<in> dag_edges (dag_tasks s)" using deps_in_dom [OF g t] by (simp add: dag_edges_def)
  then show False using g by (auto simp: graph_ok_def acyclic_def)
qed

subsection \<open>Initial states\<close>

lemma dag_inv_init: "dag_inv ((inner_new_with_policies f p)\<lparr>dag_resource_pool := r\<rparr>)"
  by (simp add: dag_inv_defs inner_new_with_policies_def successors_of_def deps_of_def dag_edges_def
      incomplete_def acyclic_def)

subsection \<open>Complete\<close>

text \<open>The fields that the graph part reads are not touched by the resource accounting.\<close>

lemma release_running_frame [simp]:
  "dag_tasks (release_running t s) = dag_tasks s"
  "dag_states (release_running t s) = dag_states s"
  "dag_successors (release_running t s) = dag_successors s"
  "dag_in_degree (release_running t s) = dag_in_degree s"
  "dag_ready (release_running t s) = dag_ready s"
  "dag_metadata (release_running t s) = dag_metadata s"
  by (simp_all add: release_running_def split: option.split)

lemma dag_inv_during_cong:
  "dag_tasks s' = dag_tasks s \<Longrightarrow> dag_states s' = dag_states s \<Longrightarrow> dag_successors s' = dag_successors s
   \<Longrightarrow> dag_in_degree s' = dag_in_degree s \<Longrightarrow> dag_ready s' = dag_ready s
   \<Longrightarrow> fmdom' (dag_metadata s') = fmdom' (dag_metadata s)
   \<Longrightarrow> dag_inv_during S s' = dag_inv_during S s"
  by (simp add: dag_inv_defs successors_of_def incomplete_def)

lemma mark_completed_inv:
  assumes inv: "dag_inv s" and run: "fmlookup (dag_states s) t = Some Running"
  shows "dag_inv_during (successors_of s t) (s\<lparr>dag_states := fmupd t TaskCompleted (dag_states s)\<rparr>)"
proof -
  let ?s = "s\<lparr>dag_states := fmupd t TaskCompleted (dag_states s)\<rparr>"
  have g: "graph_ok s" and d: "degrees_ok {} s" and e: "entries_ok (dag_states s) (dag_ready s)"
    using inv by (auto simp: dag_inv_def dag_inv_during_def)
  have t: "t \<in> fmdom' (dag_states s)" using run by (rule fmdom'_lookup_Some)
  have g': "graph_ok ?s" using g t by (auto simp: graph_ok_def successors_of_def)
  have succ: "u \<in> successors_of s t \<longleftrightarrow> t \<in> set (deps_of (dag_tasks s) u)" for u
    using g by (simp add: graph_ok_def)
  have inc: "incomplete ?s u = incomplete s u - {t}" for u by (auto simp: incomplete_def)
  have inc_t: "t \<in> incomplete s u \<longleftrightarrow> u \<in> successors_of s t" for u
    using run by (simp add: incomplete_def succ)
  have card: "card (incomplete ?s u) + (if u \<in> successors_of s t then 1 else 0) = card (incomplete s u)" for u
  proof (cases "u \<in> successors_of s t")
    case True
    then show ?thesis using inc_t [of u] card_Suc_Diff1 [OF finite_incomplete] by (simp add: inc)
  next
    case False
    then show ?thesis using inc_t [of u] by (simp add: inc)
  qed
  have t0: "incomplete s t = {}" using d run by (simp add: degrees_ok_def)
  have "degrees_ok (successors_of s t) ?s"
    unfolding degrees_ok_def card using d t0 by (auto simp: degrees_ok_def inc)
  moreover have "entries_ok (dag_states ?s) (dag_ready ?s)"
    using e run by (auto simp: entries_ok_def)
  ultimately show ?thesis using g' by (simp add: dag_inv_during_def)
qed

lemma make_ready_eq:
  "fmlookup (dag_tasks s) t = Some task \<Longrightarrow> make_ready now t s =
     s\<lparr>dag_states := fmupd t Ready (dag_states s),
       dag_metadata := fmupd t (metadata_new now (td_priority task)) (dag_metadata s),
       dag_ready := dag_ready s @ [ready_entry (td_priority task) t]\<rparr>"
  by (simp add: make_ready_def heap_push_def)

lemma make_ready_inv:
  assumes inv: "dag_inv_during S s" and t: "fmlookup (dag_tasks s) t = Some task"
    and st: "fmlookup (dag_states s) t \<in> {Some Pending, Some Running}" and inc: "incomplete s t = {}"
  shows "dag_inv_during S (make_ready now t s)"
proof -
  let ?s = "make_ready now t s"
  have g: "graph_ok s" and d: "degrees_ok S s" and e: "entries_ok (dag_states s) (dag_ready s)"
    using inv by (auto simp: dag_inv_during_def)
  have tt: "t \<in> fmdom' (dag_tasks s)" using t by (rule fmdom'_lookup_Some)
  have "graph_ok ?s" using g tt unfolding make_ready_eq [OF t] by (auto simp: graph_ok_def successors_of_def)
  moreover have inc': "incomplete ?s u = incomplete s u" for u
    using st unfolding make_ready_eq [OF t] by (auto simp: incomplete_def)
  have "degrees_ok S ?s" using d inc unfolding degrees_ok_def inc'
    unfolding make_ready_eq [OF t] by auto
  moreover have "entries_ok (dag_states ?s) (dag_ready ?s)"
    using e st unfolding make_ready_eq [OF t] by (auto simp: entries_ok_def ready_entry_def)
  ultimately show ?thesis by (simp add: dag_inv_during_def)
qed

lemma unblock_inv:
  assumes inv: "dag_inv_during (insert x S) s" and x: "x \<notin> S"
  shows "dag_inv_during S (unblock now x s)"
proof (cases "fmlookup (dag_in_degree s) x")
  case None
  have "degrees_ok S s" using inv
    by (auto simp: dag_inv_during_def None intro: degrees_ok_mono [of "insert x S"])
  then show ?thesis using inv None by (simp add: unblock_def dag_inv_during_def)
next
  case (Some deg)
  let ?s = "s\<lparr>dag_in_degree := fmupd x (deg - 1) (dag_in_degree s)\<rparr>"
  have g: "graph_ok s" and d: "degrees_ok (insert x S) s" and e: "entries_ok (dag_states s) (dag_ready s)"
    using inv by (auto simp: dag_inv_during_def)
  have le: "card (incomplete s x) + 1 \<le> deg" using degrees_okD [OF d Some] by simp
  have xd: "x \<in> fmdom' (dag_in_degree s)" using Some by (rule fmdom'_lookup_Some)
  have g': "graph_ok ?s" using g xd by (auto simp: graph_ok_def successors_of_def)
  have inc: "incomplete ?s u = incomplete s u" for u by (simp add: incomplete_def)
  show ?thesis
  proof (cases "deg - 1 = 0 \<and> fmlookup (dag_states s) x = Some Pending")
    case True
    have "card (incomplete s x) = 0" using le True by linarith
    then have x0: "incomplete s x = {}" by simp
    obtain task where task: "fmlookup (dag_tasks s) x = Some task"
      using graph_ok_keys(2) [OF g, of x] Some by (cases "fmlookup (dag_tasks s) x") auto
    have task': "fmlookup (dag_tasks ?s) x = Some task" using task by simp
    have tt: "x \<in> fmdom' (dag_tasks s)" using task by (rule fmdom'_lookup_Some)
    let ?r = "make_ready now x ?s"
    have "graph_ok ?r" using g' tt unfolding make_ready_eq [OF task'] by (auto simp: graph_ok_def successors_of_def)
    moreover have incr: "incomplete ?r u = incomplete s u" for u
      using True unfolding make_ready_eq [OF task'] by (auto simp: incomplete_def)
    have "degrees_ok S ?r" unfolding degrees_ok_def incr unfolding make_ready_eq [OF task']
    proof (intro conjI allI impI, goal_cases)
      case (1 u dg)
      then show ?case using degrees_ok_decrement [OF d Some x, of u dg] by simp
    next
      case (2 u)
      then show ?case using degrees_ok_pending [OF d, of u] by (simp split: if_splits)
    next
      case (3 u)
      then show ?case using degrees_ok_started [OF d, of u] x0 by (cases "u = x") simp_all
    qed
    moreover have "entries_ok (dag_states ?r) (dag_ready ?r)"
      using e True unfolding make_ready_eq [OF task'] by (auto simp: entries_ok_def ready_entry_def)
    ultimately show ?thesis using True Some by (simp add: unblock_def dag_inv_during_def)
  next
    case False
    have "degrees_ok S ?s" unfolding degrees_ok_def inc
    proof (intro conjI allI impI)
      fix u dg assume "fmlookup (dag_in_degree ?s) u = Some dg"
      then show "card (incomplete s u) + (if u \<in> S then 1 else 0) \<le> dg"
        using degrees_ok_decrement [OF d Some x, of u dg] by simp
    qed (use degrees_ok_pending [OF d] degrees_ok_started [OF d] False in \<open>auto split: if_splits\<close>)
    then show ?thesis using False Some g' e by (auto simp: unblock_def dag_inv_during_def Let_def)
  qed
qed

lemma fold_unblock_inv:
  "distinct xs \<Longrightarrow> dag_inv_during (set xs) s \<Longrightarrow> dag_inv_during {} (fold (unblock now) xs s)"
  by (induction xs arbitrary: s) (simp_all add: unblock_inv)

lemma inner_complete_inv:
  assumes inv: "dag_inv s" and ord: "hash_order ord"
  shows "dag_inv (snd (inner_complete ord now t s))"
proof (cases "fmlookup (dag_states s) t = Some Running")
  case True
  let ?s = "release_running t (s\<lparr>dag_states := fmupd t TaskCompleted (dag_states s)\<rparr>)"
  have fin: "finite (successors_of s t)" using inv by (simp add: dag_inv_defs)
  have succ: "successors_of ?s t = successors_of s t" by (simp add: successors_of_def)
  have "dag_inv_during (successors_of s t) ?s
      = dag_inv_during (successors_of s t) (s\<lparr>dag_states := fmupd t TaskCompleted (dag_states s)\<rparr>)"
    by (rule dag_inv_during_cong) simp_all
  then have "dag_inv_during (successors_of s t) ?s" using mark_completed_inv [OF inv True] by simp
  then show ?thesis
    using fold_unblock_inv [of "ord (successors_of s t)" ?s now] ord fin True succ
    by (simp add: inner_complete_def dag_inv_def Let_def)
next
  case False
  then show ?thesis using inv by (auto simp: inner_complete_def split: option.split)
qed

subsection \<open>Fail\<close>

declare cascade.simps(2) [simp del]

text \<open>What \<open>fail\<close> may do to the states: some unfinished tasks become failed, the rest stay.\<close>

definition only_fails :: "(TaskId, TaskState) fmap \<Rightarrow> (TaskId, TaskState) fmap \<Rightarrow> bool" where
  "only_fails st st' \<longleftrightarrow> (\<forall>x. fmlookup st' x = fmlookup st x
     \<or> fmlookup st x \<in> {Some Pending, Some Ready, Some Running}
       \<and> fmlookup st' x \<in> {Some TaskFailed, Some DependencyFailed})"

lemma only_failsD:
  "only_fails st st' \<Longrightarrow> fmlookup st' x = fmlookup st x
     \<or> fmlookup st x \<in> {Some Pending, Some Ready, Some Running}
       \<and> fmlookup st' x \<in> {Some TaskFailed, Some DependencyFailed}"
  by (simp add: only_fails_def)

lemma only_fails_refl: "only_fails st st"
  by (simp add: only_fails_def)

lemma only_fails_trans: "only_fails a b \<Longrightarrow> only_fails b c \<Longrightarrow> only_fails a c"
  unfolding only_fails_def by (metis TaskState.distinct option.inject insertE insertI1 insertI2 singletonD)

lemma only_fails_upd:
  "fmlookup st x \<in> {Some Pending, Some Ready, Some Running} \<Longrightarrow> r \<in> {TaskFailed, DependencyFailed}
   \<Longrightarrow> only_fails st (fmupd x r st)"
  by (auto simp: only_fails_def)

lemma cascade_fold_only_fails: "fold cascade_one xs (q, st) = (q', st') \<Longrightarrow> only_fails st st'"
proof (induction xs arbitrary: q st)
  case (Cons x xs)
  obtain q1 st1 where one: "cascade_one x (q, st) = (q1, st1)" by (cases "cascade_one x (q, st)")
  then have "only_fails st st1"
    by (auto simp: only_fails_refl split: if_splits intro!: only_fails_upd)
  then show ?case using Cons one only_fails_trans by (metis fold_simps(2))
qed (simp add: only_fails_refl)

lemma cascade_only_fails: "only_fails st (cascade ord succs q st)"
proof (induction ord succs q st rule: cascade.induct)
  case (2 ord succs current q st)
  then show ?case
    using cascade_fold_only_fails only_fails_trans
    by (fastforce simp: cascade.simps(2) split: option.split prod.split)
qed (simp add: only_fails_refl)

lemma only_fails_inv:
  assumes inv: "dag_inv s" and of: "only_fails (dag_states s) st'"
  shows "dag_inv (s\<lparr>dag_states := st'\<rparr>)"
proof -
  have g: "graph_ok s" and d: "degrees_ok {} s" and e: "entries_ok (dag_states s) (dag_ready s)"
    using inv by (auto simp: dag_inv_def dag_inv_during_def)
  have dom: "fmdom' st' = fmdom' (dag_states s)"
  proof (rule set_eqI)
    fix x show "x \<in> fmdom' st' \<longleftrightarrow> x \<in> fmdom' (dag_states s)"
      using only_failsD [OF of, of x] unfolding fmdom'_lookup by (elim disjE) auto
  qed
  have "graph_ok (s\<lparr>dag_states := st'\<rparr>)" using g dom by (simp add: graph_ok_def successors_of_def)
  moreover have inc: "incomplete (s\<lparr>dag_states := st'\<rparr>) u = incomplete s u" for u
  proof (rule set_eqI)
    fix x show "x \<in> incomplete (s\<lparr>dag_states := st'\<rparr>) u \<longleftrightarrow> x \<in> incomplete s u"
      using only_failsD [OF of, of x] by (auto simp: incomplete_def)
  qed
  have keep: "fmlookup st' u = Some r \<Longrightarrow> r \<notin> {TaskFailed, DependencyFailed} \<Longrightarrow> fmlookup (dag_states s) u = Some r" for u r
    using only_failsD [OF of, of u] by auto
  have "degrees_ok {} (s\<lparr>dag_states := st'\<rparr>)"
    unfolding degrees_ok_def inc using d keep by (auto simp: degrees_ok_def)
  moreover have "entries_ok st' (dag_ready s)"
    unfolding entries_ok_def
  proof (intro conjI ballI allI impI)
    fix x assume "x \<in> set (dag_ready s)"
    then have "fmlookup (dag_states s) (re_task_id x) \<in> {Some Ready, Some TaskFailed, Some DependencyFailed}"
      using e by (simp add: entries_ok_def)
    then show "fmlookup st' (re_task_id x) \<in> {Some Ready, Some TaskFailed, Some DependencyFailed}"
      using only_failsD [OF of, of "re_task_id x"] by auto
  qed (use e keep in \<open>auto simp: entries_ok_def\<close>)
  ultimately show ?thesis by (simp add: dag_inv_def dag_inv_during_def)
qed

lemma dag_inv_cong:
  "dag_tasks s' = dag_tasks s \<Longrightarrow> dag_states s' = dag_states s \<Longrightarrow> dag_successors s' = dag_successors s
   \<Longrightarrow> dag_in_degree s' = dag_in_degree s \<Longrightarrow> dag_ready s' = dag_ready s
   \<Longrightarrow> fmdom' (dag_metadata s') = fmdom' (dag_metadata s) \<Longrightarrow> dag_inv s' = dag_inv s"
  unfolding dag_inv_def by (rule dag_inv_during_cong)

text \<open>The state after a failed task, up to the fields the invariant does not read.\<close>

lemma inner_fail_ok:
  assumes "fmlookup (dag_states s) t \<in> {Some Pending, Some Ready, Some Running}"
  shows "fst (inner_fail ord t s) = Ok ()"
    and "dag_states (snd (inner_fail ord t s))
      = cascade ord (dag_successors s) [t] (fmupd t TaskFailed (dag_states s))"
    and "dag_tasks (snd (inner_fail ord t s)) = dag_tasks s"
    and "dag_successors (snd (inner_fail ord t s)) = dag_successors s"
    and "dag_in_degree (snd (inner_fail ord t s)) = dag_in_degree s"
    and "dag_ready (snd (inner_fail ord t s)) = dag_ready s"
    and "dag_metadata (snd (inner_fail ord t s)) = dag_metadata s"
  using assms by (auto simp: inner_fail_def Let_def)

lemma inner_fail_error:
  "fmlookup (dag_states s) t \<notin> {Some Pending, Some Ready, Some Running} \<Longrightarrow>
   snd (inner_fail ord t s) = s \<and> \<not> is_ok (fst (inner_fail ord t s))"
  by (auto simp: inner_fail_def Let_def split: option.split)

lemma inner_fail_inv:
  assumes inv: "dag_inv s"
  shows "dag_inv (snd (inner_fail ord t s))"
proof (cases "fmlookup (dag_states s) t \<in> {Some Pending, Some Ready, Some Running}")
  case True
  let ?st = "cascade ord (dag_successors s) [t] (fmupd t TaskFailed (dag_states s))"
  have "only_fails (dag_states s) ?st"
    by (rule only_fails_trans [OF only_fails_upd [OF True] cascade_only_fails]) simp
  then have "dag_inv (s\<lparr>dag_states := ?st\<rparr>)" by (rule only_fails_inv [OF inv])
  also have "dag_inv (s\<lparr>dag_states := ?st\<rparr>) = dag_inv (snd (inner_fail ord t s))"
    using inner_fail_ok [OF True, of ord] by (intro dag_inv_cong) simp_all
  finally show ?thesis .
qed (use inv inner_fail_error in auto)

subsection \<open>Requeue\<close>

lemma deps_of_attempt:
  "fmlookup ts t = Some task \<Longrightarrow> deps_of (fmupd t (task\<lparr>td_attempt := a\<rparr>) ts) = deps_of ts"
  by (rule ext) (auto simp: deps_of_def)

lemma attempt_inv:
  assumes inv: "dag_inv s" and t: "fmlookup (dag_tasks s) t = Some task"
  shows "dag_inv (s\<lparr>dag_tasks := fmupd t (task\<lparr>td_attempt := a\<rparr>) (dag_tasks s)\<rparr>)" (is "dag_inv ?s")
proof -
  have g: "graph_ok s" using inv by (auto simp: dag_inv_def dag_inv_during_def)
  have dom: "fmdom' (dag_tasks ?s) = fmdom' (dag_tasks s)" using t fmdom'_lookup_Some by fastforce
  have dp: "deps_of (dag_tasks ?s) = deps_of (dag_tasks s)" using t by (simp add: deps_of_attempt)
  have edges: "dag_edges (dag_tasks ?s) = dag_edges (dag_tasks s)"
    unfolding dag_edges_def dom dp ..
  have tk: "td_task_id task' = u \<and> set (td_dependencies task') \<subseteq> fmdom' (dag_tasks s)"
    if "fmlookup (dag_tasks ?s) u = Some task'" for u task'
    using that graph_ok_task [OF g t] graph_ok_task [OF g, of u task'] by (cases "u = t") auto
  have "graph_ok ?s" unfolding graph_ok_def edges dom dp
  proof (intro conjI allI impI)
    show "td_task_id task' = u" "set (td_dependencies task') \<subseteq> fmdom' (dag_tasks s)"
      if "fmlookup (dag_tasks ?s) u = Some task'" for u task'
      using tk [OF that] by simp_all
  qed (use g in \<open>simp_all add: graph_ok_def successors_of_def\<close>)
  moreover have "incomplete ?s u = incomplete s u" for u unfolding incomplete_def dp by simp
  ultimately show ?thesis using inv
    by (simp add: dag_inv_def dag_inv_during_def degrees_ok_def)
qed

definition set_attempt :: "TaskId \<Rightarrow> u32 \<Rightarrow> Inner \<Rightarrow> Inner" where
  "set_attempt t a s = (case fmlookup (dag_tasks s) t of None \<Rightarrow> s
     | Some task \<Rightarrow> s\<lparr>dag_tasks := fmupd t (task\<lparr>td_attempt := a\<rparr>) (dag_tasks s)\<rparr>)"

lemma set_attempt_frame [simp]:
  "dag_states (set_attempt t a s) = dag_states s"
  "dag_ready (set_attempt t a s) = dag_ready s"
  by (simp_all add: set_attempt_def split: option.split)

lemma set_attempt_inv: "dag_inv s \<Longrightarrow> dag_inv (set_attempt t a s)"
  by (auto simp: set_attempt_def intro: attempt_inv split: option.split)

lemma inner_requeue_running:
  assumes "dag_inv s" "fmlookup (dag_states s) t = Some Running"
  shows "inner_requeue now t a s = (Ok (), make_ready now t (set_attempt t a s))"
proof -
  have "graph_ok s" using assms by (simp add: dag_inv_def dag_inv_during_def)
  then obtain task where "fmlookup (dag_tasks s) t = Some task"
    using assms graph_ok_keys(1) [of s t] by (cases "fmlookup (dag_tasks s) t") auto
  then show ?thesis using assms
    by (simp add: inner_requeue_def set_attempt_def make_ready_def Let_def)
qed

lemma inner_requeue_other:
  "fmlookup (dag_states s) t \<noteq> Some Running \<Longrightarrow> inner_requeue now t a s = (Ok (), set_attempt t a s)"
  by (simp add: inner_requeue_def set_attempt_def Let_def split: option.split)

lemma inner_requeue_inv:
  assumes inv: "dag_inv s"
  shows "dag_inv (snd (inner_requeue now t a s))"
proof (cases "fmlookup (dag_states s) t = Some Running")
  case True
  let ?s = "set_attempt t a s"
  have inv': "dag_inv_during {} ?s" using set_attempt_inv [OF inv] by (simp add: dag_inv_def)
  then have g: "graph_ok ?s" and d: "degrees_ok {} ?s" by (auto simp: dag_inv_during_def)
  obtain task where "fmlookup (dag_tasks ?s) t = Some task"
    using True graph_ok_keys(1) [OF g, of t] by (cases "fmlookup (dag_tasks ?s) t") auto
  moreover have "incomplete ?s t = {}" using degrees_ok_started [OF d] True by simp
  ultimately have "dag_inv_during {} (make_ready now t ?s)"
    using make_ready_inv [OF inv'] True by simp
  then show ?thesis by (simp add: inner_requeue_running [OF inv True] dag_inv_def)
qed (use set_attempt_inv [OF inv] in \<open>simp add: inner_requeue_other\<close>)

end
