(* ===== verification/DagSafety.thy ===== *)
theory DagSafety
  imports DagInvariant
begin

text \<open>
  The remaining two operations of the DAG scheduler, \<open>dequeue\<close> and \<open>enqueue\<close>, preserve the
  invariant of the theory \<open>DagInvariant\<close>; with it every reachable state has the invariant. The
  properties of the scheduler that clients rely on follow.
\<close>

subsection \<open>Dequeue\<close>

lemma entries_ok_cong:
  assumes "mset (map re_task_id es) = mset (map re_task_id es')"
  shows "entries_ok st es = entries_ok st es'"
proof -
  have ids: "re_task_id ` set es = re_task_id ` set es'"
    using mset_eq_setD [OF assms] by simp
  have st: "(\<forall>e \<in> set es. P (re_task_id e)) = (\<forall>e \<in> set es'. P (re_task_id e))" for P
  proof -
    have "(\<forall>e \<in> set es. P (re_task_id e)) = (\<forall>i \<in> re_task_id ` set es. P i)" by blast
    also have "\<dots> = (\<forall>e \<in> set es'. P (re_task_id e))" unfolding ids by blast
    finally show ?thesis .
  qed
  show ?thesis
    unfolding entries_ok_def ids mset_eq_imp_distinct_iff [OF assms] st
      [of "\<lambda>i. fmlookup st i \<in> {Some Ready, Some TaskFailed, Some DependencyFailed}"] ..
qed

lemma entries_ok_drop:
  "entries_ok st (e # es) \<Longrightarrow> fmlookup st (re_task_id e) \<noteq> Some Ready \<Longrightarrow> entries_ok st es"
  by (auto simp: entries_ok_def)

lemma entries_ok_start: "entries_ok st (e # es) \<Longrightarrow> entries_ok (fmupd (re_task_id e) Running st) es"
  by (auto simp: entries_ok_def)

lemma fold_heap_push: "fold heap_push xs h = h @ xs"
  by (induction xs arbitrary: h) (simp_all add: heap_push_def)

lemma graph_ok_ready [simp]: "graph_ok (s\<lparr>dag_ready := es\<rparr>) = graph_ok s"
  by (simp add: graph_ok_def successors_of_def)

lemma degrees_ok_ready [simp]: "degrees_ok S (s\<lparr>dag_ready := es\<rparr>) = degrees_ok S s"
  by (simp add: degrees_ok_def incomplete_def)

lemma dag_inv_ready_iff:
  "dag_inv (s\<lparr>dag_ready := es\<rparr>) \<longleftrightarrow> graph_ok s \<and> degrees_ok {} s \<and> entries_ok (dag_states s) es"
  by (simp add: dag_inv_def dag_inv_during_def)

lemma start_task_frame [simp]:
  "dag_tasks (start_task e task s) = dag_tasks s"
  "dag_states (start_task e task s) = fmupd (re_task_id e) Running (dag_states s)"
  "dag_successors (start_task e task s) = dag_successors s"
  "dag_in_degree (start_task e task s) = dag_in_degree s"
  "fmdom' (dag_metadata (start_task e task s)) = fmdom' (dag_metadata s)"
  by (auto simp: start_task_def Let_def fmdom'_lookup_Some split: option.split)

lemma start_task_inv:
  assumes inv: "dag_inv (s\<lparr>dag_ready := e # es\<rparr>)" and r: "fmlookup (dag_states s) (re_task_id e) = Some Ready"
  shows "dag_inv ((start_task e task s)\<lparr>dag_ready := es\<rparr>)"
proof -
  let ?t = "re_task_id e" and ?s = "start_task e task s"
  have g: "graph_ok s" and d: "degrees_ok {} s" and en: "entries_ok (dag_states s) (e # es)"
    using inv by (simp_all add: dag_inv_ready_iff)
  have td: "?t \<in> fmdom' (dag_states s)" using r by (rule fmdom'_lookup_Some)
  have succ: "successors_of ?s d = successors_of s d" for d by (simp add: successors_of_def)
  have g': "graph_ok ?s" using g td by (auto simp: graph_ok_def succ)
  have inc: "incomplete ?s u = incomplete s u" for u using r by (auto simp: incomplete_def)
  have "degrees_ok {} ?s" unfolding degrees_ok_def inc start_task_frame
  proof (intro conjI allI impI, goal_cases)
    case (1 u dg)
    then show ?case using degrees_okD [OF d] by simp
  next
    case (2 u)
    then show ?case using degrees_ok_pending [OF d, of u] by (simp split: if_splits)
  next
    case (3 u)
    then show ?case using degrees_ok_started [OF d, of u] r by (cases "u = ?t") simp_all
  qed
  then show ?thesis using g' entries_ok_start [OF en] by (simp add: dag_inv_ready_iff)
qed

lemma pop_loop_inv:
  "dag_inv (s\<lparr>dag_ready := h @ skipped\<rparr>) \<Longrightarrow> dag_inv (snd (pop_loop s h skipped))"
proof (induction s h skipped rule: pop_loop.induct)
  case (1 s h skipped)
  show ?case
  proof (cases "heap_pop h")
    case None
    then have "snd (pop_loop s h skipped) = s\<lparr>dag_ready := skipped\<rparr>"
      by (subst pop_loop.simps) (simp add: fold_heap_push)
    then show ?thesis using 1(4) None by simp
  next
    case (Some p)
    obtain e h' where p: "heap_pop h = Some (e, h')" using Some by (cases p) auto
    have "mset h = mset (e # h')" using heap_pop_Some [OF p] by simp
    then have eq: "entries_ok st (h @ skipped) = entries_ok st (e # h' @ skipped)" for st
      by (intro entries_ok_cong) simp
    have inv: "dag_inv (s\<lparr>dag_ready := e # h' @ skipped\<rparr>)" using 1(4) eq by (simp add: dag_inv_ready_iff)
    show ?thesis
    proof (cases "fmlookup (dag_states s) (re_task_id e) = Some Ready")
      case True
      have "graph_ok s" using inv by (simp add: dag_inv_ready_iff)
      then obtain task where task: "fmlookup (dag_tasks s) (re_task_id e) = Some task"
        using graph_ok_keys(1) [of s "re_task_id e"] True by (cases "fmlookup (dag_tasks s) (re_task_id e)") auto
      show ?thesis
      proof (cases "fits s task")
        case True': True
        then have "snd (pop_loop s h skipped) = (start_task e task s)\<lparr>dag_ready := h' @ skipped\<rparr>"
          using p True task by (subst pop_loop.simps) (simp add: fold_heap_push)
        then show ?thesis using start_task_inv [OF inv True, of task] by (simp only:)
      next
        case False
        have "entries_ok (dag_states s) (e # h' @ skipped) = entries_ok (dag_states s) (h' @ (skipped @ [e]))"
          by (rule entries_ok_cong) simp
        then have "dag_inv (s\<lparr>dag_ready := h' @ (skipped @ [e])\<rparr>)"
          using inv by (simp only: dag_inv_ready_iff)
        moreover have "pop_loop s h skipped = pop_loop s h' (skipped @ [e])"
          using False p True task by (subst pop_loop.simps) simp
        ultimately show ?thesis using 1(2) [OF p refl True task False] by (simp only:)
      qed
    next
      case False
      then have "dag_inv (s\<lparr>dag_ready := h' @ skipped\<rparr>)"
        using inv entries_ok_drop by (auto simp: dag_inv_ready_iff)
      moreover have "pop_loop s h skipped = pop_loop s h' skipped"
        using False p by (subst pop_loop.simps) simp
      ultimately show ?thesis using 1(3) [OF p refl False] by (simp only:)
    qed
  qed
qed

lemma age_entries_keys:
  "age_entries now fp sp es md = (es', md', a, d) \<Longrightarrow>
   map re_task_id es' = map re_task_id es \<and> fmdom' md' = fmdom' md"
proof (induction es arbitrary: es' md md' a d)
  case (Cons e es)
  show ?case
  proof (cases "fmlookup md (re_task_id e)")
    case None
    obtain es1 md1 a1 d1 where rec: "age_entries now fp sp es md = (es1, md1, a1, d1)"
      using prod_cases4 by blast
    then show ?thesis using Cons.prems None Cons.IH [OF rec] by auto
  next
    case (Some m)
    obtain m2 dl where dl: "enforce_deadline now sp (apply_aging now fp m) = (m2, dl)"
      using prod.exhaust by blast
    obtain es1 md1 a1 d1 where rec: "age_entries now fp sp es (fmupd (re_task_id e) m2 md) = (es1, md1, a1, d1)"
      using prod_cases4 by blast
    then show ?thesis using Cons.prems Some Cons.IH [OF rec] fmdom'_lookup_Some [OF Some]
      by (auto simp: Let_def dl)
  qed
qed simp

lemma age_ready_inv: assumes "dag_inv s" shows "dag_inv (age_ready now s)"
proof -
  obtain es md a d where e: "age_entries now (dag_fairness_policy s) (dag_starvation_policy s) (dag_ready s)
      (dag_metadata s) = (es, md, a, d)"
    using prod_cases4 by blast
  have "dag_inv (age_ready now s) = dag_inv (s\<lparr>dag_ready := es\<rparr>)"
    using age_entries_keys [OF e] by (intro dag_inv_cong) (simp_all add: age_ready_def e)
  moreover have "entries_ok (dag_states s) es = entries_ok (dag_states s) (dag_ready s)"
    using age_entries_keys [OF e] by (intro entries_ok_cong) simp
  ultimately show ?thesis using assms by (simp add: dag_inv_def dag_inv_during_def)
qed

lemma inner_dequeue_inv: "dag_inv s \<Longrightarrow> dag_inv (snd (inner_dequeue now s))"
  using pop_loop_inv [where s = "age_ready now s" and h = "dag_ready (age_ready now s)" and skipped = "[]"] age_ready_inv [of s now]
  by (auto simp: inner_dequeue_def Let_def split: prod.split)

subsection \<open>Enqueue\<close>

definition succ_set :: "(TaskId, TaskId set) fmap \<Rightarrow> TaskId \<Rightarrow> TaskId set" where
  "succ_set m d = (case fmlookup m d of None \<Rightarrow> {} | Some S \<Rightarrow> S)"

lemma successors_of_succ_set: "successors_of s d = succ_set (dag_successors s) d"
  by (simp add: successors_of_def succ_set_def)

lemma succ_set_add:
  "succ_set (fold (add_successor t) ds m) d = succ_set m d \<union> (if d \<in> set ds then {t} else {})"
proof (induction ds arbitrary: m)
  case (Cons x ds)
  have "succ_set (add_successor t x m) d = succ_set m d \<union> (if d = x then {t} else {})"
    by (simp add: add_successor_def succ_set_def)
  then show ?case by (simp add: Cons.IH)
qed simp

lemma succ_set_remove:
  "succ_set (fold (remove_successor t) ds m) d = succ_set m d - (if d \<in> set ds then {t} else {})"
proof (induction ds arbitrary: m)
  case (Cons x ds)
  have "succ_set (remove_successor t x m) d = succ_set m d - (if d = x then {t} else {})"
    by (simp add: remove_successor_def succ_set_def split: option.split)
  then show ?case by (simp add: Cons.IH)
qed simp

text \<open>What a rejected \<open>enqueue\<close> leaves: the old state, up to empty successor sets.\<close>

lemma fresh_not_successor:
  "graph_ok s \<Longrightarrow> fmlookup (dag_tasks s) t = None \<Longrightarrow> t \<notin> succ_set (dag_successors s) d"
  by (auto simp: graph_ok_def successors_of_succ_set deps_of_None)

lemma fmdrop_fresh: "fmlookup m k = None \<Longrightarrow> fmdrop k (fmupd k v m) = m"
  by (rule fmap_ext) simp

lemma successors_restored:
  assumes "graph_ok s" "fmlookup (dag_tasks s) t = None"
  shows "succ_set (fold (remove_successor t) ds (fold (add_successor t) ds (dag_successors s))) d
    = succ_set (dag_successors s) d"
  using fresh_not_successor [OF assms] by (auto simp: succ_set_remove succ_set_add)

lemma dag_inv_successors_cong:
  assumes "dag_inv s" "\<And>d. succ_set m d = succ_set (dag_successors s) d"
  shows "dag_inv (s\<lparr>dag_successors := m\<rparr>)"
proof -
  have "successors_of (s\<lparr>dag_successors := m\<rparr>) = successors_of s"
    using assms(2) by (intro ext) (simp add: successors_of_succ_set)
  then have "graph_ok (s\<lparr>dag_successors := m\<rparr>) = graph_ok s" by (simp add: graph_ok_def)
  moreover have "degrees_ok {} (s\<lparr>dag_successors := m\<rparr>) = degrees_ok {} s"
    by (simp add: degrees_ok_def incomplete_def)
  ultimately show ?thesis using assms(1) by (simp add: dag_inv_def dag_inv_during_def)
qed

subsubsection \<open>The branches of \<open>enqueue\<close>\<close>

lemma inner_enqueue_dup:
  "fmlookup (dag_tasks s) (td_task_id task) \<noteq> None \<Longrightarrow>
   inner_enqueue ord now task s = (Err (DuplicateTask (td_task_id task)), s)"
  by (simp add: inner_enqueue_def Let_def)

lemma inner_enqueue_unknown:
  "fmlookup (dag_tasks s) (td_task_id task) = None \<Longrightarrow>
   find (\<lambda>d. fmlookup (fmupd (td_task_id task) task (dag_tasks s)) d = None) (td_dependencies task) = Some d \<Longrightarrow>
   inner_enqueue ord now task s = (Err (UnknownDependency d), s)"
  by (simp add: inner_enqueue_def Let_def fmdrop_fresh)

lemma inner_enqueue_cyclic:
  "fmlookup (dag_tasks s) (td_task_id task) = None \<Longrightarrow>
   find (\<lambda>d. fmlookup (fmupd (td_task_id task) task (dag_tasks s)) d = None) (td_dependencies task) = None \<Longrightarrow>
   detect_cycle ord (fmupd (td_task_id task) task (dag_tasks s)) \<noteq> None \<Longrightarrow>
   inner_enqueue ord now task s = (Err (CyclicDependency (td_task_id task)),
     s\<lparr>dag_successors := fold (remove_successor (td_task_id task)) (td_dependencies task)
        (fold (add_successor (td_task_id task)) (td_dependencies task) (dag_successors s))\<rparr>)"
  by (simp add: inner_enqueue_def Let_def fmdrop_fresh)

definition admitted :: "u64 \<Rightarrow> TaskDescriptor \<Rightarrow> Inner \<Rightarrow> Inner" where
  "admitted now task s =
    (let t = td_task_id task; ds = td_dependencies task in
     s\<lparr>dag_tasks := fmupd t task (dag_tasks s),
       dag_successors := fold (add_successor t) ds (dag_successors s),
       dag_states := fmupd t (if ds = [] then Ready else Pending) (dag_states s),
       dag_in_degree := fmupd t (length ds) (dag_in_degree s),
       dag_metadata := fmupd t (metadata_new now (td_priority task)) (dag_metadata s),
       dag_ready := dag_ready s @ (if ds = [] then [ready_entry (td_priority task) t] else [])\<rparr>)"

lemma inner_enqueue_ok:
  "fmlookup (dag_tasks s) (td_task_id task) = None \<Longrightarrow>
   find (\<lambda>d. fmlookup (fmupd (td_task_id task) task (dag_tasks s)) d = None) (td_dependencies task) = None \<Longrightarrow>
   detect_cycle ord (fmupd (td_task_id task) task (dag_tasks s)) = None \<Longrightarrow>
   inner_enqueue ord now task s = (Ok (), admitted now task s)"
  by (simp add: inner_enqueue_def admitted_def Let_def heap_push_def)

lemma admitted_inv:
  assumes inv: "dag_inv s" and fresh: "fmlookup (dag_tasks s) (td_task_id task) = None"
    and ac: "acyclic (dag_edges (fmupd (td_task_id task) task (dag_tasks s)))"
    and ds: "set (td_dependencies task) \<subseteq> insert (td_task_id task) (fmdom' (dag_tasks s))"
  shows "dag_inv (admitted now task s)"
proof -
  let ?t = "td_task_id task" and ?ds = "td_dependencies task" and ?s = "admitted now task s"
  have g: "graph_ok s" and d: "degrees_ok {} s" and en: "entries_ok (dag_states s) (dag_ready s)"
    using inv by (auto simp: dag_inv_def dag_inv_during_def)
  have sel [simp]: "dag_tasks ?s = fmupd ?t task (dag_tasks s)"
    "dag_states ?s = fmupd ?t (if ?ds = [] then Ready else Pending) (dag_states s)"
    "dag_in_degree ?s = fmupd ?t (length ?ds) (dag_in_degree s)"
    "dag_metadata ?s = fmupd ?t (metadata_new now (td_priority task)) (dag_metadata s)"
    "dag_successors ?s = fold (add_successor ?t) ?ds (dag_successors s)"
    "dag_ready ?s = dag_ready s @ (if ?ds = [] then [ready_entry (td_priority task) ?t] else [])"
    by (simp_all add: admitted_def Let_def)
  have deps: "deps_of (dag_tasks ?s) u = (if u = ?t then ?ds else deps_of (dag_tasks s) u)" for u
    by (simp add: deps_of_def)
  have dom: "fmdom' (dag_tasks ?s) = insert ?t (fmdom' (dag_tasks s))" by simp
  have not_dep: "?t \<notin> set (deps_of (dag_tasks s) u)" for u
    using deps_in_dom [OF g, of ?t u] fresh by (auto simp: fmdom'_lookup)
  have keys: "fmlookup (dag_states s) ?t = None" "fmlookup (dag_in_degree s) ?t = None"
    using graph_ok_keys [OF g, of ?t] fresh by auto
  have succ: "successors_of ?s x = successors_of s x \<union> (if x \<in> set ?ds then {?t} else {})" for x
    by (simp add: successors_of_succ_set succ_set_add)
  have succ_old: "u \<in> successors_of s x \<longleftrightarrow> x \<in> set (deps_of (dag_tasks s) u)" for u x
    using g by (simp add: graph_ok_def)
  have "graph_ok ?s"
    unfolding graph_ok_def
  proof (intro conjI allI impI)
    show "td_task_id task' = u" "set (td_dependencies task') \<subseteq> fmdom' (dag_tasks ?s)"
      if "fmlookup (dag_tasks ?s) u = Some task'" for u task'
      using that graph_ok_task [OF g, of u task'] ds unfolding dom by (auto split: if_splits)
    show "u \<in> successors_of ?s x \<longleftrightarrow> x \<in> set (deps_of (dag_tasks ?s) u)" for x u
      using deps_of_None [OF fresh] unfolding succ deps by (auto simp: succ_old)
    show "acyclic (dag_edges (dag_tasks ?s))" using ac by simp
    show "finite (successors_of ?s x)" for x using g unfolding succ by (simp add: graph_ok_def)
  qed (use g in \<open>auto simp: graph_ok_def\<close>)
  moreover have inc: "incomplete ?s u = incomplete s u" if "u \<noteq> ?t" for u
    using that not_dep [of u] unfolding incomplete_def deps by auto
  have inc_t: "card (incomplete ?s ?t) \<le> length ?ds"
  proof -
    have "incomplete ?s ?t \<subseteq> set ?ds" unfolding incomplete_def deps by auto
    then have "card (incomplete ?s ?t) \<le> card (set ?ds)" by (simp add: card_mono)
    then show ?thesis using card_length [of ?ds] by linarith
  qed
  have "degrees_ok {} ?s"
    unfolding degrees_ok_def
  proof (intro conjI allI impI, goal_cases)
    case (1 u dg)
    then show ?case using degrees_okD [OF d, of u dg] inc [of u] inc_t by (cases "u = ?t") auto
  next
    case (2 u)
    then show ?case using degrees_ok_pending [OF d, of u] by (auto split: if_splits)
  next
    case (3 u)
    show ?case
    proof (cases "u = ?t")
      case True
      then show ?thesis using 3 inc_t by (auto split: if_splits)
    next
      case False
      then show ?thesis using 3 degrees_ok_started [OF d, of u] inc [of u] by simp
    qed
  qed
  moreover have "entries_ok (dag_states ?s) (dag_ready ?s)"
  proof -
    have "?t \<notin> re_task_id ` set (dag_ready s)" using en keys by (auto simp: entries_ok_def)
    then show ?thesis using en by (auto simp: entries_ok_def ready_entry_def)
  qed
  ultimately show ?thesis by (simp add: dag_inv_def dag_inv_during_def)
qed

lemma find_unknown_None:
  "find (\<lambda>d. fmlookup (fmupd t task ts) d = None) ds = None \<Longrightarrow> set ds \<subseteq> insert t (fmdom' ts)"
  by (auto simp: find_None_iff fmdom'_lookup split: if_splits)

lemma inner_enqueue_inv:
  assumes inv: "dag_inv s" and ord: "hash_order ord"
  shows "dag_inv (snd (inner_enqueue ord now task s))"
proof (cases "fmlookup (dag_tasks s) (td_task_id task)")
  case None
  have g: "graph_ok s" using inv by (simp add: dag_inv_def dag_inv_during_def)
  let ?ts = "fmupd (td_task_id task) task (dag_tasks s)"
  show ?thesis
  proof (cases "find (\<lambda>d. fmlookup ?ts d = None) (td_dependencies task)")
    case f: None
    show ?thesis
    proof (cases "detect_cycle ord ?ts")
      case dc: None
      then have "acyclic (dag_edges ?ts)" by (simp add: detect_cycle_None_iff [OF ord])
      then show ?thesis using admitted_inv [OF inv None _ find_unknown_None [OF f]]
        by (simp add: inner_enqueue_ok [OF None f dc])
    next
      case (Some x)
      then have "detect_cycle ord ?ts \<noteq> None" by simp
      from inner_enqueue_cyclic [OF None f this]
      show ?thesis using dag_inv_successors_cong [OF inv successors_restored [OF g None]] by simp
    qed
  next
    case (Some d)
    then show ?thesis using inv by (simp only: inner_enqueue_unknown [OF None Some] snd_conv)
  qed
qed (use inv in \<open>simp add: inner_enqueue_dup\<close>)

subsection \<open>Every reachable state has the invariant\<close>

lemma dag_inv_policy [simp]:
  "dag_inv (set_fairness_policy p s) = dag_inv s" "dag_inv (set_starvation_policy q s) = dag_inv s"
  by (rule dag_inv_cong; simp add: set_fairness_policy_def set_starvation_policy_def)+

lemma dag_step_inv: "dag_inv s \<Longrightarrow> hash_order ord \<Longrightarrow> dag_inv (dag_step ord oper s)"
  by (cases oper) (simp_all add: inner_enqueue_inv inner_dequeue_inv inner_complete_inv inner_fail_inv
      inner_requeue_inv)

lemma dag_reachable_inv: "dag_reachable s \<Longrightarrow> dag_inv s"
proof (induction rule: dag_reachable.induct)
  case (start s c f p)
  then show ?case using dag_inv_init by metis
qed (rule dag_step_inv)

end
