(* ===== verification/DagExample.thy ===== *)
theory DagExample
  imports DagSafety
begin

text \<open>
  A concrete run of the DAG scheduler, evaluated step by step: a task and a dependent of it are
  enqueued, the first is started and completed, the second is started.
\<close>

lemmas pop_loop_list = pop_loop.simps [where h = "[]"] pop_loop.simps [where h = "x # xs" for x xs]

lemmas dag_eval = inner_enqueue_def inner_new_def inner_new_with_policies_def example_task_def
  detect_cycle_def dfs_def deps_of_def inner_dequeue_def age_ready_def inner_complete_def
  release_running_def successors_of_def unblock_def make_ready_def heap_push_def ready_entry_def
  metadata_new_def apply_aging_def waiting_time_ms_def default_fairness_def default_starvation_def
  default_metrics_def enforce_deadline_def saturating_sub_def pop_loop_list entry_le_def start_task_def
  fits_def add_successor_def from_u8_def min_def less_eq_Priority_def less_Priority_def
  less_eq_TaskId_def Let_def

definition example_first :: TaskDescriptor where
  "example_first = example_task 1 [] High"

definition example_second :: TaskDescriptor where
  "example_second = example_task 2 [TaskId 1] Normal"

text \<open>The state of the run, given what varies: the states, in-degrees, heap and metadata.\<close>

definition example_state :: "TaskState \<Rightarrow> TaskState \<Rightarrow> nat \<Rightarrow> ReadyEntry list
    \<Rightarrow> TaskMetadata \<Rightarrow> TaskMetadata \<Rightarrow> Inner" where
  "example_state st1 st2 deg es m1 m2 = inner_new\<lparr>
     dag_tasks := fmupd (TaskId 2) example_second (fmupd (TaskId 1) example_first fmempty),
     dag_states := fmupd (TaskId 2) st2 (fmupd (TaskId 1) st1 fmempty),
     dag_successors := fmupd (TaskId 1) {TaskId 2} fmempty,
     dag_in_degree := fmupd (TaskId 2) deg (fmupd (TaskId 1) 0 fmempty),
     dag_ready := es,
     dag_metadata := fmupd (TaskId 2) m2 (fmupd (TaskId 1) m1 fmempty)\<rparr>"

definition example_enqueued :: Inner where
  "example_enqueued = example_state Ready Pending 1 [ready_entry High (TaskId 1)]
     (metadata_new 0 High) (metadata_new 5 Normal)"

definition example_started :: Inner where
  "example_started = example_state Running Pending 1 [] (metadata_new 0 High) (metadata_new 5 Normal)"

definition example_completed :: Inner where
  "example_completed = example_state TaskCompleted Ready 0 [ready_entry Normal (TaskId 2)]
     (metadata_new 0 High) (metadata_new 9 Normal)"

definition example_second_started :: Inner where
  "example_second_started = example_state TaskCompleted Running 0 []
     (metadata_new 0 High) (metadata_new 9 Normal)"

lemmas example_defs = example_enqueued_def example_started_def example_completed_def
  example_second_started_def example_state_def example_first_def example_second_def

lemma fmupd_swap_12: "fmupd (TaskId 1) x (fmupd (TaskId 2) y m) = fmupd (TaskId 2) y (fmupd (TaskId 1) x m)"
  by (rule fmupd_reorder_neq) simp

lemma example_step_enqueue:
  "dag_step sorted_list_of_set (OpEnqueue 5 example_second)
     (dag_step sorted_list_of_set (OpEnqueue 0 example_first) inner_new) = example_enqueued"
  by (simp add: example_defs dag_eval fmupd_swap_12)

lemma example_step_start: "dag_step sorted_list_of_set (OpDequeue 7) example_enqueued = example_started"
  by (simp add: example_defs dag_eval fmupd_swap_12)

lemma example_step_complete:
  "dag_step sorted_list_of_set (OpComplete 9 (TaskId 1)) example_started = example_completed"
  by (simp add: example_defs dag_eval fmupd_swap_12)

lemma example_step_start_second:
  "dag_step sorted_list_of_set (OpDequeue 20) example_completed = example_second_started"
  by (simp add: example_defs dag_eval fmupd_swap_12)

lemma dag_reachable_new: "dag_reachable inner_new"
  by (rule dag_reachable.start) (simp_all add: inner_new_def inner_new_with_policies_def)

lemma example_reachable:
  "dag_reachable example_enqueued" "dag_reachable example_started"
  "dag_reachable example_completed" "dag_reachable example_second_started"
proof -
  note step = dag_reachable.step [OF _ hash_order_sorted]
  show e: "dag_reachable example_enqueued"
    unfolding example_step_enqueue [symmetric] by (intro step dag_reachable_new)
  show s: "dag_reachable example_started"
    unfolding example_step_start [symmetric] by (intro step e)
  show c: "dag_reachable example_completed"
    unfolding example_step_complete [symmetric] by (intro step s)
  show "dag_reachable example_second_started"
    unfolding example_step_start_second [symmetric] by (intro step c)
qed

end
