(* ===== verification/DagProperties.thy ===== *)
theory DagProperties
  imports DagExample
begin

text \<open>
  The properties of the DAG scheduler that its clients rely on: dependencies complete before
  their dependents start, the outcome of every \<open>enqueue\<close>, and which task \<open>dequeue\<close> chooses.
\<close>

subsection \<open>The ready heap is a max-heap\<close>

lemma entry_le_refl: "entry_le a a"
  by (simp add: entry_le_def)

lemma entry_le_total: "entry_le a b \<or> entry_le b a"
  by (auto simp: entry_le_def)

lemma entry_le_trans: "entry_le a b \<Longrightarrow> entry_le b c \<Longrightarrow> entry_le a c"
  by (auto simp: entry_le_def split: if_splits)

lemma heap_max_greatest: "x \<in> set (e # xs) \<Longrightarrow> entry_le x (heap_max e xs)"
proof (induction xs arbitrary: e x)
  case (Cons y xs)
  let ?m = "if entry_le e y then y else e"
  have "entry_le e ?m" "entry_le y ?m" using entry_le_refl entry_le_total [of e y] by auto
  moreover have "entry_le ?m (heap_max ?m xs)" by (rule Cons.IH) simp
  moreover have "x = e \<or> x = y \<or> x \<in> set (?m # xs)" using Cons.prems by auto
  ultimately have "entry_le x (heap_max ?m xs)"
    using Cons.IH [of x ?m] by (metis entry_le_trans list.set_intros(2))
  then show ?case by simp
qed (simp add: entry_le_refl)

interpretation ready_heap: max_heap entry_le heap_pop
proof
  show "mset h = add_mset e (mset h')" if "heap_pop h = Some (e, h')" for h e h'
    using heap_pop_Some [OF that] by simp
  show "entry_le x e" if "heap_pop h = Some (e, h')" "x \<in> set h" for h e h' x
    using that heap_max_greatest by (cases h) (auto simp: Let_def)
qed (rule entry_le_refl entry_le_trans heap_pop_None, assumption?)+

subsection \<open>Dependencies come first\<close>

text \<open>
  C1: in every state the scheduler can reach, under any sequence of calls, clock readings and
  hash orders, a task that is ready, running or completed has only completed dependencies.
\<close>

theorem dependencies_complete_first:
  assumes "dag_reachable s"
    and "fmlookup (dag_states s) t \<in> {Some Ready, Some Running, Some TaskCompleted}"
    and "fmlookup (dag_tasks s) t = Some task" and "d \<in> set (td_dependencies task)"
  shows "fmlookup (dag_states s) d = Some TaskCompleted"
proof -
  have "degrees_ok {} s" using dag_reachable_inv [OF assms(1)] by (simp add: dag_inv_def dag_inv_during_def)
  from degrees_ok_started [OF this assms(2)] show ?thesis
    using assms(3,4) by (auto simp: incomplete_def deps_of_Some)
qed

theorem dependencies_complete_first_witness:
  "fmlookup (dag_states example_second_started) (TaskId 1) = Some TaskCompleted"
  by (rule dependencies_complete_first [of _ "TaskId 2" example_second])
    (rule example_reachable, simp_all add: example_defs example_task_def)

subsection \<open>The maps agree\<close>

text \<open>
  C2: every reachable state is well formed: the state, in-degree and metadata maps have exactly the
  keys of the task map, each task is stored under its own id with known dependencies, the
  dependencies have no cycle, the successor sets are the inverse of the dependencies, and every
  ready task has exactly one entry in the heap.
\<close>

theorem scheduler_well_formed:
  assumes "dag_reachable s"
  shows "fmdom' (dag_states s) = fmdom' (dag_tasks s) \<and> fmdom' (dag_in_degree s) = fmdom' (dag_tasks s)
    \<and> fmdom' (dag_metadata s) = fmdom' (dag_tasks s)
    \<and> (\<forall>t task. fmlookup (dag_tasks s) t = Some task \<longrightarrow>
         td_task_id task = t \<and> set (td_dependencies task) \<subseteq> fmdom' (dag_tasks s))
    \<and> acyclic {(t, d). d \<in> set (deps_of (dag_tasks s) t)}
    \<and> (\<forall>d t. t \<in> successors_of s d \<longleftrightarrow> d \<in> set (deps_of (dag_tasks s) t))
    \<and> distinct (map re_task_id (dag_ready s))
    \<and> (\<forall>t. fmlookup (dag_states s) t = Some Ready \<longrightarrow> t \<in> re_task_id ` set (dag_ready s))"
proof -
  have inv: "graph_ok s" "entries_ok (dag_states s) (dag_ready s)"
    using dag_reachable_inv [OF assms] by (simp_all add: dag_inv_def dag_inv_during_def)
  have known: "d \<in> fmdom' (dag_tasks s)" if "d \<in> set (deps_of (dag_tasks s) t)" for t d
  proof (cases "fmlookup (dag_tasks s) t")
    case (Some task)
    then have "set (td_dependencies task) \<subseteq> fmdom' (dag_tasks s)" using inv(1) unfolding graph_ok_def by blast
    then show ?thesis using that Some by (auto simp: deps_of_Some)
  qed (use that in \<open>simp add: deps_of_def\<close>)
  have edges: "dag_edges (dag_tasks s) = {(t, d). d \<in> set (deps_of (dag_tasks s) t)}"
    using known by (auto simp: dag_edges_def)
  show ?thesis using inv unfolding graph_ok_def entries_ok_def edges by (elim conjE) (intro conjI; assumption)
qed

theorem scheduler_well_formed_witness:
  "acyclic {(t, d). d \<in> set (deps_of (dag_tasks example_enqueued) t)}
    \<and> TaskId 1 \<in> re_task_id ` set (dag_ready example_enqueued)"
  using scheduler_well_formed [OF example_reachable(1)] by (simp add: example_defs)

subsection \<open>Enqueue\<close>

lemma acyclic_new_source:
  assumes "acyclic E" "\<And>x. (x, t) \<notin> E" "t \<notin> D"
  shows "acyclic (E \<union> {t} \<times> D)"
proof -
  have "(x, y) \<in> E\<^sup>+ \<or> x = t" "y \<noteq> t" if "(x, y) \<in> (E \<union> {t} \<times> D)\<^sup>+" for x y
    using that
  proof (induction rule: trancl_induct)
    case (base y)
    { case 1 then show ?case using base by auto }
    { case 2 then show ?case using base assms(2,3) by auto }
  next
    case (step y z)
    { case 1 then show ?case using step by (auto intro: trancl_into_trancl) }
    { case 2 then show ?case using step assms(2,3) by auto }
  qed
  then show ?thesis using assms(1) unfolding acyclic_def by blast
qed

lemma dag_edges_fresh:
  assumes g: "graph_ok s" and fresh: "fmlookup (dag_tasks s) (td_task_id task) = None"
    and ds: "set (td_dependencies task) \<subseteq> insert (td_task_id task) (fmdom' (dag_tasks s))"
  shows "dag_edges (fmupd (td_task_id task) task (dag_tasks s))
    = dag_edges (dag_tasks s) \<union> {td_task_id task} \<times> set (td_dependencies task)"
proof -
  let ?t = "td_task_id task"
  have not_dep: "?t \<notin> set (deps_of (dag_tasks s) u)" for u
    using deps_in_dom [OF g, of ?t u] fresh by (auto simp: fmdom'_lookup)
  have deps: "deps_of (fmupd ?t task (dag_tasks s)) u
      = (if u = ?t then td_dependencies task else deps_of (dag_tasks s) u)" for u
    by (simp add: deps_of_def)
  show ?thesis
    using not_dep ds unfolding dag_edges_def deps by (auto simp: deps_of_None [OF fresh] split: if_splits)
qed

lemma acyclic_fresh_iff:
  assumes g: "graph_ok s" and fresh: "fmlookup (dag_tasks s) (td_task_id task) = None"
    and ds: "set (td_dependencies task) \<subseteq> insert (td_task_id task) (fmdom' (dag_tasks s))"
  shows "acyclic (dag_edges (fmupd (td_task_id task) task (dag_tasks s)))
    \<longleftrightarrow> td_task_id task \<notin> set (td_dependencies task)"
proof
  assume "acyclic (dag_edges (fmupd (td_task_id task) task (dag_tasks s)))"
  then show "td_task_id task \<notin> set (td_dependencies task)"
    unfolding dag_edges_fresh [OF assms] acyclic_def by blast
next
  assume nd: "td_task_id task \<notin> set (td_dependencies task)"
  have "(x, td_task_id task) \<notin> dag_edges (dag_tasks s)" for x
    using dag_edges_dom [of x "td_task_id task" "dag_tasks s"] fresh by (auto simp: fmdom'_lookup)
  then show "acyclic (dag_edges (fmupd (td_task_id task) task (dag_tasks s)))"
    unfolding dag_edges_fresh [OF assms] using nd g
    by (intro acyclic_new_source) (simp_all add: graph_ok_def)
qed

text \<open>Two states that no operation can tell apart: an absent successor set is an empty one.\<close>

definition same_view :: "Inner \<Rightarrow> Inner \<Rightarrow> bool" where
  "same_view s s' \<longleftrightarrow> s' = s\<lparr>dag_successors := dag_successors s'\<rparr>
     \<and> (\<forall>d. successors_of s' d = successors_of s d)"

lemma find_cong_unknown:
  "find (\<lambda>d. fmlookup (fmupd t task ts) d = None) ds = find (\<lambda>d. d \<notin> insert t (fmdom' ts)) ds"
  by (rule arg_cong [of _ _ "\<lambda>P. find P ds"]) (auto simp: fun_eq_iff fmdom'_lookup)

lemma inner_enqueue_result:
  assumes inv: "dag_inv s" and ord: "hash_order ord"
  shows "fst (inner_enqueue ord now task s) =
     (if td_task_id task \<in> fmdom' (dag_tasks s) then Err (DuplicateTask (td_task_id task))
      else case find (\<lambda>d. d \<notin> insert (td_task_id task) (fmdom' (dag_tasks s))) (td_dependencies task) of
        Some d \<Rightarrow> Err (UnknownDependency d)
      | None \<Rightarrow> if td_task_id task \<in> set (td_dependencies task)
                then Err (CyclicDependency (td_task_id task)) else Ok ())
   \<and> (\<not> is_ok (fst (inner_enqueue ord now task s)) \<longrightarrow> same_view s (snd (inner_enqueue ord now task s)))"
proof -
  let ?t = "td_task_id task" and ?ts = "fmupd (td_task_id task) task (dag_tasks s)"
  have g: "graph_ok s" using inv by (simp add: dag_inv_def dag_inv_during_def)
  have refl: "same_view s s" by (simp add: same_view_def)
  show ?thesis
  proof (cases "fmlookup (dag_tasks s) ?t")
    case None
    then have t: "?t \<notin> fmdom' (dag_tasks s)" by (simp only: fmdom'_lookup) simp
    note find = find_cong_unknown [of ?t task "dag_tasks s" "td_dependencies task", symmetric]
    show ?thesis
    proof (cases "find (\<lambda>d. fmlookup ?ts d = None) (td_dependencies task)")
      case f: None
      have ac: "acyclic (dag_edges ?ts) \<longleftrightarrow> ?t \<notin> set (td_dependencies task)"
        by (rule acyclic_fresh_iff [OF g None find_unknown_None [OF f]])
      show ?thesis
      proof (cases "detect_cycle ord ?ts = None")
        case True
        then have "?t \<notin> set (td_dependencies task)" using ac detect_cycle_None_iff [OF ord] by simp
        then show ?thesis using t by (simp only: inner_enqueue_ok [OF None f True] find f) simp
      next
        case False
        then have "?t \<in> set (td_dependencies task)" using ac detect_cycle_None_iff [OF ord] by simp
        then show ?thesis using t successors_restored [OF g None]
          by (simp only: inner_enqueue_cyclic [OF None f False] find f) (simp add: same_view_def successors_of_succ_set)
      qed
    next
      case (Some d)
      then show ?thesis using t refl by (simp only: inner_enqueue_unknown [OF None Some] find Some) simp
    qed
  next
    case (Some x)
    then show ?thesis using refl by (simp add: inner_enqueue_dup fmdom'_lookup_Some)
  qed
qed

text \<open>
  C3: \<open>enqueue\<close> rejects a known identifier as a duplicate, then the first dependency that is
  neither known nor the task itself as unknown, then a task that depends on itself as cyclic
  (in a reachable state no other new task can close a cycle), and accepts every other task; a
  rejected call leaves the scheduler as it was.
\<close>

theorem enqueue_outcome:
  assumes r: "dag_reachable s" and ord: "hash_order ord"
  shows "fst (inner_enqueue ord now task s) =
     (if td_task_id task \<in> fmdom' (dag_tasks s) then Err (DuplicateTask (td_task_id task))
      else case find (\<lambda>d. d \<notin> insert (td_task_id task) (fmdom' (dag_tasks s))) (td_dependencies task) of
        Some d \<Rightarrow> Err (UnknownDependency d)
      | None \<Rightarrow> if td_task_id task \<in> set (td_dependencies task)
                then Err (CyclicDependency (td_task_id task)) else Ok ())
   \<and> (\<not> is_ok (fst (inner_enqueue ord now task s)) \<longrightarrow> same_view s (snd (inner_enqueue ord now task s)))"
  by (rule inner_enqueue_result [OF dag_reachable_inv [OF r] ord])

theorem enqueue_outcome_witness:
  "fst (inner_enqueue sorted_list_of_set 8 (example_task 3 [TaskId 1, TaskId 3] Low) example_completed)
     = Err (CyclicDependency (TaskId 3))
   \<and> same_view example_completed
       (snd (inner_enqueue sorted_list_of_set 8 (example_task 3 [TaskId 1, TaskId 3] Low) example_completed))"
  using enqueue_outcome [OF example_reachable(3) hash_order_sorted,
      of 8 "example_task 3 [TaskId 1, TaskId 3] Low"]
  by (simp add: example_defs example_task_def)

subsection \<open>Dequeue\<close>

definition startable :: "Inner \<Rightarrow> ReadyEntry \<Rightarrow> bool" where
  "startable s e \<longleftrightarrow> fmlookup (dag_states s) (re_task_id e) = Some Ready
     \<and> (case fmlookup (dag_tasks s) (re_task_id e) of None \<Rightarrow> False | Some task \<Rightarrow> fits s task)"

text \<open>The order in which the entries are served: by effective priority, then by identifier, both descending.\<close>

definition outranks :: "ReadyEntry \<Rightarrow> ReadyEntry \<Rightarrow> bool" where
  "outranks e x \<longleftrightarrow> effective_priority x < effective_priority e
     \<or> effective_priority x = effective_priority e \<and> re_task_id x \<le> re_task_id e"

lemma entry_le_outranks: "entry_le x e \<longleftrightarrow> outranks e x"
  by (auto simp: entry_le_def outranks_def)

text \<open>What the pop loop over the entries \<open>h\<close> returns and does to the task states.\<close>

definition chosen :: "Inner \<Rightarrow> ReadyEntry list \<Rightarrow> TaskDescriptor option \<Rightarrow> Inner \<Rightarrow> bool" where
  "chosen s h r s' \<longleftrightarrow>
    (case r of
      None \<Rightarrow> (\<forall>e \<in> set h. \<not> startable s e) \<and> dag_states s' = dag_states s
    | Some task \<Rightarrow> \<exists>e \<in> set h. startable s e \<and> fmlookup (dag_tasks s) (re_task_id e) = Some task
        \<and> (\<forall>x \<in> set h. startable s x \<longrightarrow> outranks e x)
        \<and> dag_states s' = fmupd (re_task_id e) Running (dag_states s))"

lemma chosen_skip:
  assumes hp: "heap_pop h = Some (e, h')" and e: "\<not> startable s e" and c: "chosen s h' r s'"
  shows "chosen s h r s'"
proof (cases r)
  case None
  then show ?thesis using c e ready_heap.pop_set [OF hp] by (simp add: chosen_def)
next
  case (Some task)
  then obtain m where m: "m \<in> set h'" "startable s m" "fmlookup (dag_tasks s) (re_task_id m) = Some task"
    "\<forall>x \<in> set h'. startable s x \<longrightarrow> outranks m x" "dag_states s' = fmupd (re_task_id m) Running (dag_states s)"
    using c by (auto simp: chosen_def)
  then have "m \<in> set h" "\<forall>x \<in> set h. startable s x \<longrightarrow> outranks m x"
    using ready_heap.pop_set [OF hp] ready_heap.pop_skip [OF hp e m(4) [folded entry_le_outranks]]
    by (simp_all add: entry_le_outranks)
  then show ?thesis using m Some by (auto simp: chosen_def)
qed

lemma pop_loop_skip:
  assumes "heap_pop h = Some (e, h')" "\<not> startable s e"
  shows "pop_loop s h skipped = pop_loop s h' skipped \<or> pop_loop s h skipped = pop_loop s h' (skipped @ [e])"
  using assms by (subst (1 3) pop_loop.simps) (auto simp: startable_def split: option.splits)

lemma pop_loop_chosen: "pop_loop s h skipped = (r, s') \<Longrightarrow> chosen s h r s'"
proof (induction "length h" arbitrary: h skipped)
  case 0
  then show ?case by (subst (asm) pop_loop.simps) (auto simp: chosen_def)
next
  case (Suc n)
  then have "h \<noteq> []" by auto
  then obtain e h' where hp: "heap_pop h = Some (e, h')" by (cases rule: ready_heap.pop_cases [of h]) auto
  have n: "n = length h'" using Suc.hyps ready_heap.pop_length [OF hp] by simp
  show ?case
  proof (cases "startable s e")
    case True
    then obtain task where task: "fmlookup (dag_tasks s) (re_task_id e) = Some task" "fits s task"
      by (auto simp: startable_def split: option.splits)
    have "pop_loop s h skipped = (Some task, (start_task e task s)\<lparr>dag_ready := fold heap_push skipped h'\<rparr>)"
      using hp True task by (subst pop_loop.simps) (simp add: startable_def)
    then have "r = Some task" "dag_states s' = fmupd (re_task_id e) Running (dag_states s)"
      using Suc.prems by auto
    then show ?thesis using True task(1) ready_heap.pop_max [OF hp] ready_heap.pop_set [OF hp]
      by (auto simp: chosen_def simp flip: entry_le_outranks)
  next
    case False
    then have "pop_loop s h' skipped = (r, s') \<or> pop_loop s h' (skipped @ [e]) = (r, s')"
      using pop_loop_skip [OF hp False, of skipped] Suc.prems by auto
    then have "chosen s h' r s'" using Suc.hyps(1) [OF n] by blast
    then show ?thesis by (rule chosen_skip [OF hp False])
  qed
qed

lemma age_ready_frame [simp]:
  "dag_states (age_ready now s) = dag_states s" "dag_tasks (age_ready now s) = dag_tasks s"
  "dag_resource_pool (age_ready now s) = dag_resource_pool s"
  "dag_running_resources (age_ready now s) = dag_running_resources s"
  by (auto simp: age_ready_def split: prod.splits)

lemma inner_dequeue_pick:
  assumes inv: "dag_inv s" and r: "inner_dequeue now s = (r, s')"
  shows "r = Ok None \<and> dag_states s' = dag_states s
        \<and> (dag_resource_pool s = None \<longrightarrow> (\<forall>t. fmlookup (dag_states s) t \<noteq> Some Ready))
      \<or> (\<exists>t task. fmlookup (dag_states s) t = Some Ready \<and> fmlookup (dag_tasks s) t = Some task \<and> r = Ok (Some task)
          \<and> td_task_id task = t \<and> dag_states s' = fmupd t Running (dag_states s))"
proof -
  let ?a = "age_ready now s"
  obtain q s2 where p: "pop_loop ?a (dag_ready ?a) [] = (q, s2)" by fastforce
  have r': "r = Ok q" "s' = s2" using r by (simp_all add: inner_dequeue_def Let_def p)
  have g: "graph_ok s" and en: "entries_ok (dag_states s) (dag_ready ?a)"
    using inv age_ready_inv [OF inv, of now] by (simp_all add: dag_inv_def dag_inv_during_def)
  show ?thesis
  proof (cases q)
    case None
    have "fmlookup (dag_states s) t \<noteq> Some Ready" if "dag_resource_pool s = None" for t
    proof
      assume t: "fmlookup (dag_states s) t = Some Ready"
      then obtain e where e: "e \<in> set (dag_ready ?a)" "re_task_id e = t" using en unfolding entries_ok_def by blast
      moreover obtain task where "fmlookup (dag_tasks s) t = Some task"
        using t graph_ok_keys(1) [OF g, of t] by (cases "fmlookup (dag_tasks s) t") auto
      ultimately have "startable ?a e" using t that by (simp add: startable_def fits_def)
      then show False using pop_loop_chosen [OF p] None e(1) by (auto simp: chosen_def)
    qed
    then show ?thesis using pop_loop_chosen [OF p] None r' by (simp add: chosen_def)
  next
    case (Some task)
    then obtain e where "startable ?a e" "fmlookup (dag_tasks s) (re_task_id e) = Some task"
      "dag_states s' = fmupd (re_task_id e) Running (dag_states s)"
      using pop_loop_chosen [OF p] r' by (auto simp: chosen_def)
    moreover have "td_task_id task = re_task_id e" using graph_ok_task [OF g] calculation(2) by blast
    ultimately show ?thesis using Some r' by (auto simp: startable_def)
  qed
qed

text \<open>
  C4: \<open>dequeue\<close> never fails; after aging the queue it hands out a task whose entry outranks
  (by effective priority, then by identifier) all those among the ready tasks that fit the free resources, marks
  that task and no other as running, and returns nothing exactly when no ready task fits.
\<close>

theorem dequeue_greatest:
  assumes "dag_reachable s"
  shows "\<exists>r s'. inner_dequeue now s = (Ok r, s') \<and> chosen (age_ready now s) (dag_ready (age_ready now s)) r s'
    \<and> (r = None \<longleftrightarrow> \<not> (\<exists>t task. fmlookup (dag_states s) t = Some Ready
          \<and> fmlookup (dag_tasks s) t = Some task \<and> fits s task))"
proof -
  let ?s = "age_ready now s"
  have inv: "dag_inv ?s" by (rule age_ready_inv [OF dag_reachable_inv [OF assms]])
  then have en: "entries_ok (dag_states s) (dag_ready ?s)" by (simp add: dag_inv_def dag_inv_during_def)
  have fits: "fits ?s task = fits s task" for task by (simp add: fits_def)
  obtain r s' where p: "pop_loop ?s (dag_ready ?s) [] = (r, s')" by fastforce
  then have c: "chosen ?s (dag_ready ?s) r s'" by (rule pop_loop_chosen)
  have "(\<forall>e \<in> set (dag_ready ?s). \<not> startable ?s e) \<longleftrightarrow>
      \<not> (\<exists>t task. fmlookup (dag_states s) t = Some Ready \<and> fmlookup (dag_tasks s) t = Some task \<and> fits s task)"
    using en by (fastforce simp: startable_def entries_ok_def fits split: option.splits)
  moreover have "r = None \<longleftrightarrow> (\<forall>e \<in> set (dag_ready ?s). \<not> startable ?s e)"
    using c by (auto simp: chosen_def split: option.splits)
  ultimately have "r = None \<longleftrightarrow> \<not> (\<exists>t task. fmlookup (dag_states s) t = Some Ready
      \<and> fmlookup (dag_tasks s) t = Some task \<and> fits s task)" by (rule trans [rotated])
  then show ?thesis using p c by (intro exI [of _ r] exI [of _ s']) (simp add: inner_dequeue_def Let_def)
qed

theorem dequeue_greatest_witness:
  "\<exists>r s'. inner_dequeue 20 example_completed = (Ok r, s') \<and> r \<noteq> None"
proof -
  have "fmlookup (dag_states example_completed) (TaskId 2) = Some Ready
      \<and> fmlookup (dag_tasks example_completed) (TaskId 2) = Some example_second
      \<and> fits example_completed example_second"
    by (simp add: example_defs inner_new_def inner_new_with_policies_def fits_def)
  then show ?thesis using dequeue_greatest [OF example_reachable(3), of 20] by blast
qed

end
