(* ===== verification/DagProgress.thy ===== *)
theory DagProgress
  imports DagProperties
begin

text \<open>
  Failure propagation and progress of the DAG scheduler: \<open>fail\<close> takes exactly the tasks that
  wait for the failed one; a task's in-degree exceeds its open dependencies by a constant that
  is fixed at \<open>enqueue\<close>; where it is zero the scheduler cannot get stuck, where it is positive
  the task never starts.
\<close>

subsection \<open>The cascade\<close>

lemma fold_cascade_one:
  assumes "distinct xs"
  shows "fst (fold cascade_one xs (q, st)) = q @ filter (\<lambda>x. x \<in> live_states st) xs"
    and "fmlookup (snd (fold cascade_one xs (q, st))) y
      = (if y \<in> set xs \<and> y \<in> live_states st then Some DependencyFailed else fmlookup st y)"
proof -
  have "fst (fold cascade_one xs (q, st)) = q @ filter (\<lambda>x. x \<in> live_states st) xs \<and>
    fmlookup (snd (fold cascade_one xs (q, st))) y
      = (if y \<in> set xs \<and> y \<in> live_states st then Some DependencyFailed else fmlookup st y)"
    using assms
  proof (induction xs arbitrary: q st)
    case (Cons x xs)
    show ?case
    proof (cases "x \<in> live_states st")
      case True
      let ?st = "fmupd x DependencyFailed st"
      have one: "cascade_one x (q, st) = (q @ [x], ?st)" using True by (simp add: live_states_def)
      have live: "live_states ?st = live_states st - {x}" by (auto simp: live_states_def)
      have "filter (\<lambda>y. y \<in> live_states ?st) xs = filter (\<lambda>y. y \<in> live_states st) xs"
        using Cons.prems by (intro filter_cong) (auto simp: live)
      then show ?thesis using Cons.IH [of "q @ [x]" ?st] Cons.prems True by (auto simp: one live simp del: cascade_one.simps)
    next
      case False
      then have "cascade_one x (q, st) = (q, st)" by (simp add: live_states_def)
      then show ?thesis using Cons False by (auto simp del: cascade_one.simps)
    qed
  qed simp
  then show "fst (fold cascade_one xs (q, st)) = q @ filter (\<lambda>x. x \<in> live_states st) xs"
    and "fmlookup (snd (fold cascade_one xs (q, st))) y
      = (if y \<in> set xs \<and> y \<in> live_states st then Some DependencyFailed else fmlookup st y)" by blast+
qed

text \<open>A task waits for another directly when it is its successor and among the tasks \<open>L\<close>.\<close>

definition waits :: "(TaskId, TaskId set) fmap \<Rightarrow> TaskId set \<Rightarrow> (TaskId \<times> TaskId) set" where
  "waits succs L = {(d, u). u \<in> succ_set succs d \<and> u \<in> L}"

definition waiting :: "(TaskId, TaskId set) fmap \<Rightarrow> TaskId set \<Rightarrow> TaskId set \<Rightarrow> TaskId set" where
  "waiting succs L Q = {u. \<exists>d \<in> Q. (d, u) \<in> (waits succs L)\<^sup>+}"

lemma waits_mono: "A \<subseteq> B \<Longrightarrow> waits succs A \<subseteq> waits succs B"
  by (auto simp: waits_def)

lemma waiting_live: "waiting succs L Q \<subseteq> L"
  by (auto simp: waiting_def waits_def elim: tranclE)

lemma waiting_empty [simp]: "waiting succs L {} = {}"
  by (simp add: waiting_def)

lemma waiting_first:
  assumes N: "N = succ_set succs c \<inter> L"
  shows "waiting succs L (insert c Q) = N \<union> waiting succs (L - N) (Q \<union> N)"
proof (intro equalityI subsetI)
  fix x assume "x \<in> waiting succs L (insert c Q)"
  then obtain d where d: "d \<in> insert c Q" "(d, x) \<in> (waits succs L)\<^sup>+" by (auto simp: waiting_def)
  from d(2) show "x \<in> N \<union> waiting succs (L - N) (Q \<union> N)"
  proof (induction rule: trancl_induct)
    case (base y)
    then show ?case using d(1) N by (auto simp: waits_def waiting_def intro!: r_into_trancl)
  next
    case (step y z)
    show ?case
    proof (cases "z \<in> N")
      case False
      then have yz: "(y, z) \<in> waits succs (L - N)" using step.hyps by (simp add: waits_def)
      show ?thesis
      proof (cases "y \<in> N")
        case True
        then show ?thesis using yz by (auto simp: waiting_def)
      next
        case False
        then obtain d where "d \<in> Q \<union> N" "(d, y) \<in> (waits succs (L - N))\<^sup>+"
          using step.IH by (auto simp: waiting_def)
        then have "(d, z) \<in> (waits succs (L - N))\<^sup>+" using yz by (blast intro: trancl_into_trancl)
        then show ?thesis using \<open>d \<in> Q \<union> N\<close> by (auto simp: waiting_def)
      qed
    qed simp
  qed
next
  fix x assume x: "x \<in> N \<union> waiting succs (L - N) (Q \<union> N)"
  have cN: "y \<in> N \<Longrightarrow> (c, y) \<in> (waits succs L)\<^sup>+" for y using N by (auto simp: waits_def)
  have sub: "(d, y) \<in> (waits succs (L - N))\<^sup>+ \<Longrightarrow> (d, y) \<in> (waits succs L)\<^sup>+" for d y
    using trancl_mono [OF _ waits_mono [of "L - N" L succs]] by blast
  show "x \<in> waiting succs L (insert c Q)"
  proof (cases "x \<in> N")
    case True
    then show ?thesis using cN by (auto simp: waiting_def)
  next
    case False
    then obtain d where d: "d \<in> Q \<union> N" "(d, x) \<in> (waits succs (L - N))\<^sup>+" using x by (auto simp: waiting_def)
    show ?thesis
    proof (cases "d \<in> Q")
      case True
      then show ?thesis using sub [OF d(2)] by (auto simp: waiting_def)
    next
      case False
      then have "(c, x) \<in> (waits succs L)\<^sup>+" using d(1) cN sub [OF d(2)] by (auto intro: trancl_trans)
      then show ?thesis by (auto simp: waiting_def)
    qed
  qed
qed

lemma cascade_lookup:
  assumes ord: "hash_order ord" and fin: "\<And>d. finite (succ_set succs d)"
  shows "fmlookup (cascade ord succs q st) x
    = (if x \<in> waiting succs (live_states st) (set q) then Some DependencyFailed else fmlookup st x)"
  using assms
proof (induction ord succs q st rule: cascade.induct)
  case (2 ord succs c q st)
  let ?N = "succ_set succs c \<inter> live_states st"
  have first: "waiting succs (live_states st) (insert c (set q))
      = ?N \<union> waiting succs (live_states st - ?N) (set q \<union> ?N)" by (rule waiting_first) simp
  show ?case
  proof (cases "fmlookup succs c")
    case None
    then have "?N = {}" by (simp add: succ_set_def)
    then show ?thesis using 2(1) [OF None 2(3,4)] None first by (simp add: cascade.simps(2))
  next
    case (Some S)
    then have S: "succ_set succs c = S" by (simp add: succ_set_def)
    obtain q' st' where f: "fold cascade_one (ord S) (q, st) = (q', st')" by fastforce
    have finS: "finite S" using 2(4) [of c] S by simp
    have dist: "distinct (ord S)" and setS: "set (ord S) = S" using 2(3) finS by simp_all
    have q': "set q' = set q \<union> ?N"
      using fold_cascade_one(1) [OF dist, of q st] setS S f by auto
    have st': "fmlookup st' y = (if y \<in> ?N then Some DependencyFailed else fmlookup st y)" for y
      using fold_cascade_one(2) [OF dist, of q st y] setS S f by simp
    have live: "live_states st' = live_states st - ?N" by (auto simp: live_states_def st')
    have "fmlookup (cascade ord succs q' st') x
        = (if x \<in> waiting succs (live_states st - ?N) (set q \<union> ?N) then Some DependencyFailed else fmlookup st' x)"
      using 2(2) [OF Some f [symmetric] 2(3,4)] by (simp only: live q')
    then show ?thesis using Some f first st' by (simp add: cascade.simps(2))
  qed
qed simp

subsection \<open>Fail\<close>

lemma inner_fail_lookup:
  assumes g: "graph_ok s" and ord: "hash_order ord"
    and t: "fmlookup (dag_states s) t \<in> {Some Pending, Some Ready, Some Running}"
  shows "fmlookup (dag_states (snd (inner_fail ord t s))) x =
    (if x = t then Some TaskFailed
     else if x \<in> waiting (dag_successors s) (live_states (dag_states s) - {t}) {t}
     then Some DependencyFailed else fmlookup (dag_states s) x)"
proof -
  have fin: "finite (succ_set (dag_successors s) d)" for d
    using g by (simp add: graph_ok_def successors_of_succ_set)
  have live: "live_states (fmupd t TaskFailed (dag_states s)) = live_states (dag_states s) - {t}"
    by (auto simp: live_states_def)
  have "t \<notin> waiting (dag_successors s) (live_states (dag_states s) - {t}) {t}"
    using waiting_live by blast
  then show ?thesis unfolding inner_fail_ok(2) [OF t] cascade_lookup [OF ord fin] live by simp
qed

text \<open>
  C6: failing a pending, ready or running task marks it failed, marks as
  \<open>DependencyFailed\<close> exactly the pending and ready tasks that depend on it through a chain of
  pending and ready tasks, and changes no other task's state.
\<close>

theorem fail_cascades:
  assumes r: "dag_reachable s" and ord: "hash_order ord"
    and t: "fmlookup (dag_states s) t \<in> {Some Pending, Some Ready, Some Running}"
  shows "fst (inner_fail ord t s) = Ok ()
    \<and> fmlookup (dag_states (snd (inner_fail ord t s))) x =
        (if x = t then Some TaskFailed
         else if (t, x) \<in> {(d, u). d \<in> set (deps_of (dag_tasks s) u) \<and> u \<noteq> t
              \<and> fmlookup (dag_states s) u \<in> {Some Pending, Some Ready}}\<^sup>+
         then Some DependencyFailed else fmlookup (dag_states s) x)"
proof -
  have g: "graph_ok s" using dag_reachable_inv [OF r] by (simp add: dag_inv_def dag_inv_during_def)
  have "waits (dag_successors s) (live_states (dag_states s) - {t})
      = {(d, u). d \<in> set (deps_of (dag_tasks s) u) \<and> u \<noteq> t
              \<and> fmlookup (dag_states s) u \<in> {Some Pending, Some Ready}}"
    using g by (auto simp: waits_def live_states_def graph_ok_def successors_of_succ_set)
  then show ?thesis using inner_fail_ok(1) [OF t] inner_fail_lookup [OF g ord t]
    by (simp add: waiting_def)
qed

theorem fail_cascades_witness:
  "fmlookup (dag_states (snd (inner_fail sorted_list_of_set (TaskId 1) example_started))) (TaskId 2)
     = Some DependencyFailed"
proof -
  have "fmlookup (dag_states example_started) (TaskId 1) \<in> {Some Pending, Some Ready, Some Running}"
    by (simp add: example_defs)
  from fail_cascades [OF example_reachable(2) hash_order_sorted this, of "TaskId 2"]
  show ?thesis by (simp add: example_defs deps_of_def example_task_def r_into_trancl)
qed

subsection \<open>The excess of a task's in-degree\<close>

definition excess :: "Inner \<Rightarrow> TaskId \<Rightarrow> int" where
  "excess s t = (case fmlookup (dag_in_degree s) t of None \<Rightarrow> 0
     | Some deg \<Rightarrow> int deg - int (card (incomplete s t)))"

lemma unblock_tasks [simp]: "dag_tasks (unblock now x s) = dag_tasks s"
  by (simp add: unblock_def make_ready_def Let_def split: option.split)

lemma unblock_in_degree:
  "fmlookup (dag_in_degree (unblock now x s)) u
     = (if u = x then map_option (\<lambda>deg. deg - 1) (fmlookup (dag_in_degree s) u) else fmlookup (dag_in_degree s) u)"
  by (auto simp: unblock_def make_ready_def Let_def split: option.split)

lemma unblock_states:
  "fmlookup (dag_states (unblock now x s)) u
     = (if u = x \<and> fmlookup (dag_in_degree s) x \<in> {Some 0, Some 1} \<and> fmlookup (dag_states s) x = Some Pending
        then Some Ready else fmlookup (dag_states s) u)"
  by (auto simp: unblock_def make_ready_def Let_def split: option.split)

lemma fold_unblock_tasks [simp]: "dag_tasks (fold (unblock now) xs s) = dag_tasks s"
  by (induction xs arbitrary: s) simp_all

lemma fold_unblock_in_degree:
  "distinct xs \<Longrightarrow> fmlookup (dag_in_degree (fold (unblock now) xs s)) u
     = (if u \<in> set xs then map_option (\<lambda>deg. deg - 1) (fmlookup (dag_in_degree s) u)
        else fmlookup (dag_in_degree s) u)"
  by (induction xs arbitrary: s) (auto simp: unblock_in_degree)

lemma fold_unblock_completed:
  "fmlookup (dag_states (fold (unblock now) xs s)) u = Some TaskCompleted
     \<longleftrightarrow> fmlookup (dag_states s) u = Some TaskCompleted"
  by (induction xs arbitrary: s) (auto simp: unblock_states)

lemma excess_cong:
  "fmlookup (dag_in_degree s') t = fmlookup (dag_in_degree s) t \<Longrightarrow> incomplete s' t = incomplete s t
   \<Longrightarrow> excess s' t = excess s t"
  by (simp add: excess_def split: option.split)

lemma inner_complete_excess:
  assumes inv: "dag_inv s" and ord: "hash_order ord"
  shows "excess (snd (inner_complete ord now t s)) u = excess s u"
proof (cases "fmlookup (dag_states s) t = Some Running")
  case True
  let ?s = "release_running t (s\<lparr>dag_states := fmupd t TaskCompleted (dag_states s)\<rparr>)"
  let ?f = "snd (inner_complete ord now t s)"
  have g: "graph_ok s" and d: "degrees_ok {} s" using inv by (auto simp: dag_inv_def dag_inv_during_def)
  have succ: "successors_of ?s t = successors_of s t" by (simp add: successors_of_def)
  have fin: "finite (successors_of s t)" using g by (simp add: graph_ok_def)
  have f: "?f = fold (unblock now) (ord (successors_of s t)) ?s"
    using True succ by (simp add: inner_complete_def Let_def)
  have deg: "fmlookup (dag_in_degree ?f) u = (if u \<in> successors_of s t
      then map_option (\<lambda>deg. deg - 1) (fmlookup (dag_in_degree s) u) else fmlookup (dag_in_degree s) u)"
    unfolding f using ord fin by (simp add: fold_unblock_in_degree)
  have inc: "incomplete ?f u = incomplete s u - {t}"
    unfolding f by (auto simp: incomplete_def fold_unblock_completed)
  have mem: "u \<in> successors_of s t \<longleftrightarrow> t \<in> incomplete s u"
    using g True by (simp add: graph_ok_def incomplete_def)
  show ?thesis
  proof (cases "u \<in> successors_of s t")
    case False
    then show ?thesis using mem by (intro excess_cong) (simp_all add: deg inc)
  next
    case u: True
    have card: "Suc (card (incomplete s u - {t})) = card (incomplete s u)"
      by (rule card_Suc_Diff1) (use mem u in simp_all)
    show ?thesis
    proof (cases "fmlookup (dag_in_degree s) u")
      case (Some dg)
      have "card (incomplete s u) \<le> dg" using degrees_okD [OF d Some] by simp
      then show ?thesis using card u Some by (simp add: excess_def deg inc)
    qed (simp add: excess_def deg)
  qed
next
  case False
  then have "snd (inner_complete ord now t s) = s" by (auto simp: inner_complete_def split: option.split)
  then show ?thesis by simp
qed

lemma inner_fail_excess: "excess (snd (inner_fail ord t s)) u = excess s u"
proof (cases "fmlookup (dag_states s) t \<in> {Some Pending, Some Ready, Some Running}")
  case True
  let ?st = "cascade ord (dag_successors s) [t] (fmupd t TaskFailed (dag_states s))"
  have "only_fails (dag_states s) ?st"
    by (rule only_fails_trans [OF only_fails_upd [OF True] cascade_only_fails]) simp
  then have "fmlookup ?st d = Some TaskCompleted \<longleftrightarrow> fmlookup (dag_states s) d = Some TaskCompleted" for d
    using only_failsD [of "dag_states s" ?st d] by auto
  then show ?thesis by (intro excess_cong) (simp_all add: inner_fail_ok [OF True] incomplete_def)
next
  case False
  then show ?thesis using inner_fail_error [OF False] by simp
qed

lemma set_attempt_excess: "excess (set_attempt t a s) u = excess s u"
  by (rule excess_cong) (auto simp: set_attempt_def incomplete_def deps_of_attempt split: option.split)

lemma make_ready_excess:
  "fmlookup (dag_states s) t \<noteq> Some TaskCompleted \<Longrightarrow> excess (make_ready now t s) u = excess s u"
  by (rule excess_cong) (auto simp: make_ready_def incomplete_def Let_def split: option.split)

lemma inner_requeue_excess: "dag_inv s \<Longrightarrow> excess (snd (inner_requeue now t a s)) u = excess s u"
  by (cases "fmlookup (dag_states s) t = Some Running")
    (simp_all add: inner_requeue_running inner_requeue_other make_ready_excess set_attempt_excess)

lemma pop_loop_frame:
  "dag_tasks (snd (pop_loop s h skipped)) = dag_tasks s \<and> dag_in_degree (snd (pop_loop s h skipped)) = dag_in_degree s
   \<and> dag_successors (snd (pop_loop s h skipped)) = dag_successors s"
proof (induction s h skipped rule: pop_loop.induct)
  case (1 s h skipped)
  then show ?case by (subst (1 2 3) pop_loop.simps) (auto split: option.split)
qed

lemma age_ready_frame2 [simp]:
  "dag_in_degree (age_ready now s) = dag_in_degree s" "dag_successors (age_ready now s) = dag_successors s"
  by (auto simp: age_ready_def split: prod.splits)

lemma inner_dequeue_frame [simp]:
  "dag_tasks (snd (inner_dequeue now s)) = dag_tasks s"
  "dag_in_degree (snd (inner_dequeue now s)) = dag_in_degree s"
  "dag_successors (snd (inner_dequeue now s)) = dag_successors s"
  using pop_loop_frame [of "age_ready now s" "dag_ready (age_ready now s)" "[]"]
  by (simp_all add: inner_dequeue_def Let_def split_beta)

text \<open>The states after \<open>dequeue\<close>: at most one ready task started.\<close>

lemma inner_dequeue_states:
  "dag_states (snd (inner_dequeue now s)) = dag_states s \<or>
   (\<exists>t. fmlookup (dag_states s) t = Some Ready
      \<and> dag_states (snd (inner_dequeue now s)) = fmupd t Running (dag_states s))"
proof -
  obtain r s' where p: "pop_loop (age_ready now s) (dag_ready (age_ready now s)) [] = (r, s')" by fastforce
  from pop_loop_chosen [OF p] show ?thesis
    by (cases r) (auto simp: inner_dequeue_def Let_def p chosen_def startable_def)
qed

lemma inner_dequeue_excess: "excess (snd (inner_dequeue now s)) u = excess s u"
  using inner_dequeue_states [of now s] by (intro excess_cong) (auto simp: incomplete_def split: if_splits)

text \<open>Enqueueing a task leaves the excess of the others; its own is fixed by its dependencies.\<close>

lemma admitted_frame [simp]:
  "dag_tasks (admitted now task s) = fmupd (td_task_id task) task (dag_tasks s)"
  "dag_states (admitted now task s)
     = fmupd (td_task_id task) (if td_dependencies task = [] then Ready else Pending) (dag_states s)"
  "dag_in_degree (admitted now task s)
     = fmupd (td_task_id task) (length (td_dependencies task)) (dag_in_degree s)"
  by (simp_all add: admitted_def Let_def)

lemma inner_enqueue_cases:
  assumes inv: "dag_inv s" and ord: "hash_order ord"
  obtains (rejected) e where "inner_enqueue ord now task s
        = (Err e, s\<lparr>dag_successors := dag_successors (snd (inner_enqueue ord now task s))\<rparr>)"
  | (admitted) "inner_enqueue ord now task s = (Ok (), admitted now task s)"
      "fmlookup (dag_tasks s) (td_task_id task) = None" "td_task_id task \<notin> set (td_dependencies task)"
      "set (td_dependencies task) \<subseteq> fmdom' (dag_tasks s)"
proof (cases "fmlookup (dag_tasks s) (td_task_id task)")
  case None
  let ?ts = "fmupd (td_task_id task) task (dag_tasks s)"
  have g: "graph_ok s" using inv by (simp add: dag_inv_def dag_inv_during_def)
  show ?thesis
  proof (cases "find (\<lambda>d. fmlookup ?ts d = None) (td_dependencies task)")
    case f: None
    note sub = find_unknown_None [OF f]
    show ?thesis
    proof (cases "detect_cycle ord ?ts = None")
      case True
      then have "td_task_id task \<notin> set (td_dependencies task)"
        using acyclic_fresh_iff [OF g None sub] detect_cycle_None_iff [OF ord] by simp
      then show ?thesis using admitted [OF inner_enqueue_ok [OF None f True] None] sub by blast
    qed (use rejected inner_enqueue_cyclic [OF None f] in simp)
  qed (use rejected inner_enqueue_unknown [OF None] in simp)
qed (use rejected inner_enqueue_dup in simp)

lemma incomplete_admitted:
  assumes inv: "dag_inv s" and "fmlookup (dag_tasks s) (td_task_id task) = None"
    and "td_task_id task \<notin> set (td_dependencies task)"
  shows "incomplete (admitted now task s) u = (if u = td_task_id task
    then {d \<in> set (td_dependencies task). fmlookup (dag_states s) d \<noteq> Some TaskCompleted} else incomplete s u)"
proof (cases "u = td_task_id task")
  case True
  then show ?thesis using assms(3) by (auto simp: incomplete_def deps_of_def)
next
  case False
  have g: "graph_ok s" using inv by (simp add: dag_inv_def dag_inv_during_def)
  have "td_task_id task \<notin> set (deps_of (dag_tasks s) u)"
    using deps_in_dom [OF g, of "td_task_id task" u] assms(2) fmdom'_lookup by fastforce
  then show ?thesis using False by (auto simp: incomplete_def deps_of_def)
qed

lemma inner_enqueue_excess:
  assumes inv: "dag_inv s" and ord: "hash_order ord" and u: "fmlookup (dag_tasks s) u \<noteq> None"
  shows "excess (snd (inner_enqueue ord now task s)) u = excess s u"
proof (rule inner_enqueue_cases [OF inv ord, of now task])
  fix e assume "inner_enqueue ord now task s
    = (Err e, s\<lparr>dag_successors := dag_successors (snd (inner_enqueue ord now task s))\<rparr>)"
  then have "\<exists>m. snd (inner_enqueue ord now task s) = s\<lparr>dag_successors := m\<rparr>" by (metis snd_conv)
  then show ?thesis by (intro excess_cong) (auto simp: incomplete_def)
next
  assume "inner_enqueue ord now task s = (Ok (), admitted now task s)"
    and new: "fmlookup (dag_tasks s) (td_task_id task) = None" "td_task_id task \<notin> set (td_dependencies task)"
  then show ?thesis using u incomplete_admitted [OF inv new, of now u]
    by (intro excess_cong) auto
qed

lemma dag_step_excess:
  assumes "dag_inv s" "hash_order ord" "fmlookup (dag_tasks s) u \<noteq> None"
  shows "excess (dag_step ord oper s) u = excess s u"
  using assms by (cases oper) (simp_all add: inner_enqueue_excess inner_dequeue_excess inner_complete_excess
      inner_fail_excess inner_requeue_excess, auto simp: incomplete_def intro!: excess_cong
      simp: set_fairness_policy_def set_starvation_policy_def)

subsection \<open>A started task has in-degree zero\<close>

definition started_zero :: "Inner \<Rightarrow> bool" where
  "started_zero s \<longleftrightarrow> (\<forall>t. fmlookup (dag_states s) t \<in> {Some Ready, Some Running, Some TaskCompleted} \<longrightarrow>
     fmlookup (dag_in_degree s) t \<in> {None, Some 0})"

lemma started_zeroD:
  "started_zero s \<Longrightarrow> fmlookup (dag_states s) t \<in> {Some Ready, Some Running, Some TaskCompleted}
   \<Longrightarrow> fmlookup (dag_in_degree s) t \<in> {None, Some 0}"
  unfolding started_zero_def by blast

lemma started_zero_mono:
  assumes "started_zero s" "dag_in_degree s' = dag_in_degree s"
    and "\<And>t. fmlookup (dag_states s') t \<in> {Some Ready, Some Running, Some TaskCompleted} \<Longrightarrow>
      fmlookup (dag_states s) t \<in> {Some Ready, Some Running, Some TaskCompleted}"
  shows "started_zero s'"
  unfolding started_zero_def assms(2) using started_zeroD [OF assms(1)] assms(3) by blast

lemma unblock_started_zero: "started_zero s \<Longrightarrow> started_zero (unblock now x s)"
  unfolding started_zero_def unblock_states unblock_in_degree by (auto split: if_splits)

lemma fold_unblock_started_zero: "started_zero s \<Longrightarrow> started_zero (fold (unblock now) xs s)"
  by (induction xs arbitrary: s) (simp_all add: unblock_started_zero)

lemma inner_complete_started_zero: "started_zero s \<Longrightarrow> started_zero (snd (inner_complete ord now t s))"
proof (cases "fmlookup (dag_states s) t = Some Running")
  case True
  assume z: "started_zero s"
  have "started_zero (release_running t (s\<lparr>dag_states := fmupd t TaskCompleted (dag_states s)\<rparr>))"
    by (rule started_zero_mono [OF z]) (use True in \<open>auto split: if_splits\<close>)
  then show ?thesis using True by (simp add: inner_complete_def Let_def fold_unblock_started_zero)
qed (auto simp: inner_complete_def split: option.split)

lemma inner_fail_started_zero: "started_zero s \<Longrightarrow> started_zero (snd (inner_fail ord t s))"
proof (cases "fmlookup (dag_states s) t \<in> {Some Pending, Some Ready, Some Running}")
  case True
  assume z: "started_zero s"
  let ?st = "cascade ord (dag_successors s) [t] (fmupd t TaskFailed (dag_states s))"
  have of: "only_fails (dag_states s) ?st"
    by (rule only_fails_trans [OF only_fails_upd [OF True] cascade_only_fails]) simp
  show ?thesis
  proof (rule started_zero_mono [OF z])
    fix u assume "fmlookup (dag_states (snd (inner_fail ord t s))) u \<in> {Some Ready, Some Running, Some TaskCompleted}"
    then show "fmlookup (dag_states s) u \<in> {Some Ready, Some Running, Some TaskCompleted}"
      using only_failsD [OF of, of u] unfolding inner_fail_ok(2) [OF True] by auto
  qed (simp add: inner_fail_ok(5) [OF True])
qed (simp add: inner_fail_error)

lemma inner_requeue_started_zero:
  assumes inv: "dag_inv s" and z: "started_zero s"
  shows "started_zero (snd (inner_requeue now t a s))"
proof -
  have z': "started_zero (set_attempt t a s)"
    by (rule started_zero_mono [OF z], simp add: set_attempt_def split: option.split) simp
  show ?thesis
  proof (cases "fmlookup (dag_states s) t = Some Running")
    case True
    have "started_zero (make_ready now t (set_attempt t a s))"
      by (rule started_zero_mono [OF z'])
        (use True in \<open>auto simp: make_ready_def Let_def split: option.splits if_splits\<close>)
    then show ?thesis by (simp add: inner_requeue_running [OF inv True])
  qed (simp add: inner_requeue_other z')
qed

lemma dag_step_started_zero:
  assumes "dag_inv s" "hash_order ord" "started_zero s"
  shows "started_zero (dag_step ord oper s)"
proof (cases oper)
  case (OpEnqueue now task)
  show ?thesis
  proof (rule inner_enqueue_cases [OF assms(1,2), of now task])
    fix e assume "inner_enqueue ord now task s
      = (Err e, s\<lparr>dag_successors := dag_successors (snd (inner_enqueue ord now task s))\<rparr>)"
    then have "\<exists>m. snd (inner_enqueue ord now task s) = s\<lparr>dag_successors := m\<rparr>" by (metis snd_conv)
    then show ?thesis using OpEnqueue by (auto intro: started_zero_mono [OF assms(3)])
  next
    assume "inner_enqueue ord now task s = (Ok (), admitted now task s)"
    then show ?thesis using OpEnqueue assms(3) by (auto simp: started_zero_def)
  qed
next
  case (OpDequeue now)
  have "started_zero (snd (inner_dequeue now s))"
    using inner_dequeue_states [of now s]
    by (intro started_zero_mono [OF assms(3)]) (auto split: if_splits)
  then show ?thesis using OpDequeue by simp
qed (use assms in \<open>simp_all add: inner_complete_started_zero inner_fail_started_zero inner_requeue_started_zero,
       simp_all add: started_zero_def set_fairness_policy_def set_starvation_policy_def\<close>)

lemma dag_reachable_started_zero: "dag_reachable s \<Longrightarrow> started_zero s"
proof (induction rule: dag_reachable.induct)
  case (start s c f p)
  then have "dag_states s = fmempty" by (metis Inner.select_convs(2) Inner.surjective Inner.update_convs(10) inner_new_with_policies_def)
  then show ?case by (simp add: started_zero_def)
next
  case (step s ord oper)
  then show ?case using dag_step_started_zero [OF dag_reachable_inv] by blast
qed

subsection \<open>A task with a positive excess never starts\<close>

lemma dag_steps_excess:
  assumes ord: "hash_order ord" and "dag_reachable s" "fmlookup (dag_tasks s) t \<noteq> None"
  shows "dag_reachable (fold (dag_step ord) ops s) \<and> excess (fold (dag_step ord) ops s) t = excess s t"
  using assms(2,3)
proof (induction ops arbitrary: s)
  case (Cons oper ops)
  let ?s = "dag_step ord oper s"
  have inv: "dag_inv s" by (rule dag_reachable_inv [OF Cons.prems(1)])
  have r: "dag_reachable ?s" using Cons.prems(1) ord by (rule dag_reachable.step)
  have "fmlookup (dag_tasks ?s) t \<noteq> None"
  proof (cases oper)
    case (OpEnqueue now task)
    show ?thesis
    proof (rule inner_enqueue_cases [OF inv ord, of now task])
      fix e assume "inner_enqueue ord now task s
        = (Err e, s\<lparr>dag_successors := dag_successors (snd (inner_enqueue ord now task s))\<rparr>)"
      then have "\<exists>m. snd (inner_enqueue ord now task s) = s\<lparr>dag_successors := m\<rparr>" by (metis snd_conv)
      then show ?thesis using OpEnqueue Cons.prems(2) by auto
    next
      assume "inner_enqueue ord now task s = (Ok (), admitted now task s)"
      then show ?thesis using OpEnqueue Cons.prems(2) by auto
    qed
  next
    case (OpFail u)
    then show ?thesis using Cons.prems(2) inner_fail_ok(3) [of s u ord] inner_fail_error [of s u ord]
      by (cases "fmlookup (dag_states s) u \<in> {Some Pending, Some Ready, Some Running}") simp_all
  qed (use Cons.prems(2) in \<open>auto simp: inner_complete_def inner_requeue_def Let_def
        set_fairness_policy_def set_starvation_policy_def split: option.split\<close>)
  then show ?case using Cons.IH [OF r] dag_step_excess [OF inv ord Cons.prems(2), of oper] by simp
qed simp

lemma positive_excess_not_started:
  assumes "dag_reachable s" "excess s t > 0"
  shows "fmlookup (dag_states s) t \<notin> {Some Ready, Some Running, Some TaskCompleted}"
proof
  assume "fmlookup (dag_states s) t \<in> {Some Ready, Some Running, Some TaskCompleted}"
  then have "fmlookup (dag_in_degree s) t \<in> {None, Some 0}"
    by (rule started_zeroD [OF dag_reachable_started_zero [OF assms(1)]])
  then show False using assms(2) by (auto simp: excess_def)
qed

lemma card_filter_less:
  assumes "\<not> distinct xs \<or> (\<exists>x \<in> set xs. \<not> P x)"
  shows "card {x \<in> set xs. P x} < length xs"
proof (cases "distinct xs")
  case True
  then have "{x \<in> set xs. P x} \<subset> set xs" using assms by auto
  then have "card {x \<in> set xs. P x} < card (set xs)" by (intro psubset_card_mono) auto
  then show ?thesis using card_length [of xs] by linarith
next
  case False
  then have "card (set xs) < length xs"
    using card_length [of xs] card_distinct [of xs] by fastforce
  moreover have "card {x \<in> set xs. P x} \<le> card (set xs)" by (rule card_mono) auto
  ultimately show ?thesis by linarith
qed

lemma admitted_excess:
  assumes "dag_inv s" "fmlookup (dag_tasks s) (td_task_id task) = None"
    "td_task_id task \<notin> set (td_dependencies task)"
  shows "excess (admitted now task s) (td_task_id task) = int (length (td_dependencies task))
    - int (card {d \<in> set (td_dependencies task). fmlookup (dag_states s) d \<noteq> Some TaskCompleted})"
  using incomplete_admitted [OF assms, of now "td_task_id task"] by (simp add: excess_def)

text \<open>
  C7: a task that \<open>enqueue\<close> accepts although one of its dependencies has already completed, or
  although it lists a dependency twice, is never started: no later sequence of calls makes it
  ready, running or completed. (The in-degree counts the list of dependencies, and only later
  completions, one for each distinct dependency, count it down.)
\<close>

theorem late_dependent_never_starts:
  assumes r: "dag_reachable s" and ord: "hash_order ord"
    and ok: "inner_enqueue ord now task s = (Ok (), s')"
    and late: "\<not> distinct (td_dependencies task)
      \<or> (\<exists>d \<in> set (td_dependencies task). fmlookup (dag_states s) d = Some TaskCompleted)"
  shows "fmlookup (dag_states (fold (dag_step ord) ops s')) (td_task_id task)
    \<notin> {Some Ready, Some Running, Some TaskCompleted}"
proof (rule inner_enqueue_cases [OF dag_reachable_inv [OF r] ord, of now task])
  fix e assume "inner_enqueue ord now task s
    = (Err e, s\<lparr>dag_successors := dag_successors (snd (inner_enqueue ord now task s))\<rparr>)"
  then show ?thesis using ok by simp
next
  assume e: "inner_enqueue ord now task s = (Ok (), admitted now task s)"
    and new: "fmlookup (dag_tasks s) (td_task_id task) = None" "td_task_id task \<notin> set (td_dependencies task)"
  have s': "s' = dag_step ord (OpEnqueue now task) s" using ok by simp
  have r': "dag_reachable s'" unfolding s' using r ord by (rule dag_reachable.step)
  have "excess s' (td_task_id task) > 0"
    using admitted_excess [OF dag_reachable_inv [OF r] new, of now] late ok e
      card_filter_less [of "td_dependencies task" "\<lambda>d. fmlookup (dag_states s) d \<noteq> Some TaskCompleted"] by auto
  moreover have "fmlookup (dag_tasks s') (td_task_id task) \<noteq> None" using ok e by auto
  ultimately show ?thesis
    using dag_steps_excess [OF ord r', of "td_task_id task" ops] positive_excess_not_started by metis
qed

theorem late_dependent_never_starts_witness:
  "\<exists>s'. inner_enqueue sorted_list_of_set 30 (example_task 3 [TaskId 1] Critical) example_completed = (Ok (), s')
     \<and> (\<forall>ops. fmlookup (dag_states (fold (dag_step sorted_list_of_set) ops s')) (TaskId 3)
          \<notin> {Some Ready, Some Running, Some TaskCompleted})"
proof -
  let ?t = "example_task 3 [TaskId 1] Critical"
  have ok: "fst (inner_enqueue sorted_list_of_set 30 ?t example_completed) = Ok ()"
    by (simp add: example_defs dag_eval)
  obtain s' where s': "inner_enqueue sorted_list_of_set 30 ?t example_completed = (Ok (), s')"
    using ok by (metis prod.collapse)
  have "fmlookup (dag_states (fold (dag_step sorted_list_of_set) ops s')) (td_task_id ?t)
      \<notin> {Some Ready, Some Running, Some TaskCompleted}" for ops
    by (rule late_dependent_never_starts [OF example_reachable(3) hash_order_sorted s'])
      (simp add: example_defs example_task_def)
  then show ?thesis using s' by (auto simp: example_task_def)
qed

subsection \<open>Progress\<close>

text \<open>
  The calls of a client that never enqueues a task after one of its dependencies has finished,
  and never lists a dependency twice.
\<close>

definition timely :: "DagOp \<Rightarrow> Inner \<Rightarrow> bool" where
  "timely oper s = (case oper of
     OpEnqueue now task \<Rightarrow> distinct (td_dependencies task) \<and>
       (\<forall>d \<in> set (td_dependencies task).
          fmlookup (dag_states s) d \<notin> {Some TaskCompleted, Some TaskFailed, Some DependencyFailed})
   | _ \<Rightarrow> True)"

inductive timely_reachable :: "Inner \<Rightarrow> bool" where
  start: "timely_reachable (inner_new_with_policies f p)"
| start_pool: "timely_reachable ((inner_new_with_policies f p)\<lparr>dag_resource_pool := Some (pool_new c)\<rparr>)"
| step: "timely_reachable s \<Longrightarrow> hash_order ord \<Longrightarrow> timely oper s \<Longrightarrow> timely_reachable (dag_step ord oper s)"

lemma timely_reachable_reachable: "timely_reachable s \<Longrightarrow> dag_reachable s"
proof (induction rule: timely_reachable.induct)
  case (start f p)
  show ?case by (rule dag_reachable.start [where c = undefined and f = f and p = p]) (simp_all add: inner_new_with_policies_def)
next
  case (start_pool c f p)
  show ?case by (rule dag_reachable.start [where c = c and f = f and p = p]) (simp_all add: inner_new_with_policies_def)
qed (rule dag_reachable.step)

text \<open>No pending task waits for a failed one.\<close>

definition unfailed :: "Inner \<Rightarrow> bool" where
  "unfailed s \<longleftrightarrow> (\<forall>u d. fmlookup (dag_states s) u = Some Pending \<longrightarrow> d \<in> set (deps_of (dag_tasks s) u) \<longrightarrow>
     fmlookup (dag_states s) d \<notin> {Some TaskFailed, Some DependencyFailed})"

lemma unfailed_mono:
  assumes "unfailed s" "deps_of (dag_tasks s') = deps_of (dag_tasks s)"
    and "\<And>u. fmlookup (dag_states s') u = Some Pending \<Longrightarrow> fmlookup (dag_states s) u = Some Pending"
    and "\<And>d. fmlookup (dag_states s') d \<in> {Some TaskFailed, Some DependencyFailed} \<Longrightarrow>
           fmlookup (dag_states s) d \<in> {Some TaskFailed, Some DependencyFailed}"
  shows "unfailed s'"
  using assms unfolding unfailed_def by metis

lemma fold_unblock_states:
  "fmlookup (dag_states (fold (unblock now) xs s)) u = fmlookup (dag_states s) u
   \<or> fmlookup (dag_states s) u = Some Pending \<and> fmlookup (dag_states (fold (unblock now) xs s)) u = Some Ready"
proof (induction xs arbitrary: s)
  case (Cons x xs)
  show ?case using Cons [of "unblock now x s"] unblock_states [of now x s u] by (auto split: if_splits)
qed simp

lemma inner_complete_unfailed:
  assumes z: "unfailed s"
  shows "unfailed (snd (inner_complete ord now t s))"
proof (cases "fmlookup (dag_states s) t = Some Running")
  case True
  let ?s = "release_running t (s\<lparr>dag_states := fmupd t TaskCompleted (dag_states s)\<rparr>)"
  have "unfailed ?s" by (rule unfailed_mono [OF z]) (auto split: if_splits)
  then have "unfailed (fold (unblock now) xs ?s)" for xs
  proof (rule unfailed_mono)
    fix u show "fmlookup (dag_states (fold (unblock now) xs ?s)) u = Some Pending \<Longrightarrow>
        fmlookup (dag_states ?s) u = Some Pending" using fold_unblock_states [of now xs ?s u] by auto
    show "fmlookup (dag_states (fold (unblock now) xs ?s)) u \<in> {Some TaskFailed, Some DependencyFailed} \<Longrightarrow>
        fmlookup (dag_states ?s) u \<in> {Some TaskFailed, Some DependencyFailed}"
      using fold_unblock_states [of now xs ?s u] by auto
  qed simp
  then show ?thesis using True by (simp add: inner_complete_def Let_def)
next
  case False
  then show ?thesis using z by (auto simp: inner_complete_def split: option.split)
qed

lemma inner_fail_unfailed:
  assumes inv: "dag_inv s" and ord: "hash_order ord" and z: "unfailed s"
  shows "unfailed (snd (inner_fail ord t s))"
proof (cases "fmlookup (dag_states s) t \<in> {Some Pending, Some Ready, Some Running}")
  case True
  have g: "graph_ok s" using inv by (simp add: dag_inv_def dag_inv_during_def)
  let ?W = "waits (dag_successors s) (live_states (dag_states s) - {t})"
  let ?A = "waiting (dag_successors s) (live_states (dag_states s) - {t}) {t}"
  note look = inner_fail_lookup [OF g ord True]
  show ?thesis
    unfolding unfailed_def inner_fail_ok(3) [OF True]
  proof (intro allI impI notI)
    fix u d
    assume u: "fmlookup (dag_states (snd (inner_fail ord t s))) u = Some Pending"
      and d: "d \<in> set (deps_of (dag_tasks s) u)"
      and bad: "fmlookup (dag_states (snd (inner_fail ord t s))) d \<in> {Some TaskFailed, Some DependencyFailed}"
    have u': "fmlookup (dag_states s) u = Some Pending" "u \<noteq> t" "u \<notin> ?A"
      using u by (auto simp: look split: if_splits)
    have "(d, u) \<in> ?W" using g d u' by (simp add: waits_def graph_ok_def successors_of_succ_set live_states_def)
    then have "d \<noteq> t" "d \<notin> ?A" using u'(3) by (auto simp: waiting_def intro: trancl_into_trancl)
    then have "fmlookup (dag_states s) d \<in> {Some TaskFailed, Some DependencyFailed}" using bad by (simp add: look)
    then show False using z u'(1) d unfolding unfailed_def by blast
  qed
next
  case False
  then show ?thesis using z inner_fail_error [OF False] by simp
qed

lemma dag_step_unfailed:
  assumes inv: "dag_inv s" and ord: "hash_order ord" and z: "unfailed s" and t: "timely oper s"
  shows "unfailed (dag_step ord oper s)"
proof (cases oper)
  case (OpEnqueue now task)
  show ?thesis
  proof (rule inner_enqueue_cases [OF inv ord, of now task])
    fix e assume "inner_enqueue ord now task s
      = (Err e, s\<lparr>dag_successors := dag_successors (snd (inner_enqueue ord now task s))\<rparr>)"
    then have "\<exists>m. snd (inner_enqueue ord now task s) = s\<lparr>dag_successors := m\<rparr>" by (metis snd_conv)
    then show ?thesis using OpEnqueue by (auto intro: unfailed_mono [OF z])
  next
    assume e: "inner_enqueue ord now task s = (Ok (), admitted now task s)"
    have deps: "deps_of (fmupd (td_task_id task) task (dag_tasks s)) u
        = (if u = td_task_id task then td_dependencies task else deps_of (dag_tasks s) u)" for u
      by (simp add: deps_of_def)
    show ?thesis using OpEnqueue e t z by (auto simp: unfailed_def timely_def deps split: if_splits)
  qed
next
  case (OpDequeue now)
  have "unfailed (snd (inner_dequeue now s))"
    using inner_dequeue_states [of now s]
    by (intro unfailed_mono [OF z]) (auto split: if_splits)
  then show ?thesis using OpDequeue by simp
next
  case (OpRequeue now u a)
  have z': "unfailed (set_attempt u a s)"
    by (rule unfailed_mono [OF z]) (auto simp: set_attempt_def deps_of_attempt split: option.splits)
  have "unfailed (make_ready now u (set_attempt u a s))"
    by (rule unfailed_mono [OF z']) (auto simp: make_ready_def Let_def split: option.splits if_splits)
  then show ?thesis using OpRequeue z'
    by (cases "fmlookup (dag_states s) u = Some Running")
      (simp_all add: inner_requeue_running [OF inv] inner_requeue_other)
qed (use assms in \<open>simp_all add: inner_complete_unfailed inner_fail_unfailed,
       simp_all add: unfailed_def set_fairness_policy_def set_starvation_policy_def\<close>)

lemma timely_unfailed: "timely_reachable s \<Longrightarrow> unfailed s"
proof (induction rule: timely_reachable.induct)
  case (step s ord oper)
  then show ?case
    using dag_step_unfailed dag_reachable_inv timely_reachable_reachable by blast
qed (simp_all add: unfailed_def inner_new_with_policies_def)

lemma dag_step_exact:
  assumes inv: "dag_inv s" and ord: "hash_order ord" and t: "timely oper s" and z: "\<forall>u. excess s u = 0"
  shows "excess (dag_step ord oper s) u = 0"
proof (cases "fmlookup (dag_tasks s) u = None \<and> fmlookup (dag_tasks (dag_step ord oper s)) u \<noteq> None")
  case False
  have inv': "dag_inv (dag_step ord oper s)" by (rule dag_step_inv [OF inv ord])
  show ?thesis
  proof (cases "fmlookup (dag_tasks s) u")
    case None
    then have "fmlookup (dag_tasks (dag_step ord oper s)) u = None" using False by simp
    then have "fmlookup (dag_in_degree (dag_step ord oper s)) u = None"
      using inv' graph_ok_keys(2) [of "dag_step ord oper s" u] by (simp add: dag_inv_def dag_inv_during_def)
    then show ?thesis by (simp add: excess_def)
  qed (use dag_step_excess [OF inv ord] z in simp)
next
  case True
  then obtain now task where oper: "oper = OpEnqueue now task"
    by (cases oper) (auto simp: inner_complete_def inner_requeue_def inner_fail_def Let_def release_running_def
        set_fairness_policy_def set_starvation_policy_def split: option.splits if_splits)
  show ?thesis
  proof (rule inner_enqueue_cases [OF inv ord, of now task])
    fix e assume "inner_enqueue ord now task s
      = (Err e, s\<lparr>dag_successors := dag_successors (snd (inner_enqueue ord now task s))\<rparr>)"
    then have "\<exists>m. snd (inner_enqueue ord now task s) = s\<lparr>dag_successors := m\<rparr>" by (metis snd_conv)
    then show ?thesis using oper True by auto
  next
    assume e: "inner_enqueue ord now task s = (Ok (), admitted now task s)"
      and new: "fmlookup (dag_tasks s) (td_task_id task) = None" "td_task_id task \<notin> set (td_dependencies task)"
    have u: "u = td_task_id task" using True oper e by (auto split: if_splits)
    have "{d \<in> set (td_dependencies task). fmlookup (dag_states s) d \<noteq> Some TaskCompleted}
        = set (td_dependencies task)" using t oper by (auto simp: timely_def)
    moreover have "card (set (td_dependencies task)) = length (td_dependencies task)"
      using t oper by (simp add: timely_def distinct_card)
    ultimately show ?thesis using admitted_excess [OF inv new, of now] oper e u by simp
  qed
qed

lemma timely_exact: "timely_reachable s \<Longrightarrow> excess s u = 0"
proof (induction arbitrary: u rule: timely_reachable.induct)
  case (step s ord oper)
  then show ?case
    using dag_step_exact dag_reachable_inv timely_reachable_reachable by blast
qed (simp_all add: excess_def inner_new_with_policies_def)

lemma pending_waits:
  assumes r: "timely_reachable s" and u: "fmlookup (dag_states s) u = Some Pending"
  obtains d where "(u, d) \<in> dag_edges (dag_tasks s)"
    "fmlookup (dag_states s) d \<in> {Some Pending, Some Ready, Some Running}"
proof -
  have inv: "dag_inv s" by (rule dag_reachable_inv [OF timely_reachable_reachable [OF r]])
  then have g: "graph_ok s" and d: "degrees_ok {} s" by (simp_all add: dag_inv_def dag_inv_during_def)
  obtain deg where deg: "fmlookup (dag_in_degree s) u = Some deg"
    using graph_ok_keys(1,2) [OF g, of u] u by (cases "fmlookup (dag_in_degree s) u") auto
  have "deg \<noteq> 0" using degrees_ok_pending [OF d u] deg by simp
  moreover have "int deg - int (card (incomplete s u)) = 0"
    using timely_exact [OF r, of u] deg by (simp only: excess_def option.case)
  ultimately have card: "card (incomplete s u) \<noteq> 0" by linarith
  have "incomplete s u \<noteq> {}"
  proof
    assume "incomplete s u = {}"
    then show False using card by (simp only: card.empty)
  qed
  then obtain x where x: "x \<in> incomplete s u" by blast
  then have dep: "x \<in> set (deps_of (dag_tasks s) u)" "fmlookup (dag_states s) x \<noteq> Some TaskCompleted"
    by (auto simp: incomplete_def)
  have dom: "x \<in> fmdom' (dag_tasks s)" using deps_in_dom [OF g dep(1)] by simp
  have "fmlookup (dag_states s) x \<notin> {Some TaskFailed, Some DependencyFailed}"
    using timely_unfailed [OF r] u dep(1) unfolding unfailed_def by blast
  moreover obtain r where "fmlookup (dag_states s) x = Some r"
    using graph_ok_keys(1) [OF g, of x] dom fmdom'_lookup by fastforce
  ultimately have "fmlookup (dag_states s) x \<in> {Some Pending, Some Ready, Some Running}"
    using dep(2) by (cases r) auto
  then show ?thesis using that dep(1) dom by (auto simp: dag_edges_def)
qed

text \<open>
  When dependents are always enqueued before their dependencies finish, the scheduler never
  gets stuck: as long as some task is pending, some task is ready or running.
\<close>

lemma no_deadlock:
  assumes "timely_reachable s" and "fmlookup (dag_states s) t = Some Pending"
  shows "\<exists>u. fmlookup (dag_states s) u \<in> {Some Ready, Some Running}"
proof -
  have inv: "dag_inv s" by (rule dag_reachable_inv [OF timely_reachable_reachable [OF assms(1)]])
  have "finite (dag_edges (dag_tasks s))"
    by (rule finite_subset [of _ "fmdom' (dag_tasks s) \<times> fmdom' (dag_tasks s)"])
      (use dag_edges_dom in \<open>auto simp: finite_fmdom'\<close>)
  then have "wf ((dag_edges (dag_tasks s))\<inverse>)"
    using inv by (intro finite_acyclic_wf_converse) (auto simp: dag_inv_defs)
  then show ?thesis using assms(2)
  proof (induction t rule: wf_induct_rule)
    case (less t)
    obtain d where d: "(t, d) \<in> dag_edges (dag_tasks s)"
      "fmlookup (dag_states s) d \<in> {Some Pending, Some Ready, Some Running}"
      using pending_waits [OF assms(1) less.prems] by blast
    then show ?case using less.IH [of d] by auto
  qed
qed

lemma example_timely: "timely_reachable example_enqueued"
proof -
  have "timely_reachable inner_new" unfolding inner_new_def by (rule timely_reachable.start)
  then have one: "timely_reachable (dag_step sorted_list_of_set (OpEnqueue 0 example_first) inner_new)"
    by (rule timely_reachable.step [OF _ hash_order_sorted])
      (simp add: timely_def example_first_def example_task_def)
  show ?thesis unfolding example_step_enqueue [symmetric]
    by (rule timely_reachable.step [OF one hash_order_sorted])
      (simp add: timely_def example_defs dag_eval)
qed

end
