(* ===== verification/DagResources.thy ===== *)
theory DagResources
  imports DagProgress
begin

text \<open>
  Resource accounting of the DAG scheduler: the pool's use of memory and GPU cores stays within
  its configuration; a requeued task keeps the allocation of its failed attempt.
\<close>

subsection \<open>The pool stays within its configuration\<close>

definition pool_ok :: "ResourcePool \<Rightarrow> bool" where
  "pool_ok p \<longleftrightarrow> used_memory_mb p \<le> max_memory_mb (rp_config p)
     \<and> used_gpu_cores p \<le> max_gpu_cores (rp_config p)"

definition within_pool :: "Inner \<Rightarrow> bool" where
  "within_pool s \<longleftrightarrow> (case dag_resource_pool s of None \<Rightarrow> True | Some p \<Rightarrow> pool_ok p)"

lemma pool_new_ok: "pool_ok (pool_new c)"
  by (simp add: pool_ok_def pool_new_def)

lemma pool_allocate_ok: "can_fit p req \<Longrightarrow> pool_ok (pool_allocate p req)"
  by (simp add: pool_ok_def pool_allocate_def can_fit_def)

lemma pool_release_ok: "pool_ok p \<Longrightarrow> pool_ok (pool_release p req)"
  unfolding pool_ok_def pool_release_def by (auto intro: order_trans [OF saturating_sub_le])

lemma within_pool_cong: "dag_resource_pool s' = dag_resource_pool s \<Longrightarrow> within_pool s' = within_pool s"
  by (simp add: within_pool_def)

lemma release_running_within: "within_pool s \<Longrightarrow> within_pool (release_running t s)"
  by (auto simp: within_pool_def release_running_def pool_release_ok split: option.split)

lemma start_task_within:
  assumes "fits s task" shows "within_pool (start_task e task s)"
  using assms by (auto simp: within_pool_def start_task_def fits_def Let_def pool_allocate_ok split: option.splits)

lemma pop_loop_within: "within_pool s \<Longrightarrow> within_pool (snd (pop_loop s h skipped))"
proof (induction s h skipped rule: pop_loop.induct)
  case (1 s h skipped)
  have ready: "within_pool (s'\<lparr>dag_ready := es\<rparr>) = within_pool s'" for s' es by (simp add: within_pool_def)
  show ?case using 1 by (subst pop_loop.simps) (auto simp: ready start_task_within split: option.split)
qed

lemma fold_unblock_pool [simp]: "dag_resource_pool (fold (unblock now) xs s) = dag_resource_pool s"
  by (induction xs arbitrary: s) (simp_all add: unblock_def make_ready_def Let_def split: option.split)

lemma dag_step_within:
  assumes "within_pool s" shows "within_pool (dag_step ord oper s)"
proof (cases oper)
  case (OpEnqueue now task)
  have "dag_resource_pool (snd (inner_enqueue ord now task s)) = dag_resource_pool s"
    by (auto simp: inner_enqueue_def Let_def split: option.split)
  then show ?thesis using OpEnqueue assms by (simp add: within_pool_def)
next
  case (OpDequeue now)
  have "within_pool (age_ready now s)" using assms by (simp add: within_pool_def)
  then show ?thesis using OpDequeue pop_loop_within [of "age_ready now s" "dag_ready (age_ready now s)" "[]"]
    by (simp add: inner_dequeue_def Let_def split_beta)
next
  case (OpComplete now t)
  let ?s = "release_running t (s\<lparr>dag_states := fmupd t TaskCompleted (dag_states s)\<rparr>)"
  have "within_pool ?s" by (rule release_running_within) (use assms in \<open>simp add: within_pool_def\<close>)
  then have "within_pool (fold (unblock now) xs ?s)" for xs by (simp add: within_pool_def)
  then show ?thesis using OpComplete assms by (auto simp: inner_complete_def Let_def split: option.split)
next
  case (OpFail t)
  let ?s = "s\<lparr>dag_states := fmupd t TaskFailed (dag_states s)\<rparr>"
  have s: "within_pool ?s" using assms by (simp add: within_pool_def)
  then have r: "within_pool (release_running t ?s)" by (rule release_running_within)
  have frame: "within_pool (s'\<lparr>dag_states := st\<rparr>) = within_pool s'" for s' st by (simp add: within_pool_def)
  show ?thesis using OpFail s r assms
    by (auto simp: inner_fail_def Let_def frame split: option.split)
next
  case (OpRequeue now t a)
  have "dag_resource_pool (snd (inner_requeue now t a s)) = dag_resource_pool s"
    by (auto simp: inner_requeue_def Let_def split: option.split)
  then show ?thesis using OpRequeue assms by (simp add: within_pool_def)
qed (use assms in \<open>simp_all add: within_pool_def set_fairness_policy_def set_starvation_policy_def\<close>)

text \<open>
  C11: with a configured resource pool, the memory and GPU cores the scheduler accounts as
  in use never exceed the configured maximum, under any sequence of calls.
\<close>

theorem pool_never_overcommitted:
  assumes "dag_reachable s" and "dag_resource_pool s = Some p"
  shows "used_memory_mb p \<le> max_memory_mb (rp_config p) \<and> used_gpu_cores p \<le> max_gpu_cores (rp_config p)"
proof -
  have "within_pool s" using assms(1)
  proof (induction rule: dag_reachable.induct)
    case (start s c f p)
    then show ?case using pool_new_ok by (auto simp: within_pool_def)
  qed (rule dag_step_within)
  then show ?thesis using assms(2) by (simp add: within_pool_def pool_ok_def)
qed

subsection \<open>A requeued task keeps its allocation\<close>

text \<open>
  \<open>requeue\<close> of a running task makes it ready again but returns nothing to the pool; if what is
  left of the memory while the task runs is too small for it, the retried task is not started
  by the next \<open>dequeue\<close>, although its failed attempt is over.
\<close>

lemma requeue_keeps_allocation:
  assumes r: "dag_reachable s" and t: "fmlookup (dag_states s) t = Some Running"
    and task: "fmlookup (dag_tasks s) t = Some task" and p: "dag_resource_pool s = Some p"
    and small: "max_memory_mb (rp_config p) < used_memory_mb p + memory_mb (td_resources task)"
  shows "fmlookup (dag_states (snd (inner_requeue now t a s))) t = Some Ready
    \<and> dag_resource_pool (snd (inner_requeue now t a s)) = Some p
    \<and> (\<forall>task'. fst (inner_dequeue now' (snd (inner_requeue now t a s))) = Ok (Some task') \<longrightarrow> td_task_id task' \<noteq> t)"
proof -
  let ?r = "snd (inner_requeue now t a s)"
  have state: "fmlookup (dag_states ?r) t = Some Ready" using t task by (simp add: inner_requeue_def Let_def)
  have pool: "dag_resource_pool ?r = Some p" using t task p by (simp add: inner_requeue_def Let_def)
  have tasks: "dag_tasks ?r = fmupd t (task\<lparr>td_attempt := a\<rparr>) (dag_tasks s)"
    using t task by (simp add: inner_requeue_def Let_def)
  have inv: "dag_inv ?r" by (rule inner_requeue_inv [OF dag_reachable_inv [OF r]])
  then have g: "graph_ok ?r" by (simp add: dag_inv_def dag_inv_during_def)
  have "td_task_id task' \<noteq> t" if d: "fst (inner_dequeue now' ?r) = Ok (Some task')" for task'
  proof
    assume id: "td_task_id task' = t"
    obtain x s' where pl: "pop_loop (age_ready now' ?r) (dag_ready (age_ready now' ?r)) [] = (x, s')" by fastforce
    then have "x = Some task'" using d by (simp add: inner_dequeue_def Let_def)
    then obtain e where e: "startable (age_ready now' ?r) e" "fmlookup (dag_tasks ?r) (re_task_id e) = Some task'"
      using pop_loop_chosen [OF pl] by (auto simp: chosen_def)
    then have "re_task_id e = t" using graph_ok_task [OF g e(2)] id by simp
    then have "fits (age_ready now' ?r) (task\<lparr>td_attempt := a\<rparr>)" using e(1) by (simp add: startable_def tasks)
    then show False using small pool by (auto simp: fits_def can_fit_def dest: leD)
  qed
  then show ?thesis using state pool by blast
qed

text \<open>A pool of 256 MB and a task that needs all of it.\<close>

definition example_pool :: ResourceConfig where
  "example_pool = resource_config_new (Fin 8) 256 0"

definition example_big :: TaskDescriptor where
  "example_big = (example_task 1 [] High)\<lparr>td_resources := \<lparr>cpu_cores = Fin 0, memory_mb = 256, gpu_cores = 0\<rparr>\<rparr>"

definition example_big_running :: Inner where
  "example_big_running = fold (dag_step sorted_list_of_set) [OpEnqueue 0 example_big, OpDequeue 7]
     (inner_new_with_resource_config example_pool)"

lemma example_big_reachable: "dag_reachable example_big_running"
proof -
  note step = dag_reachable.step [OF _ hash_order_sorted]
  have "dag_reachable (inner_new_with_resource_config example_pool)"
    by (rule dag_reachable.start [where c = example_pool])
      (simp_all add: inner_new_with_resource_config_def inner_new_def inner_new_with_policies_def)
  then show ?thesis unfolding example_big_running_def by (simp only: fold_simps id_apply) (intro step)
qed

lemma example_big_eval:
  "fmlookup (dag_states example_big_running) (TaskId 1) = Some Running"
  "fmlookup (dag_tasks example_big_running) (TaskId 1) = Some example_big"
  "dag_resource_pool example_big_running = Some \<lparr>rp_config = example_pool, used_cpu = Fin 0,
     used_memory_mb = 256, used_gpu_cores = 0\<rparr>"
  by (simp_all add: example_big_running_def example_big_def example_pool_def resource_config_new_def
      inner_new_with_resource_config_def pool_new_def can_fit_def pool_allocate_def dag_eval)

theorem pool_never_overcommitted_witness:
  "(256 :: u32) \<le> max_memory_mb example_pool"
  using pool_never_overcommitted [OF example_big_reachable example_big_eval(3)] by simp

end
