(* ===== verification/DagRefinement.thy ===== *)
theory DagRefinement
  imports DagProgress DagResources DagExample
begin

text \<open>
  An abstract scheduler, whose state is the task graph and the state of each task and whose
  readiness is read off the dependencies, and the proof that the DAG scheduler with its in-degree
  counters, successor sets, heap, metadata and resource pool implements it.
\<close>

subsection \<open>The abstract scheduler\<close>

record TaskGraph =
  tg_tasks :: "(TaskId, TaskDescriptor) fmap"
  tg_states :: "(TaskId, TaskState) fmap"

datatype DagResult = Called "CoreError + unit" | Handed "CoreError + TaskDescriptor option"

definition enqueue_error :: "TaskDescriptor \<Rightarrow> TaskGraph \<Rightarrow> CoreError option" where
  "enqueue_error task g =
    (if td_task_id task \<in> fmdom' (tg_tasks g) then Some (DuplicateTask (td_task_id task))
     else case find (\<lambda>d. d \<notin> insert (td_task_id task) (fmdom' (tg_tasks g))) (td_dependencies task) of
       Some d \<Rightarrow> Some (UnknownDependency d)
     | None \<Rightarrow> if td_task_id task \<in> set (td_dependencies task) then Some (CyclicDependency (td_task_id task)) else None)"

definition finished :: "TaskGraph \<Rightarrow> TaskId \<Rightarrow> bool" where
  "finished g d \<longleftrightarrow> fmlookup (tg_states g) d = Some TaskCompleted"

text \<open>The pending tasks whose last unfinished dependency is \<open>t\<close> become ready when \<open>t\<close> completes.\<close>

definition completed_by :: "TaskId \<Rightarrow> TaskGraph \<Rightarrow> TaskId \<Rightarrow> TaskState \<Rightarrow> TaskState" where
  "completed_by t g u st =
    (if u = t then TaskCompleted
     else if st = Pending \<and> (\<forall>d \<in> set (deps_of (tg_tasks g) u). d = t \<or> finished g d) then Ready else st)"

text \<open>The chains of pending and ready dependents along which a failure travels.\<close>

definition live_edges :: "TaskId \<Rightarrow> TaskGraph \<Rightarrow> (TaskId \<times> TaskId) set" where
  "live_edges t g = {(d, u). d \<in> set (deps_of (tg_tasks g) u) \<and> u \<noteq> t
     \<and> fmlookup (tg_states g) u \<in> {Some Pending, Some Ready}}"

definition failed_by :: "TaskId \<Rightarrow> TaskGraph \<Rightarrow> TaskId \<Rightarrow> TaskState \<Rightarrow> TaskState" where
  "failed_by t g u st = (if u = t then TaskFailed else if (t, u) \<in> (live_edges t g)\<^sup>+ then DependencyFailed else st)"

definition retried :: "TaskId \<Rightarrow> u32 \<Rightarrow> TaskGraph \<Rightarrow> TaskGraph" where
  "retried t attempt g = g\<lparr>tg_tasks := (case fmlookup (tg_tasks g) t of None \<Rightarrow> tg_tasks g
     | Some task \<Rightarrow> fmupd t (task\<lparr>td_attempt := attempt\<rparr>) (tg_tasks g))\<rparr>"

text \<open>
  One call. The flag says whether there is a resource pool: with one, \<open>dequeue\<close> may return nothing
  although a task is ready.
\<close>

inductive spec_call :: "bool \<Rightarrow> DagOp \<Rightarrow> TaskGraph \<Rightarrow> DagResult \<Rightarrow> TaskGraph \<Rightarrow> bool" for limited :: bool where
  rejected: "enqueue_error task g = Some e \<Longrightarrow> spec_call limited (OpEnqueue now task) g (Called (Err e)) g"
| accepted: "enqueue_error task g = None \<Longrightarrow>
    spec_call limited (OpEnqueue now task) g (Called (Ok ()))
      (g\<lparr>tg_tasks := fmupd (td_task_id task) task (tg_tasks g),
         tg_states := fmupd (td_task_id task)
           (if \<forall>d \<in> set (td_dependencies task). finished g d then Ready else Pending) (tg_states g)\<rparr>)"
| handed_out: "fmlookup (tg_states g) t = Some Ready \<Longrightarrow> fmlookup (tg_tasks g) t = Some task \<Longrightarrow>
    spec_call limited (OpDequeue now) g (Handed (Ok (Some task))) (g\<lparr>tg_states := fmupd t Running (tg_states g)\<rparr>)"
| nothing: "limited \<or> (\<forall>t. fmlookup (tg_states g) t \<noteq> Some Ready) \<Longrightarrow>
    spec_call limited (OpDequeue now) g (Handed (Ok None)) g"
| completed: "fmlookup (tg_states g) t = Some Running \<Longrightarrow>
    spec_call limited (OpComplete now t) g (Called (Ok ())) (g\<lparr>tg_states := fmmap_keys (completed_by t g) (tg_states g)\<rparr>)"
| not_completed: "fmlookup (tg_states g) t \<noteq> Some Running \<Longrightarrow>
    spec_call limited (OpComplete now t) g (Called (Err (Internal msg))) g"
| failed: "fmlookup (tg_states g) t \<in> {Some Pending, Some Ready, Some Running} \<Longrightarrow>
    spec_call limited (OpFail t) g (Called (Ok ())) (g\<lparr>tg_states := fmmap_keys (failed_by t g) (tg_states g)\<rparr>)"
| not_failed: "fmlookup (tg_states g) t \<notin> {Some Pending, Some Ready, Some Running} \<Longrightarrow>
    spec_call limited (OpFail t) g (Called (Err (Internal msg))) g"
| requeued: "fmlookup (tg_states g) t = Some Running \<Longrightarrow>
    spec_call limited (OpRequeue now t attempt) g (Called (Ok ()))
      ((retried t attempt g)\<lparr>tg_states := fmupd t Ready (tg_states g)\<rparr>)"
| only_attempt: "fmlookup (tg_states g) t \<noteq> Some Running \<Longrightarrow>
    spec_call limited (OpRequeue now t attempt) g (Called (Ok ())) (retried t attempt g)"
| fairness: "spec_call limited (OpSetFairness p) g (Called (Ok ())) g"
| starvation: "spec_call limited (OpSetStarvation q) g (Called (Ok ())) g"

primrec spec_calls :: "bool \<Rightarrow> DagOp list \<Rightarrow> TaskGraph \<Rightarrow> DagResult list \<Rightarrow> TaskGraph \<Rightarrow> bool" where
  "spec_calls limited [] g rs g' \<longleftrightarrow> rs = [] \<and> g' = g"
| "spec_calls limited (oper # ops) g rs g' \<longleftrightarrow>
     (\<exists>r g1 rs'. rs = r # rs' \<and> spec_call limited oper g r g1 \<and> spec_calls limited ops g1 rs' g')"

subsection \<open>The scheduler's calls with their results\<close>

fun dag_call :: "(TaskId set \<Rightarrow> TaskId list) \<Rightarrow> DagOp \<Rightarrow> Inner \<Rightarrow> DagResult \<times> Inner" where
  "dag_call ord (OpEnqueue now task) s = (case inner_enqueue ord now task s of (r, s') \<Rightarrow> (Called r, s'))"
| "dag_call ord (OpDequeue now) s = (case inner_dequeue now s of (r, s') \<Rightarrow> (Handed r, s'))"
| "dag_call ord (OpComplete now t) s = (case inner_complete ord now t s of (r, s') \<Rightarrow> (Called r, s'))"
| "dag_call ord (OpFail t) s = (case inner_fail ord t s of (r, s') \<Rightarrow> (Called r, s'))"
| "dag_call ord (OpRequeue now t attempt) s = (case inner_requeue now t attempt s of (r, s') \<Rightarrow> (Called r, s'))"
| "dag_call ord (OpSetFairness p) s = (Called (Ok ()), set_fairness_policy p s)"
| "dag_call ord (OpSetStarvation q) s = (Called (Ok ()), set_starvation_policy q s)"

lemma dag_call_step: "snd (dag_call ord oper s) = dag_step ord oper s"
  by (cases oper) (simp_all add: split_beta)

fun dag_calls :: "(TaskId set \<Rightarrow> TaskId list) \<Rightarrow> DagOp list \<Rightarrow> Inner \<Rightarrow> DagResult list \<times> Inner" where
  "dag_calls ord [] s = ([], s)"
| "dag_calls ord (oper # ops) s =
     (case dag_call ord oper s of (r, s1) \<Rightarrow> case dag_calls ord ops s1 of (rs, s2) \<Rightarrow> (r # rs, s2))"

fun timely_calls :: "(TaskId set \<Rightarrow> TaskId list) \<Rightarrow> DagOp list \<Rightarrow> Inner \<Rightarrow> bool" where
  "timely_calls ord [] s = True"
| "timely_calls ord (oper # ops) s \<longleftrightarrow> timely oper s \<and> timely_calls ord ops (dag_step ord oper s)"

text \<open>The abstraction.\<close>

definition task_graph :: "Inner \<Rightarrow> TaskGraph" where
  "task_graph s = \<lparr>tg_tasks = dag_tasks s, tg_states = dag_states s\<rparr>"

lemma task_graph_simps [simp]: "tg_tasks (task_graph s) = dag_tasks s" "tg_states (task_graph s) = dag_states s"
  by (simp_all add: task_graph_def)

subsection \<open>Each call implements the abstract one\<close>

text \<open>In a timely run the counters are exact: a task is pending as long as a dependency is unfinished.\<close>

lemma timely_pending_iff:
  assumes r: "timely_reachable s" and u: "fmlookup (dag_states s) u \<in> {Some Pending, Some Ready}"
  shows "fmlookup (dag_states s) u = Some Ready \<longleftrightarrow> (\<forall>d \<in> set (deps_of (dag_tasks s) u). fmlookup (dag_states s) d = Some TaskCompleted)"
proof (cases "fmlookup (dag_states s) u = Some Ready")
  case True
  have "degrees_ok {} s" using dag_reachable_inv [OF timely_reachable_reachable [OF r]] by (simp add: dag_inv_def dag_inv_during_def)
  then have "incomplete s u = {}" using degrees_ok_started True by blast
  then show ?thesis using True by (auto simp: incomplete_def)
next
  case False
  then obtain d where "(u, d) \<in> dag_edges (dag_tasks s)" "fmlookup (dag_states s) d \<in> {Some Pending, Some Ready, Some Running}"
    using pending_waits [OF r] u by blast
  then have "d \<in> set (deps_of (dag_tasks s) u)" "fmlookup (dag_states s) d \<noteq> Some TaskCompleted"
    by (auto simp: dag_edges_def)
  then show ?thesis using False by blast
qed

lemma complete_refines:
  assumes r: "timely_reachable s" and ord: "hash_order ord" and t: "fmlookup (dag_states s) t = Some Running"
  shows "fst (inner_complete ord now t s) = Ok () \<and> dag_tasks (snd (inner_complete ord now t s)) = dag_tasks s
    \<and> dag_states (snd (inner_complete ord now t s)) = fmmap_keys (completed_by t (task_graph s)) (dag_states s)"
proof -
  let ?s2 = "release_running t (s\<lparr>dag_states := fmupd t TaskCompleted (dag_states s)\<rparr>)"
  obtain xs where xs: "inner_complete ord now t s = (Ok (), fold (unblock now) xs ?s2)"
    using t by (simp add: inner_complete_def Let_def)
  let ?s' = "fold (unblock now) xs ?s2"
  have "timely_reachable (dag_step ord (OpComplete now t) s)"
    by (rule timely_reachable.step [OF r ord]) (simp add: timely_def)
  then have r': "timely_reachable ?s'" using xs by simp
  have tasks: "dag_tasks ?s' = dag_tasks s" by simp
  have done': "fmlookup (dag_states ?s') d = Some TaskCompleted \<longleftrightarrow> d = t \<or> fmlookup (dag_states s) d = Some TaskCompleted" for d
    by (simp add: fold_unblock_completed)
  have "fmlookup (dag_states ?s') u = map_option (completed_by t (task_graph s) u) (fmlookup (dag_states s) u)" for u
  proof (cases "u \<noteq> t \<and> fmlookup (dag_states s) u = Some Pending")
    case False
    then show ?thesis using fold_unblock_states [of now xs ?s2 u] t by (cases "fmlookup (dag_states s) u") (auto simp: completed_by_def split: if_splits)
  next
    case True
    then have u: "fmlookup (dag_states ?s') u \<in> {Some Pending, Some Ready}" using fold_unblock_states [of now xs ?s2 u] by auto
    show ?thesis using timely_pending_iff [OF r' u] True u unfolding done' tasks
      by (auto simp: completed_by_def finished_def)
  qed
  then have "dag_states ?s' = fmmap_keys (completed_by t (task_graph s)) (dag_states s)" by (intro fmap_ext) simp
  then show ?thesis using xs tasks by simp
qed

lemma fail_refines:
  assumes inv: "dag_inv s" and ord: "hash_order ord" and t: "fmlookup (dag_states s) t \<in> {Some Pending, Some Ready, Some Running}"
  shows "fst (inner_fail ord t s) = Ok () \<and> dag_tasks (snd (inner_fail ord t s)) = dag_tasks s
    \<and> dag_states (snd (inner_fail ord t s)) = fmmap_keys (failed_by t (task_graph s)) (dag_states s)"
proof -
  have g: "graph_ok s" using inv by (simp add: dag_inv_def dag_inv_during_def)
  have edges: "waits (dag_successors s) (live_states (dag_states s) - {t}) = live_edges t (task_graph s)"
    using g by (auto simp: waits_def live_edges_def live_states_def graph_ok_def successors_of_succ_set)
  have live: "fmlookup (dag_states s) u \<noteq> None" if "(t, u) \<in> (live_edges t (task_graph s))\<^sup>+" for u
    using that by (cases rule: trancl.cases) (auto simp: live_edges_def)
  have "fmlookup (dag_states (snd (inner_fail ord t s))) u = map_option (failed_by t (task_graph s) u) (fmlookup (dag_states s) u)" for u
    using inner_fail_lookup [OF g ord t, of u] t live [of u] unfolding waiting_def edges
    by (cases "fmlookup (dag_states s) u") (auto simp: failed_by_def)
  then have "dag_states (snd (inner_fail ord t s)) = fmmap_keys (failed_by t (task_graph s)) (dag_states s)"
    by (intro fmap_ext) simp
  then show ?thesis using inner_fail_ok [OF t] by simp
qed

lemma enqueue_refines:
  assumes inv: "dag_inv s" and ord: "hash_order ord" and t: "timely (OpEnqueue now task) s"
    and r: "inner_enqueue ord now task s = (r, s')"
  shows "spec_call limited (OpEnqueue now task) (task_graph s) (Called r) (task_graph s')"
proof (cases "enqueue_error task (task_graph s)")
  case (Some e)
  then have "r = Err e" "same_view s s'"
    using inner_enqueue_result [OF inv ord, of now task] unfolding r enqueue_error_def by (auto split: option.splits if_splits)
  moreover from this have "task_graph s' = task_graph s" unfolding same_view_def task_graph_def
    by (metis Inner.select_convs(1,2) Inner.surjective Inner.update_convs(3))
  ultimately show ?thesis using Some by (simp add: spec_call.rejected)
next
  case None
  then have ok: "r = Ok ()"
    using inner_enqueue_result [OF inv ord, of now task] unfolding r enqueue_error_def by (auto split: option.splits if_splits)
  have "(\<forall>d \<in> set (td_dependencies task). finished (task_graph s) d) \<longleftrightarrow> td_dependencies task = []"
    using t by (cases "td_dependencies task") (auto simp: timely_def finished_def)
  moreover have "s' = admitted now task s"
    using r ok by (cases rule: inner_enqueue_cases [OF inv ord, of now task]) auto
  ultimately have "task_graph s' = (task_graph s)\<lparr>tg_tasks := fmupd (td_task_id task) task (tg_tasks (task_graph s)),
      tg_states := fmupd (td_task_id task)
        (if \<forall>d \<in> set (td_dependencies task). finished (task_graph s) d then Ready else Pending) (tg_states (task_graph s))\<rparr>"
    by (simp add: task_graph_def)
  then show ?thesis using spec_call.accepted [OF None, of limited now] ok by simp
qed

lemma requeue_refines:
  assumes inv: "dag_inv s"
  shows "spec_call limited (OpRequeue now t a) (task_graph s) (Called (Ok ())) (task_graph (snd (inner_requeue now t a s)))"
proof -
  have set: "task_graph (set_attempt t a s) = retried t a (task_graph s)"
    by (simp add: set_attempt_def retried_def task_graph_def split: option.split)
  show ?thesis
  proof (cases "fmlookup (dag_states s) t = Some Running")
    case True
    have "task_graph (make_ready now t (set_attempt t a s)) = (retried t a (task_graph s))\<lparr>tg_states := fmupd t Ready (dag_states s)\<rparr>"
      unfolding set [symmetric] by (simp add: make_ready_def task_graph_def Let_def split: option.split)
    then show ?thesis using spec_call.requeued [of "task_graph s" t limited now a] True inner_requeue_running [OF inv True] by simp
  next
    case False
    then show ?thesis using spec_call.only_attempt [of "task_graph s" t limited now a] inner_requeue_other [OF False] set by simp
  qed
qed

lemma dag_call_refines:
  assumes r: "timely_reachable s" and ord: "hash_order ord" and t: "timely oper s" and c: "dag_call ord oper s = (res, s')"
  shows "spec_call (dag_resource_pool s \<noteq> None) oper (task_graph s) res (task_graph s')"
proof -
  have inv: "dag_inv s" by (rule dag_reachable_inv [OF timely_reachable_reachable [OF r]])
  show ?thesis
  proof (cases oper)
    case (OpEnqueue now task)
    then show ?thesis using enqueue_refines [OF inv ord] t c by (auto split: prod.splits)
  next
    case (OpDequeue now)
    obtain q where q: "inner_dequeue now s = (q, s')" "res = Handed q" using c OpDequeue by (auto split: prod.splits)
    have tasks: "dag_tasks s' = dag_tasks s" using inner_dequeue_frame(1) [of now s] q by simp
    from inner_dequeue_pick [OF inv q(1)] show ?thesis
    proof (elim disjE conjE exE)
      assume "q = Ok None" "dag_states s' = dag_states s"
        "dag_resource_pool s = None \<longrightarrow> (\<forall>t. fmlookup (dag_states s) t \<noteq> Some Ready)"
      then show ?thesis using tasks q(2) OpDequeue by (simp add: task_graph_def) (auto intro: spec_call.nothing)
    next
      fix u task assume "fmlookup (dag_states s) u = Some Ready" "fmlookup (dag_tasks s) u = Some task" "q = Ok (Some task)"
        "dag_states s' = fmupd u Running (dag_states s)"
      then show ?thesis using spec_call.handed_out [of "task_graph s" u task "dag_resource_pool s \<noteq> None" now] tasks q(2) OpDequeue
        by (simp add: task_graph_def)
    qed
  next
    case (OpComplete now u)
    show ?thesis
    proof (cases "fmlookup (dag_states s) u = Some Running")
      case True
      then show ?thesis using complete_refines [OF r ord True, of now] c OpComplete
          spec_call.completed [of "task_graph s" u "dag_resource_pool s \<noteq> None" now]
        by (auto simp: task_graph_def split: prod.splits)
    next
      case False
      then have "\<exists>msg. inner_complete ord now u s = (Err (Internal msg), s)"
        by (auto simp: inner_complete_def split: option.split)
      then show ?thesis using False c OpComplete spec_call.not_completed [of "task_graph s" u "dag_resource_pool s \<noteq> None" now] by auto
    qed
  next
    case (OpFail u)
    show ?thesis
    proof (cases "fmlookup (dag_states s) u \<in> {Some Pending, Some Ready, Some Running}")
      case True
      then show ?thesis using fail_refines [OF inv ord True] c OpFail
          spec_call.failed [of "task_graph s" u "dag_resource_pool s \<noteq> None"]
        by (auto simp: task_graph_def split: prod.splits)
    next
      case False
      then have "\<exists>msg. inner_fail ord u s = (Err (Internal msg), s)"
        by (auto simp: inner_fail_def Let_def split: option.split)
      then show ?thesis using False c OpFail spec_call.not_failed [of "task_graph s" u "dag_resource_pool s \<noteq> None"] by auto
    qed
  next
    case (OpRequeue now u a)
    have "fst (inner_requeue now u a s) = Ok ()" by (simp add: inner_requeue_def Let_def)
    then show ?thesis using requeue_refines [OF inv, of _ now u a] c OpRequeue by (auto split: prod.splits)
  next
    case (OpSetFairness p)
    then show ?thesis using c by (auto simp: task_graph_def set_fairness_policy_def intro: spec_call.fairness)
  next
    case (OpSetStarvation p)
    then show ?thesis using c by (auto simp: task_graph_def set_starvation_policy_def intro: spec_call.starvation)
  qed
qed

text \<open>No call adds or removes the resource pool.\<close>

lemma pop_loop_pool: "dag_resource_pool (snd (pop_loop s h skipped)) = None \<longleftrightarrow> dag_resource_pool s = None"
proof (induction s h skipped rule: pop_loop.induct)
  case (1 s h skipped)
  then show ?case by (subst pop_loop.simps) (auto simp: start_task_def Let_def split: option.split)
qed

lemma dag_step_pool: "dag_resource_pool (dag_step ord oper s) = None \<longleftrightarrow> dag_resource_pool s = None"
proof (cases oper)
  case (OpDequeue now)
  then show ?thesis using pop_loop_pool [of "age_ready now s" "dag_ready (age_ready now s)" "[]"]
    by (simp add: inner_dequeue_def Let_def split_beta)
qed (auto simp: inner_enqueue_def inner_complete_def inner_fail_def inner_requeue_def release_running_def
    set_fairness_policy_def set_starvation_policy_def Let_def split: option.split)

text \<open>
  C5: the DAG scheduler implements the abstract scheduler. Whatever calls a client makes that enqueues
  dependents in time, with whatever clock readings and hash orders, their results and the task graph and
  task states afterwards are those of a run of the abstract scheduler, in which a task becomes ready
  exactly when the last of its dependencies completes, failures reach exactly the live dependents,
  and without a resource pool a dequeue returns nothing only when no task is ready.
\<close>

theorem dag_implements_task_graph:
  assumes "timely_reachable s" and ord: "hash_order ord" and "timely_calls ord ops s" and "dag_calls ord ops s = (rs, s')"
  shows "spec_calls (dag_resource_pool s \<noteq> None) ops (task_graph s) rs (task_graph s')"
  using assms(1,3,4)
proof (induction ops arbitrary: s rs s')
  case (Cons oper ops)
  obtain r s1 where c: "dag_call ord oper s = (r, s1)" by fastforce
  obtain rs' s2 where cs: "dag_calls ord ops s1 = (rs', s2)" by fastforce
  have s1: "s1 = dag_step ord oper s" using dag_call_step [of ord oper s] c by simp
  have t: "timely oper s" "timely_calls ord ops s1" using Cons.prems(2) s1 by simp_all
  have "timely_reachable s1" unfolding s1 by (rule timely_reachable.step [OF Cons.prems(1) ord t(1)])
  from Cons.IH [OF this t(2) cs] have "spec_calls (dag_resource_pool s \<noteq> None) ops (task_graph s1) rs' (task_graph s2)"
    by (simp add: s1 dag_step_pool)
  moreover have "rs = r # rs'" "s' = s2" using Cons.prems(3) c cs by simp_all
  ultimately show ?case using dag_call_refines [OF Cons.prems(1) ord t(1) c] by auto
qed simp

theorem dag_implements_task_graph_witness:
  "spec_calls False [OpEnqueue 0 example_first, OpEnqueue 5 example_second, OpDequeue 7, OpComplete 9 (TaskId 1)]
     (task_graph inner_new)
     (fst (dag_calls sorted_list_of_set
        [OpEnqueue 0 example_first, OpEnqueue 5 example_second, OpDequeue 7, OpComplete 9 (TaskId 1)] inner_new))
     (task_graph example_completed)"
proof -
  let ?ops = "[OpEnqueue 0 example_first, OpEnqueue 5 example_second, OpDequeue 7, OpComplete 9 (TaskId 1)]"
  let ?s1 = "dag_step sorted_list_of_set (OpEnqueue 0 example_first) inner_new"
  have new: "timely_reachable inner_new" unfolding inner_new_def by (rule timely_reachable.start)
  have t: "timely (OpEnqueue 0 example_first) inner_new" by (simp add: timely_def example_first_def example_task_def)
  have t1: "timely (OpEnqueue 5 example_second) ?s1" by (simp add: timely_def example_defs dag_eval)
  have calls: "timely_calls sorted_list_of_set ?ops inner_new"
    using t t1 by (simp add: timely_def del: dag_step.simps)
  have fold: "snd (dag_calls sorted_list_of_set ops s) = fold (dag_step sorted_list_of_set) ops s" for ops s
    by (induction ops arbitrary: s) (simp_all add: split_beta dag_call_step)
  have "snd (dag_calls sorted_list_of_set ?ops inner_new) = example_completed"
    unfolding fold by (simp add: example_step_enqueue example_step_start example_step_complete del: dag_step.simps)
  then have "dag_calls sorted_list_of_set ?ops inner_new
      = (fst (dag_calls sorted_list_of_set ?ops inner_new), example_completed)"
    by (simp only: prod_eq_iff fst_conv snd_conv)
  moreover have "dag_resource_pool inner_new = None" by (simp add: inner_new_def inner_new_with_policies_def)
  ultimately show ?thesis
    using dag_implements_task_graph [OF new hash_order_sorted calls] by (simp only: not_None_eq) simp
qed

end
