(* ===== verification/DagDrain.thy ===== *)
theory DagDrain
  imports DagRefinement
begin

text \<open>
  A worker that takes tasks from the DAG scheduler and completes them works off the whole graph, in
  the order of the dependencies.
\<close>

subsection \<open>Rounds\<close>

text \<open>One round: a dequeue and the completion of what it hands out, with the two clock readings.\<close>

definition work_round :: "(TaskId set \<Rightarrow> TaskId list) \<Rightarrow> u64 \<times> u64 \<Rightarrow> Inner \<Rightarrow> TaskId option \<times> Inner" where
  "work_round ord clocks s =
     (case inner_dequeue (fst clocks) s of
        (Inr (Some task), s1) \<Rightarrow> (Some (td_task_id task), snd (inner_complete ord (snd clocks) (td_task_id task) s1))
      | (_, s1) \<Rightarrow> (None, s1))"

fun work_rounds :: "(TaskId set \<Rightarrow> TaskId list) \<Rightarrow> (u64 \<times> u64) list \<Rightarrow> Inner \<Rightarrow> TaskId option list \<times> Inner" where
  "work_rounds ord [] s = ([], s)"
| "work_rounds ord (c # cs) s =
     (case work_round ord c s of (r, s1) \<Rightarrow> case work_rounds ord cs s1 of (rs, s2) \<Rightarrow> (r # rs, s2))"

text \<open>A scheduler between two rounds.\<close>

definition at_rest :: "Inner \<Rightarrow> bool" where
  "at_rest s \<longleftrightarrow> timely_reachable s \<and> dag_resource_pool s = None \<and> (\<forall>t. fmlookup (dag_states s) t \<noteq> Some Running)"

definition unfinished :: "Inner \<Rightarrow> TaskId set" where
  "unfinished s = {t. fmlookup (dag_states s) t \<in> {Some Pending, Some Ready}}"

lemma finite_unfinished [simp]: "finite (unfinished s)"
  by (rule finite_subset [of _ "fmdom' (dag_states s)"]) (auto simp: unfinished_def fmdom'_lookup)

text \<open>A round finishes one task, whose dependencies are all finished.\<close>

lemma work_round_finishes:
  assumes s: "at_rest s" and ord: "hash_order ord" and todo: "unfinished s \<noteq> {}"
  shows "\<exists>t s'. work_round ord c s = (Some t, s') \<and> t \<in> unfinished s \<and> at_rest s' \<and> unfinished s' = unfinished s - {t}
    \<and> dag_tasks s' = dag_tasks s \<and> set (deps_of (dag_tasks s) t) \<inter> unfinished s = {}
    \<and> (\<forall>u. fmlookup (dag_states s') u = Some TaskCompleted \<longleftrightarrow> u = t \<or> fmlookup (dag_states s) u = Some TaskCompleted)"
proof -
  have r: "timely_reachable s" and pool: "dag_resource_pool s = None"
    and rest: "fmlookup (dag_states s) t \<noteq> Some Running" for t
    using s by (simp_all add: at_rest_def)
  have inv: "dag_inv s" by (rule dag_reachable_inv [OF timely_reachable_reachable [OF r]])
  obtain u where u: "fmlookup (dag_states s) u = Some Ready"
  proof -
    obtain v where "fmlookup (dag_states s) v \<in> {Some Pending, Some Ready}" using todo by (auto simp: unfinished_def)
    then show ?thesis using no_deadlock [OF r, of v] rest that by blast
  qed
  obtain q s1 where q: "inner_dequeue (fst c) s = (q, s1)" by fastforce
  have tasks1: "dag_tasks s1 = dag_tasks s" using inner_dequeue_frame(1) [of "fst c" s] q by simp
  obtain t task where t: "fmlookup (dag_states s) t = Some Ready" "fmlookup (dag_tasks s) t = Some task" "q = Ok (Some task)"
    "td_task_id task = t" "dag_states s1 = fmupd t Running (dag_states s)"
    using inner_dequeue_pick [OF inv q] pool u by blast
  have s1: "s1 = dag_step ord (OpDequeue (fst c)) s" using q by simp
  have r1: "timely_reachable s1" unfolding s1 by (rule timely_reachable.step [OF r ord]) (simp add: timely_def)
  have run: "fmlookup (dag_states s1) t = Some Running" using t(5) by simp
  let ?s' = "snd (inner_complete ord (snd c) t s1)"
  have s': "?s' = dag_step ord (OpComplete (snd c) t) s1" by simp
  have r': "timely_reachable ?s'" unfolding s' by (rule timely_reachable.step [OF r1 ord]) (simp add: timely_def)
  have st: "fmlookup (dag_states ?s') x = map_option (completed_by t (task_graph s1) x) (fmlookup (dag_states s1) x)" for x
    using complete_refines [OF r1 ord run, of "snd c"] by simp
  have other: "fmlookup (dag_states ?s') x = Some st' \<longleftrightarrow> (if x = t then st' = TaskCompleted
      else fmlookup (dag_states s) x = Some st')" if "st' \<notin> {Pending, Ready}" for x st'
    using that unfolding st t(5) by (cases "fmlookup (dag_states s) x") (auto simp: completed_by_def split: if_splits)
  have "dag_resource_pool ?s' = None"
    using dag_step_pool [of ord "OpDequeue (fst c)" s] dag_step_pool [of ord "OpComplete (snd c) t" s1] pool q by simp
  then have "at_rest ?s'" using r' other [of Running] rest by (simp add: at_rest_def)
  moreover have "unfinished ?s' = unfinished s - {t}" unfolding unfinished_def st t(5)
    by (auto simp: completed_by_def split: if_splits)
  moreover have "set (deps_of (dag_tasks s) t) \<inter> unfinished s = {}"
    using timely_pending_iff [OF r, of t] t(1) by (auto simp: unfinished_def)
  moreover have "work_round ord c s = (Some t, ?s')" using q t(3,4) by (simp add: work_round_def)
  moreover have "dag_tasks ?s' = dag_tasks s" using complete_refines [OF r1 ord run, of "snd c"] tasks1 by simp
  ultimately show ?thesis using other [of TaskCompleted] t(1) by (auto simp: unfinished_def)
qed

text \<open>
  C8: a worker that dequeues and completes works off the whole graph. When nothing is running and there is
  no resource pool, then after as many rounds as there are unfinished tasks every one of them is completed;
  each round hands out one of them, no task twice, and every task after all of its dependencies.
\<close>

theorem rounds_finish_graph:
  assumes "at_rest s" and ord: "hash_order ord" and "length cs = card (unfinished s)"
    and "work_rounds ord cs s = (rs, s')"
  shows "\<exists>ts. rs = map Some ts \<and> distinct ts \<and> set ts = unfinished s
    \<and> (\<forall>t \<in> unfinished s. fmlookup (dag_states s') t = Some TaskCompleted) \<and> unfinished s' = {}
    \<and> (\<forall>xs t ys. ts = xs @ t # ys \<longrightarrow> set (deps_of (dag_tasks s) t) \<inter> set (t # ys) = {})"
proof -
  have "\<exists>ts. rs = map Some ts \<and> distinct ts \<and> set ts = unfinished s
    \<and> (\<forall>t. fmlookup (dag_states s') t = Some TaskCompleted \<longleftrightarrow> t \<in> unfinished s \<or> fmlookup (dag_states s) t = Some TaskCompleted)
    \<and> unfinished s' = {}
    \<and> (\<forall>xs t ys. ts = xs @ t # ys \<longrightarrow> set (deps_of (dag_tasks s) t) \<inter> set (t # ys) = {})"
    using assms(1,3,4)
  proof (induction cs arbitrary: s rs)
    case Nil
    then show ?case by auto
  next
    case (Cons c cs)
    then have "unfinished s \<noteq> {}" by auto
    from work_round_finishes [OF Cons.prems(1) ord this, of c] obtain t s1 where
      one: "work_round ord c s = (Some t, s1)" "t \<in> unfinished s" "at_rest s1" "unfinished s1 = unfinished s - {t}"
        "dag_tasks s1 = dag_tasks s" "set (deps_of (dag_tasks s) t) \<inter> unfinished s = {}"
        "\<forall>u. fmlookup (dag_states s1) u = Some TaskCompleted \<longleftrightarrow> u = t \<or> fmlookup (dag_states s) u = Some TaskCompleted"
      by blast
    obtain rs1 where rs: "work_rounds ord cs s1 = (rs1, s')" "rs = Some t # rs1"
      using Cons.prems(3) one(1) by (auto split: prod.splits)
    have "length cs = card (unfinished s1)" using Cons.prems(2) one(2,4) by simp
    from Cons.IH [OF one(3) this rs(1)] obtain ts where
      ts: "rs1 = map Some ts" "distinct ts" "set ts = unfinished s1" "unfinished s' = {}"
        "\<forall>t. fmlookup (dag_states s') t = Some TaskCompleted \<longleftrightarrow> t \<in> unfinished s1 \<or> fmlookup (dag_states s1) t = Some TaskCompleted"
        "\<forall>xs x ys. ts = xs @ x # ys \<longrightarrow> set (deps_of (dag_tasks s) x) \<inter> set (x # ys) = {}"
      by (auto simp: one(5))
    have "set (deps_of (dag_tasks s) x) \<inter> set (x # ys) = {}" if "t # ts = xs @ x # ys" for xs x ys
    proof (cases xs)
      case Nil
      then show ?thesis using that one(2,4,6) ts(3) by auto
    next
      case (Cons z zs)
      then show ?thesis using that ts(6) by simp
    qed
    moreover have "set (t # ts) = unfinished s" using ts(3) one(2,4) by auto
    moreover have "distinct (t # ts)" using ts(2,3) one(4) by simp
    ultimately show ?case using ts(1,4,5) rs(2) one(2,4,7) by (intro exI [of _ "t # ts"]) auto
  qed
  then show ?thesis by blast
qed

theorem rounds_finish_graph_witness:
  "\<exists>ts. fst (work_rounds sorted_list_of_set [(7, 8), (9, 10)] example_enqueued) = map Some ts
    \<and> distinct ts \<and> set ts = {TaskId 1, TaskId 2}
    \<and> fmlookup (dag_states (snd (work_rounds sorted_list_of_set [(7, 8), (9, 10)] example_enqueued))) (TaskId 2) = Some TaskCompleted"
proof -
  have todo: "unfinished example_enqueued = {TaskId 1, TaskId 2}"
    by (auto simp: unfinished_def example_defs inner_new_def inner_new_with_policies_def split: if_splits)
  have rest: "at_rest example_enqueued"
    using example_timely by (auto simp: at_rest_def example_defs inner_new_def inner_new_with_policies_def split: if_splits)
  obtain rs s' where w: "work_rounds sorted_list_of_set [(7, 8), (9, 10)] example_enqueued = (rs, s')" by fastforce
  have "length [(7, 8), (9, 10 :: u64)] = card (unfinished example_enqueued)" by (simp add: todo)
  from rounds_finish_graph [OF rest hash_order_sorted _ w] todo w show ?thesis by auto
qed

end
