(* ===== verification/DagClients.thy ===== *)
theory DagClients
  imports DagRefinement
begin

text \<open>
  Programs that use the DAG scheduler, verified against the abstract scheduler alone. The unit tests
  of \<open>scheduler/src/dag.rs\<close> are such programs: what they assert is shown for all fresh identifiers,
  clock readings and hash orders, where the tests see one.
\<close>

subsection \<open>Clients\<close>

text \<open>A client ends with a verdict, or makes a call and goes on depending on its result.\<close>

datatype Client = Verdict bool | Call DagOp "DagResult \<Rightarrow> Client"

primrec run_client :: "(TaskId set \<Rightarrow> TaskId list) \<Rightarrow> Client \<Rightarrow> Inner \<Rightarrow> bool" where
  "run_client ord (Verdict b) s = b"
| "run_client ord (Call oper k) s = (case dag_call ord oper s of (r, s') \<Rightarrow> run_client ord (k r) s')"

text \<open>The calls of \<open>unwrap\<close>: a result that is an error ends the client.\<close>

definition unwrap :: "Client \<Rightarrow> DagResult \<Rightarrow> Client" where
  "unwrap k r = (case r of Called (Inr _) \<Rightarrow> k | _ \<Rightarrow> Verdict False)"

definition unwrap_task :: "(TaskDescriptor option \<Rightarrow> Client) \<Rightarrow> DagResult \<Rightarrow> Client" where
  "unwrap_task k r = (case r of Handed (Inr task) \<Rightarrow> k task | _ \<Rightarrow> Verdict False)"

definition unwrap_some :: "(TaskDescriptor \<Rightarrow> Client) \<Rightarrow> DagResult \<Rightarrow> Client" where
  "unwrap_some k r = (case r of Handed (Inr (Some task)) \<Rightarrow> k task | _ \<Rightarrow> Verdict False)"

definition if_task :: "(TaskDescriptor option \<Rightarrow> Client) \<Rightarrow> DagResult \<Rightarrow> Client" where
  "if_task k r = k (case r of Handed (Inr task) \<Rightarrow> task | _ \<Rightarrow> None)"

definition assert :: "bool \<Rightarrow> Client \<Rightarrow> Client" where
  "assert b k = (if b then k else Verdict False)"

lemma client_simps [simp]:
  "unwrap k (Called (Inr u)) = k" "unwrap k (Called (Inl e)) = Verdict False"
  "unwrap_task f (Handed (Inr task)) = f task" "unwrap_task f (Handed (Inl e)) = Verdict False"
  "unwrap_some h (Handed (Inr (Some t))) = h t" "unwrap_some h (Handed (Inr None)) = Verdict False"
  "if_task f (Handed (Inr task)) = f task" "if_task f (Handed (Inl e)) = f None"
  "assert True k = k" "assert False k = Verdict False"
  by (simp_all add: unwrap_def unwrap_task_def unwrap_some_def if_task_def assert_def)

subsection \<open>Reasoning with the abstract scheduler\<close>

definition timely_graph :: "DagOp \<Rightarrow> TaskGraph \<Rightarrow> bool" where
  "timely_graph oper g = (case oper of
     OpEnqueue now task \<Rightarrow> distinct (td_dependencies task) \<and>
       (\<forall>d \<in> set (td_dependencies task).
          fmlookup (tg_states g) d \<notin> {Some TaskCompleted, Some TaskFailed, Some DependencyFailed})
   | _ \<Rightarrow> True)"

lemma timely_graph [simp]: "timely_graph oper (task_graph s) = timely oper s"
  by (cases oper) (simp_all add: timely_graph_def timely_def)

text \<open>The client is timely and ends with a positive verdict in every run of the abstract scheduler.\<close>

primrec passes :: "bool \<Rightarrow> Client \<Rightarrow> TaskGraph \<Rightarrow> bool" where
  "passes limited (Verdict b) g = b"
| "passes limited (Call oper k) g \<longleftrightarrow> timely_graph oper g
     \<and> (\<forall>r g'. spec_call limited oper g r g' \<longrightarrow> passes limited (k r) g')"

lemma passes_run:
  assumes ord: "hash_order ord" and "timely_reachable s" and "passes (dag_resource_pool s \<noteq> None) c (task_graph s)"
  shows "run_client ord c s"
  using assms(2,3)
proof (induction c arbitrary: s)
  case (Call oper k)
  obtain r s' where c: "dag_call ord oper s = (r, s')" by fastforce
  have s': "s' = dag_step ord oper s" using dag_call_step [of ord oper s] c by simp
  have t: "timely oper s" using Call.prems(2) by simp
  have "timely_reachable s'" unfolding s' by (rule timely_reachable.step [OF Call.prems(1) ord t])
  moreover have "passes (dag_resource_pool s' \<noteq> None) (k r) (task_graph s')"
    using Call.prems(2) dag_call_refines [OF Call.prems(1) ord t c] dag_step_pool [of ord oper s] by (simp add: s' del: dag_step.simps)
  ultimately show ?case using Call.IH [OF rangeI, of s' r] c by simp
qed simp

definition empty_graph :: TaskGraph where
  "empty_graph = \<lparr>tg_tasks = fmempty, tg_states = fmempty\<rparr>"

text \<open>New schedulers without a resource pool.\<close>

lemma passes_new:
  assumes ord: "hash_order ord" and "passes False c empty_graph"
  shows "run_client ord c (inner_new_with_policies f p)"
  by (rule passes_run [OF ord timely_reachable.start])
    (use assms(2) in \<open>simp add: empty_graph_def task_graph_def inner_new_with_policies_def\<close>)

inductive_simps spec_call_simps:
  "spec_call limited (OpEnqueue now task) g r g'" "spec_call limited (OpDequeue now) g r g'"
  "spec_call limited (OpComplete now t) g r g'" "spec_call limited (OpFail t) g r g'"
  "spec_call limited (OpRequeue now t a) g r g'" "spec_call limited (OpSetFairness fp) g r g'"
  "spec_call limited (OpSetStarvation sp) g r g'"

lemma passes_enqueue [simp]:
  "passes limited (Call (OpEnqueue now task) k) g \<longleftrightarrow> timely_graph (OpEnqueue now task) g
     \<and> (case enqueue_error task g of
          Some e \<Rightarrow> passes limited (k (Called (Err e))) g
        | None \<Rightarrow> passes limited (k (Called (Ok ()))) (g\<lparr>tg_tasks := fmupd (td_task_id task) task (tg_tasks g),
            tg_states := fmupd (td_task_id task)
              (if \<forall>d \<in> set (td_dependencies task). finished g d then Ready else Pending) (tg_states g)\<rparr>))"
  by (auto simp: spec_call_simps split: option.split)

definition each_ready :: "(TaskId, TaskState) fmap \<Rightarrow> (TaskId \<Rightarrow> bool) \<Rightarrow> bool" where
  "each_ready m P \<longleftrightarrow> (\<forall>t. fmlookup m t = Some Ready \<longrightarrow> P t)"

definition set_running :: "TaskId \<Rightarrow> TaskGraph \<Rightarrow> TaskGraph" where
  "set_running t g = g\<lparr>tg_states := fmmap_keys (\<lambda>u st. if u = t then Running else st) (tg_states g)\<rparr>"

lemma set_running_eq:
  assumes "fmlookup (tg_states g) t = Some Ready"
  shows "set_running t g = g\<lparr>tg_states := fmupd t Running (tg_states g)\<rparr>"
proof -
  have "fmmap_keys (\<lambda>u st. if u = t then Running else st) (tg_states g) = fmupd t Running (tg_states g)"
  proof (rule fmap_ext)
    show "fmlookup (fmmap_keys (\<lambda>u st. if u = t then Running else st) (tg_states g)) x
        = fmlookup (fmupd t Running (tg_states g)) x" for x
      using assms by (cases "fmlookup (tg_states g) x") auto
  qed
  then show ?thesis by (simp add: set_running_def)
qed

lemma passes_dequeue [simp]:
  "passes False (Call (OpDequeue now) k) g \<longleftrightarrow>
     each_ready (tg_states g) (\<lambda>t. case fmlookup (tg_tasks g) t of None \<Rightarrow> True | Some task \<Rightarrow>
        passes False (k (Handed (Ok (Some task)))) (set_running t g))
     \<and> (each_ready (tg_states g) (\<lambda>t. False) \<longrightarrow> passes False (k (Handed (Ok None))) g)"
  by (auto simp: spec_call_simps timely_graph_def each_ready_def set_running_eq split: option.split)

lemma passes_complete [simp]:
  "passes limited (Call (OpComplete now t) k) g \<longleftrightarrow>
     (if fmlookup (tg_states g) t = Some Running
      then passes limited (k (Called (Ok ()))) (g\<lparr>tg_states := fmmap_keys (completed_by t g) (tg_states g)\<rparr>)
      else (\<forall>msg. passes limited (k (Called (Err (Internal msg)))) g))"
  by (auto simp: spec_call_simps timely_graph_def)

lemma passes_fail [simp]:
  "passes limited (Call (OpFail t) k) g \<longleftrightarrow>
     (if fmlookup (tg_states g) t \<in> {Some Pending, Some Ready, Some Running}
      then passes limited (k (Called (Ok ()))) (g\<lparr>tg_states := fmmap_keys (failed_by t g) (tg_states g)\<rparr>)
      else (\<forall>msg. passes limited (k (Called (Err (Internal msg)))) g))"
  by (auto simp: spec_call_simps timely_graph_def)

lemma passes_requeue [simp]:
  "passes limited (Call (OpRequeue now t a) k) g \<longleftrightarrow> passes limited (k (Called (Ok ())))
     (if fmlookup (tg_states g) t = Some Running then (retried t a g)\<lparr>tg_states := fmupd t Ready (tg_states g)\<rparr> else retried t a g)"
  by (auto simp: spec_call_simps timely_graph_def)

lemma passes_policy [simp]:
  "passes limited (Call (OpSetFairness fp) k) g = passes limited (k (Called (Ok ()))) g"
  "passes limited (Call (OpSetStarvation sp) k) g = passes limited (k (Called (Ok ()))) g"
  by (simp_all add: spec_call_simps timely_graph_def)

declare passes.simps(2) [simp del]

text \<open>Evaluation on a map that is written out.\<close>

lemma each_ready_eval:
  "each_ready (fmupd k v m) P \<longleftrightarrow> (v = Ready \<longrightarrow> P k) \<and> each_ready (fmdrop k m) P"
  "each_ready fmempty P"
  by (auto simp: each_ready_def split: if_splits)

lemma fmdrop_fmupd_if: "fmdrop k (fmupd k' v m) = (if k = k' then fmdrop k m else fmupd k' v (fmdrop k m))"
  by (rule fmap_ext) auto

lemma fmmap_keys_fmupd: "fmmap_keys f (fmupd k v m) = fmupd k (f k v) (fmmap_keys f m)"
  by (rule fmap_ext) auto

lemma fmmap_keys_empty: "fmmap_keys f fmempty = fmempty"
  by (rule fmap_ext) simp

lemmas map_eval = each_ready_eval fmdrop_fmupd_if fmmap_keys_fmupd fmmap_keys_empty

subsection \<open>The unit tests\<close>

definition make_task :: "TaskId \<Rightarrow> TaskId list \<Rightarrow> Priority \<Rightarrow> TaskDescriptor" where
  "make_task i deps priority =
     \<lparr>td_task_id = i, td_command = [''echo''], td_working_dir = ''/tmp'', td_env = fmempty,
      td_resources = default_allocation, td_policy = default_retry_policy, td_attempt = 0,
      td_is_critical = is_critical_priority priority, td_priority = priority, td_dependencies = deps,
      td_location = Local, td_evaluation = default_evaluation\<rparr>"

definition sized_task :: "TaskId \<Rightarrow> fp \<Rightarrow> u32 \<Rightarrow> u32 \<Rightarrow> TaskDescriptor" where
  "sized_task i cpu memory gpu = (make_task i [] Normal)\<lparr>td_resources := allocation_new cpu memory gpu\<rparr>"

definition starvation_test_policy :: "bool \<Rightarrow> StarvationPreventionPolicy" where
  "starvation_test_policy enabled = \<lparr>low_priority_quota_percent = Fin 5, normal_priority_quota_percent = Fin 15,
     max_queue_wait_ms = 0, enable_quota_enforcement = enabled\<rparr>"

definition is_cyclic :: "DagResult \<Rightarrow> bool" where
  "is_cyclic r = (case r of Called (Inl (CyclicDependency _)) \<Rightarrow> True | _ \<Rightarrow> False)"

definition is_unknown :: "DagResult \<Rightarrow> bool" where
  "is_unknown r = (case r of Called (Inl (UnknownDependency _)) \<Rightarrow> True | _ \<Rightarrow> False)"

definition is_duplicate :: "DagResult \<Rightarrow> bool" where
  "is_duplicate r = (case r of Called (Inl (DuplicateTask _)) \<Rightarrow> True | _ \<Rightarrow> False)"

lemmas client_defs = enqueue_error_def timely_graph_def finished_def completed_by_def failed_by_def empty_graph_def
  deps_of_def retried_def set_running_def is_cyclic_def is_unknown_def is_duplicate_def map_eval List.map_filter_def Let_def

lemma make_task_simps [simp]:
  "td_task_id (make_task i deps p) = i" "td_dependencies (make_task i deps p) = deps"
  "td_priority (make_task i deps p) = p" "td_attempt (make_task i deps p) = 0"
  "td_task_id (sized_task i c m g) = i" "td_dependencies (sized_task i c m g) = []"
  "gpu_cores (td_resources (sized_task i c m g)) = g"
  by (simp_all add: make_task_def sized_task_def allocation_new_def)

definition cannot_run_before_deps_complete :: "(nat \<Rightarrow> u64) \<Rightarrow> TaskId \<Rightarrow> TaskId \<Rightarrow> Client" where
  "cannot_run_before_deps_complete clock a b =
     Call (OpEnqueue (clock 0) (make_task a [] Normal)) (unwrap (
     Call (OpEnqueue (clock 1) (make_task b [a] Normal)) (unwrap (
     Call (OpDequeue (clock 2)) (unwrap_task (\<lambda>d. assert (map_option td_task_id d = Some a) (
     Call (OpDequeue (clock 3)) (unwrap_task (\<lambda>d. assert (d = None) (
     Call (OpComplete (clock 4) a) (unwrap (
     Call (OpDequeue (clock 5)) (unwrap_task (\<lambda>d. Verdict (map_option td_task_id d = Some b)))))))))))))))"

definition valid_dag_with_diamond_dependencies :: "(nat \<Rightarrow> u64) \<Rightarrow> TaskId \<Rightarrow> TaskId \<Rightarrow> TaskId \<Rightarrow> TaskId \<Rightarrow> Client" where
  "valid_dag_with_diamond_dependencies clock a b c d =
     Call (OpEnqueue (clock 0) (make_task a [] Normal)) (unwrap (
     Call (OpEnqueue (clock 1) (make_task b [] Normal)) (unwrap (
     Call (OpEnqueue (clock 2) (make_task c [a] Normal)) (unwrap (
     Call (OpEnqueue (clock 3) (make_task d [c, b] Normal)) (unwrap (
     Call (OpDequeue (clock 4)) (unwrap_task (\<lambda>t. Verdict (t \<noteq> None)))))))))))"

definition self_cycle_rejected :: "(nat \<Rightarrow> u64) \<Rightarrow> TaskId \<Rightarrow> Client" where
  "self_cycle_rejected clock a =
     Call (OpEnqueue (clock 0) (make_task a [a] Normal)) (\<lambda>r. Verdict (is_cyclic r))"

definition diamond_deps_ordering_stable :: "(nat \<Rightarrow> u64) \<Rightarrow> TaskId \<Rightarrow> TaskId \<Rightarrow> TaskId \<Rightarrow> TaskId \<Rightarrow> Client" where
  "diamond_deps_ordering_stable clock src lhs rhs joined =
     Call (OpEnqueue (clock 0) (make_task src [] Normal)) (unwrap (
     Call (OpEnqueue (clock 1) (make_task lhs [src] Normal)) (unwrap (
     Call (OpEnqueue (clock 2) (make_task rhs [src] Normal)) (unwrap (
     Call (OpEnqueue (clock 3) (make_task joined [lhs, rhs] Normal)) (unwrap (
     Call (OpDequeue (clock 4)) (unwrap_task (\<lambda>t. assert (map_option td_task_id t = Some src) (
     Call (OpDequeue (clock 5)) (unwrap_task (\<lambda>t. assert (t = None) (
     Call (OpComplete (clock 6) src) (unwrap (
     Call (OpDequeue (clock 7)) (unwrap_some (\<lambda>t1. assert (td_task_id t1 \<in> {lhs, rhs}) (
     Call (OpDequeue (clock 8)) (unwrap_some (\<lambda>t2. assert (td_task_id t2 \<in> {lhs, rhs} \<and> td_task_id t1 \<noteq> td_task_id t2) (
     Call (OpComplete (clock 9) (td_task_id t1)) (unwrap (
     Call (OpComplete (clock 10) (td_task_id t2)) (unwrap (
     Call (OpDequeue (clock 11)) (unwrap_task (\<lambda>t. Verdict (map_option td_task_id t = Some joined)))))))))))))))))))))))))))))"

definition completing_task_unblocks_dependents :: "(nat \<Rightarrow> u64) \<Rightarrow> TaskId \<Rightarrow> TaskId \<Rightarrow> TaskId \<Rightarrow> Client" where
  "completing_task_unblocks_dependents clock a b c =
     Call (OpEnqueue (clock 0) (make_task a [] Normal)) (unwrap (
     Call (OpEnqueue (clock 1) (make_task b [a] Normal)) (unwrap (
     Call (OpEnqueue (clock 2) (make_task c [b] Normal)) (unwrap (
     Call (OpDequeue (clock 3)) (unwrap_task (\<lambda>_.
     Call (OpComplete (clock 4) a) (unwrap (
     Call (OpDequeue (clock 5)) (unwrap_task (\<lambda>_.
     Call (OpComplete (clock 6) b) (unwrap (
     Call (OpDequeue (clock 7)) (unwrap_task (\<lambda>t. Verdict (map_option td_task_id t = Some c)))))))))))))))))"

definition discard_cascades_to_dependents :: "(nat \<Rightarrow> u64) \<Rightarrow> TaskId \<Rightarrow> TaskId \<Rightarrow> Client" where
  "discard_cascades_to_dependents clock a b =
     Call (OpEnqueue (clock 0) (make_task a [] Normal)) (unwrap (
     Call (OpEnqueue (clock 1) (make_task b [a] Normal)) (unwrap (
     Call (OpFail a) (unwrap (
     Call (OpDequeue (clock 2)) (unwrap_task (\<lambda>t. Verdict (t = None)))))))))"

definition requeue_allows_retry :: "(nat \<Rightarrow> u64) \<Rightarrow> TaskId \<Rightarrow> Client" where
  "requeue_allows_retry clock a =
     Call (OpEnqueue (clock 0) (make_task a [] Normal)) (unwrap (
     Call (OpDequeue (clock 1)) (unwrap_task (\<lambda>t1. assert (map_option td_attempt t1 = Some 0) (
     Call (OpRequeue (clock 2) a 1) (unwrap (
     Call (OpDequeue (clock 3)) (unwrap_task (\<lambda>t2. Verdict (map_option td_attempt t2 = Some 1))))))))))"

definition enqueue_unknown_dep_fails :: "(nat \<Rightarrow> u64) \<Rightarrow> TaskId \<Rightarrow> TaskId \<Rightarrow> Client" where
  "enqueue_unknown_dep_fails clock a unknown =
     Call (OpEnqueue (clock 0) (make_task a [unknown] Normal)) (\<lambda>r. Verdict (is_unknown r))"

definition enqueue_duplicate_fails :: "(nat \<Rightarrow> u64) \<Rightarrow> TaskId \<Rightarrow> Client" where
  "enqueue_duplicate_fails clock a =
     Call (OpEnqueue (clock 0) (make_task a [] Normal)) (unwrap (
     Call (OpEnqueue (clock 1) (make_task a [] Normal)) (\<lambda>r. Verdict (is_duplicate r))))"

definition independent_tasks_all_dequeued :: "(nat \<Rightarrow> u64) \<Rightarrow> TaskId \<Rightarrow> TaskId \<Rightarrow> TaskId \<Rightarrow> Client" where
  "independent_tasks_all_dequeued clock a b c =
     Call (OpEnqueue (clock 0) (make_task a [] Normal)) (unwrap (
     Call (OpEnqueue (clock 1) (make_task b [] Normal)) (unwrap (
     Call (OpEnqueue (clock 2) (make_task c [] Normal)) (unwrap (
     Call (OpDequeue (clock 3)) (unwrap_task (\<lambda>t1.
     Call (OpDequeue (clock 4)) (unwrap_task (\<lambda>t2.
     Call (OpDequeue (clock 5)) (unwrap_task (\<lambda>t3.
     Call (OpDequeue (clock 6)) (unwrap_task (\<lambda>t4. Verdict (mset (map td_task_id (List.map_filter id [t1, t2, t3])) = mset [a, b, c] \<and> t4 = None)))))))))))))))"

definition long_chain_resolves_in_order :: "(nat \<Rightarrow> u64) \<Rightarrow> TaskId \<Rightarrow> TaskId \<Rightarrow> TaskId \<Rightarrow> TaskId \<Rightarrow> TaskId \<Rightarrow> Client" where
  "long_chain_resolves_in_order clock a b c d e =
     Call (OpEnqueue (clock 0) (make_task a [] Normal)) (unwrap (
     Call (OpEnqueue (clock 1) (make_task b [a] Normal)) (unwrap (
     Call (OpEnqueue (clock 2) (make_task c [b] Normal)) (unwrap (
     Call (OpEnqueue (clock 3) (make_task d [c] Normal)) (unwrap (
     Call (OpEnqueue (clock 4) (make_task e [d] Normal)) (unwrap (
     Call (OpDequeue (clock 5)) (unwrap_task (\<lambda>t. assert (map_option td_task_id t = Some a) (
     Call (OpComplete (clock 6) a) (unwrap (
     Call (OpDequeue (clock 7)) (unwrap_task (\<lambda>t. assert (map_option td_task_id t = Some b) (
     Call (OpComplete (clock 8) b) (unwrap (
     Call (OpDequeue (clock 9)) (unwrap_task (\<lambda>t. assert (map_option td_task_id t = Some c) (
     Call (OpComplete (clock 10) c) (unwrap (
     Call (OpDequeue (clock 11)) (unwrap_task (\<lambda>t. assert (map_option td_task_id t = Some d) (
     Call (OpComplete (clock 12) d) (unwrap (
     Call (OpDequeue (clock 13)) (unwrap_task (\<lambda>t. assert (map_option td_task_id t = Some e) (
     Call (OpComplete (clock 14) e) (unwrap (
     Call (OpDequeue (clock 15)) (unwrap_task (\<lambda>t. Verdict (t = None))))))))))))))))))))))))))))))))))))))"

definition fairness_policy_can_be_configured :: "(nat \<Rightarrow> u64) \<Rightarrow> TaskId \<Rightarrow> Client" where
  "fairness_policy_can_be_configured clock a =
     Call (OpEnqueue (clock 0) (make_task a [] Low)) (unwrap (
     Call (OpDequeue (clock 1)) (unwrap_some (\<lambda>t. Verdict (td_task_id t = a)))))"

definition fairness_allows_all_priorities_to_dequeue :: "(nat \<Rightarrow> u64) \<Rightarrow> TaskId \<Rightarrow> TaskId \<Rightarrow> TaskId \<Rightarrow> TaskId \<Rightarrow> Client" where
  "fairness_allows_all_priorities_to_dequeue clock low normal high critical =
     Call (OpEnqueue (clock 0) (make_task critical [] Critical)) (unwrap (
     Call (OpEnqueue (clock 1) (make_task low [] Low)) (unwrap (
     Call (OpEnqueue (clock 2) (make_task high [] High)) (unwrap (
     Call (OpEnqueue (clock 3) (make_task normal [] Normal)) (unwrap (
     Call (OpDequeue (clock 4)) (if_task (\<lambda>t1.
     Call (OpDequeue (clock 5)) (if_task (\<lambda>t2.
     Call (OpDequeue (clock 6)) (if_task (\<lambda>t3.
     Call (OpDequeue (clock 7)) (if_task (\<lambda>t4. Verdict ((let ids = map td_task_id (List.map_filter id [t1, t2, t3, t4]) in length ids = 4 \<and> {low, normal, high, critical} \<subseteq> set ids))))))))))))))))))"

definition aging_boost_respects_critical_ceiling :: "(nat \<Rightarrow> u64) \<Rightarrow> TaskId \<Rightarrow> Client" where
  "aging_boost_respects_critical_ceiling clock a =
     Call (OpEnqueue (clock 0) (make_task a [] Low)) (unwrap (
     Call (OpDequeue (clock 1)) (unwrap_some (\<lambda>t. Verdict (td_priority t = Low)))))"

definition resource_constrained_task_waits_when_pool_full :: "(nat \<Rightarrow> u64) \<Rightarrow> TaskId \<Rightarrow> TaskId \<Rightarrow> Client" where
  "resource_constrained_task_waits_when_pool_full clock a b =
     Call (OpEnqueue (clock 0) (sized_task a (Fin 8) 1024 0)) (unwrap (
     Call (OpEnqueue (clock 1) (sized_task b (Fin 2) 256 0)) (unwrap (
     Call (OpDequeue (clock 2)) (unwrap_task (\<lambda>t1. assert (t1 \<noteq> None) (
     Call (OpDequeue (clock 3)) (unwrap_task (\<lambda>t2. Verdict (t2 \<noteq> None))))))))))"

definition resource_released_on_task_complete :: "(nat \<Rightarrow> u64) \<Rightarrow> TaskId \<Rightarrow> Client" where
  "resource_released_on_task_complete clock a =
     Call (OpEnqueue (clock 0) (make_task a [] Normal)) (unwrap (
     Call (OpDequeue (clock 1)) (unwrap_task (\<lambda>t. assert (map_option td_task_id t = Some a) (
     Call (OpComplete (clock 2) a) (unwrap (
     Verdict True)))))))"

definition resource_released_on_task_fail :: "(nat \<Rightarrow> u64) \<Rightarrow> TaskId \<Rightarrow> Client" where
  "resource_released_on_task_fail clock a =
     Call (OpEnqueue (clock 0) (make_task a [] Normal)) (unwrap (
     Call (OpDequeue (clock 1)) (unwrap_task (\<lambda>_.
     Call (OpFail a) (unwrap (
     Verdict True))))))"

definition tasks_without_resource_config_always_dequeue :: "(nat \<Rightarrow> u64) \<Rightarrow> TaskId \<Rightarrow> TaskId \<Rightarrow> Client" where
  "tasks_without_resource_config_always_dequeue clock a b =
     Call (OpEnqueue (clock 0) (make_task a [] Normal)) (unwrap (
     Call (OpEnqueue (clock 1) (make_task b [] Normal)) (unwrap (
     Call (OpDequeue (clock 2)) (unwrap_task (\<lambda>t1. assert (t1 \<noteq> None) (
     Call (OpDequeue (clock 3)) (unwrap_task (\<lambda>t2. assert (t2 \<noteq> None) (
     Call (OpDequeue (clock 4)) (unwrap_task (\<lambda>t3. Verdict (t3 = None)))))))))))))"

definition gpu_cores_tracked_correctly :: "(nat \<Rightarrow> u64) \<Rightarrow> TaskId \<Rightarrow> Client" where
  "gpu_cores_tracked_correctly clock a =
     Call (OpEnqueue (clock 0) (sized_task a (Fin 2) 512 2)) (unwrap (
     Call (OpDequeue (clock 1)) (unwrap_some (\<lambda>t. Verdict (gpu_cores (td_resources t) = 2)))))"

definition multiple_tasks_share_pool :: "(nat \<Rightarrow> u64) \<Rightarrow> TaskId \<Rightarrow> TaskId \<Rightarrow> Client" where
  "multiple_tasks_share_pool clock a b =
     Call (OpEnqueue (clock 0) (make_task a [] Normal)) (unwrap (
     Call (OpEnqueue (clock 1) (make_task b [] Normal)) (unwrap (
     Call (OpDequeue (clock 2)) (unwrap_task (\<lambda>t1. assert (t1 \<noteq> None) (
     Call (OpDequeue (clock 3)) (unwrap_task (\<lambda>t2. Verdict (t2 \<noteq> None))))))))))"

definition pool_exhaustion_and_recovery :: "(nat \<Rightarrow> u64) \<Rightarrow> TaskId \<Rightarrow> TaskId \<Rightarrow> Client" where
  "pool_exhaustion_and_recovery clock a b =
     Call (OpEnqueue (clock 0) (make_task a [] Normal)) (unwrap (
     Call (OpEnqueue (clock 1) (make_task b [] Normal)) (unwrap (
     Call (OpDequeue (clock 2)) (unwrap_some (\<lambda>t1.
     Call (OpComplete (clock 3) (td_task_id t1)) (unwrap (
     Call (OpDequeue (clock 4)) (unwrap_some (\<lambda>t2. Verdict (td_task_id t1 \<noteq> td_task_id t2 \<and> td_task_id t1 \<in> {a, b} \<and> td_task_id t2 \<in> {a, b})))))))))))"

definition deadline_enforcement_forces_execution :: "(nat \<Rightarrow> u64) \<Rightarrow> TaskId \<Rightarrow> TaskId \<Rightarrow> Client" where
  "deadline_enforcement_forces_execution clock low high =
     Call (OpSetStarvation (starvation_test_policy True)) (unwrap (
     Call (OpEnqueue (clock 0) (make_task low [] Low)) (unwrap (
     Call (OpEnqueue (clock 1) (make_task high [] High)) (unwrap (
     Call (OpDequeue (clock 2)) (unwrap_some (\<lambda>t1.
     Call (OpDequeue (clock 3)) (unwrap_some (\<lambda>t2. Verdict (td_task_id t1 \<noteq> td_task_id t2)))))))))))"

definition deadline_disabled_with_disable_flag :: "(nat \<Rightarrow> u64) \<Rightarrow> TaskId \<Rightarrow> Client" where
  "deadline_disabled_with_disable_flag clock low =
     Call (OpSetStarvation (starvation_test_policy False)) (unwrap (
     Call (OpEnqueue (clock 0) (make_task low [] Low)) (unwrap (
     Call (OpDequeue (clock 1)) (unwrap_task (\<lambda>t. Verdict (t \<noteq> None)))))))"

definition multiple_same_priority_tasks_fifo_order :: "(nat \<Rightarrow> u64) \<Rightarrow> TaskId \<Rightarrow> TaskId \<Rightarrow> TaskId \<Rightarrow> Client" where
  "multiple_same_priority_tasks_fifo_order clock a b c =
     Call (OpEnqueue (clock 0) (make_task a [] Normal)) (unwrap (
     Call (OpEnqueue (clock 1) (make_task b [] Normal)) (unwrap (
     Call (OpEnqueue (clock 2) (make_task c [] Normal)) (unwrap (
     Call (OpDequeue (clock 3)) (unwrap_task (\<lambda>t1.
     Call (OpDequeue (clock 4)) (unwrap_task (\<lambda>t2.
     Call (OpDequeue (clock 5)) (unwrap_task (\<lambda>t3. Verdict (None \<notin> {t1, t2, t3} \<and> mset (map td_task_id (List.map_filter id [t1, t2, t3])) = mset [a, b, c])))))))))))))"

definition all_tasks_eventually_dequeue :: "(nat \<Rightarrow> u64) \<Rightarrow> TaskId \<Rightarrow> TaskId \<Rightarrow> TaskId \<Rightarrow> TaskId \<Rightarrow> Client" where
  "all_tasks_eventually_dequeue clock low normal high critical =
     Call (OpSetStarvation (starvation_test_policy True)) (unwrap (
     fairness_allows_all_priorities_to_dequeue clock low normal high critical))"

lemma run_cannot_run_before_deps_complete:
  "hash_order ord \<Longrightarrow> distinct [a, b] \<Longrightarrow>
     run_client ord (cannot_run_before_deps_complete clock a b) (inner_new_with_policies f p)"
  by (rule passes_new, assumption) (clarsimp simp: cannot_run_before_deps_complete_def client_defs)

lemma run_valid_dag_with_diamond_dependencies:
  "hash_order ord \<Longrightarrow> distinct [a, b, c, d] \<Longrightarrow>
     run_client ord (valid_dag_with_diamond_dependencies clock a b c d) (inner_new_with_policies f p)"
  by (rule passes_new, assumption) (clarsimp simp: valid_dag_with_diamond_dependencies_def client_defs)

lemma run_self_cycle_rejected:
  "hash_order ord \<Longrightarrow>
     run_client ord (self_cycle_rejected clock a) (inner_new_with_policies f p)"
  by (rule passes_new, assumption) (simp add: self_cycle_rejected_def client_defs)

lemma run_diamond_deps_ordering_stable:
  "hash_order ord \<Longrightarrow> distinct [src, lhs, rhs, joined] \<Longrightarrow>
     run_client ord (diamond_deps_ordering_stable clock src lhs rhs joined) (inner_new_with_policies f p)"
  by (rule passes_new, assumption) (clarsimp simp: diamond_deps_ordering_stable_def client_defs)

lemma run_completing_task_unblocks_dependents:
  "hash_order ord \<Longrightarrow> distinct [a, b, c] \<Longrightarrow>
     run_client ord (completing_task_unblocks_dependents clock a b c) (inner_new_with_policies f p)"
  by (rule passes_new, assumption) (clarsimp simp: completing_task_unblocks_dependents_def client_defs)

lemma run_discard_cascades_to_dependents:
  "hash_order ord \<Longrightarrow> distinct [a, b] \<Longrightarrow>
     run_client ord (discard_cascades_to_dependents clock a b) (inner_new_with_policies f p)"
  by (rule passes_new, assumption) (clarsimp simp: discard_cascades_to_dependents_def client_defs)

lemma run_requeue_allows_retry:
  "hash_order ord \<Longrightarrow>
     run_client ord (requeue_allows_retry clock a) (inner_new_with_policies f p)"
  by (rule passes_new, assumption) (simp add: requeue_allows_retry_def client_defs)

lemma run_enqueue_unknown_dep_fails:
  "hash_order ord \<Longrightarrow> distinct [a, unknown] \<Longrightarrow>
     run_client ord (enqueue_unknown_dep_fails clock a unknown) (inner_new_with_policies f p)"
  by (rule passes_new, assumption) (clarsimp simp: enqueue_unknown_dep_fails_def client_defs)

lemma run_enqueue_duplicate_fails:
  "hash_order ord \<Longrightarrow>
     run_client ord (enqueue_duplicate_fails clock a) (inner_new_with_policies f p)"
  by (rule passes_new, assumption) (simp add: enqueue_duplicate_fails_def client_defs)

lemma run_independent_tasks_all_dequeued:
  "hash_order ord \<Longrightarrow> distinct [a, b, c] \<Longrightarrow>
     run_client ord (independent_tasks_all_dequeued clock a b c) (inner_new_with_policies f p)"
  by (rule passes_new, assumption) (clarsimp simp: independent_tasks_all_dequeued_def client_defs)

lemma run_long_chain_resolves_in_order:
  "hash_order ord \<Longrightarrow> distinct [a, b, c, d, e] \<Longrightarrow>
     run_client ord (long_chain_resolves_in_order clock a b c d e) (inner_new_with_policies f p)"
  by (rule passes_new, assumption) (clarsimp simp: long_chain_resolves_in_order_def client_defs)

lemma run_fairness_policy_can_be_configured:
  "hash_order ord \<Longrightarrow>
     run_client ord (fairness_policy_can_be_configured clock a) (inner_new_with_policies f p)"
  by (rule passes_new, assumption) (simp add: fairness_policy_can_be_configured_def client_defs)

lemma passes_all_priorities:
  "distinct [low, normal, high, critical] \<Longrightarrow>
     passes False (fairness_allows_all_priorities_to_dequeue clock low normal high critical) empty_graph"
  by (clarsimp simp: fairness_allows_all_priorities_to_dequeue_def client_defs)

lemma run_fairness_allows_all_priorities_to_dequeue:
  "hash_order ord \<Longrightarrow> distinct [low, normal, high, critical] \<Longrightarrow>
     run_client ord (fairness_allows_all_priorities_to_dequeue clock low normal high critical)
       (inner_new_with_policies f p)"
  by (rule passes_new [OF _ passes_all_priorities])

lemma run_all_tasks_eventually_dequeue:
  assumes ord: "hash_order ord" and "distinct [low, normal, high, critical]"
  shows "run_client ord (all_tasks_eventually_dequeue clock low normal high critical)
    (inner_new_with_policies f p)"
proof (rule passes_new [OF ord])
  show "passes False (all_tasks_eventually_dequeue clock low normal high critical) empty_graph"
    using passes_all_priorities [OF assms(2)] by (simp only: all_tasks_eventually_dequeue_def passes_policy client_simps)
qed

lemma run_aging_boost_respects_critical_ceiling:
  "hash_order ord \<Longrightarrow>
     run_client ord (aging_boost_respects_critical_ceiling clock a) (inner_new_with_policies f p)"
  by (rule passes_new, assumption) (simp add: aging_boost_respects_critical_ceiling_def client_defs)

lemma run_resource_constrained_task_waits_when_pool_full:
  "hash_order ord \<Longrightarrow> distinct [a, b] \<Longrightarrow>
     run_client ord (resource_constrained_task_waits_when_pool_full clock a b) (inner_new_with_policies f p)"
  by (rule passes_new, assumption) (clarsimp simp: resource_constrained_task_waits_when_pool_full_def client_defs)

lemma run_resource_released_on_task_complete:
  "hash_order ord \<Longrightarrow>
     run_client ord (resource_released_on_task_complete clock a) (inner_new_with_policies f p)"
  by (rule passes_new, assumption) (simp add: resource_released_on_task_complete_def client_defs)

lemma run_resource_released_on_task_fail:
  "hash_order ord \<Longrightarrow>
     run_client ord (resource_released_on_task_fail clock a) (inner_new_with_policies f p)"
  by (rule passes_new, assumption) (simp add: resource_released_on_task_fail_def client_defs)

lemma run_tasks_without_resource_config_always_dequeue:
  "hash_order ord \<Longrightarrow> distinct [a, b] \<Longrightarrow>
     run_client ord (tasks_without_resource_config_always_dequeue clock a b) (inner_new_with_policies f p)"
  by (rule passes_new, assumption) (clarsimp simp: tasks_without_resource_config_always_dequeue_def client_defs)

lemma run_gpu_cores_tracked_correctly:
  "hash_order ord \<Longrightarrow>
     run_client ord (gpu_cores_tracked_correctly clock a) (inner_new_with_policies f p)"
  by (rule passes_new, assumption) (simp add: gpu_cores_tracked_correctly_def client_defs)

lemma run_multiple_tasks_share_pool:
  "hash_order ord \<Longrightarrow> distinct [a, b] \<Longrightarrow>
     run_client ord (multiple_tasks_share_pool clock a b) (inner_new_with_policies f p)"
  by (rule passes_new, assumption) (clarsimp simp: multiple_tasks_share_pool_def client_defs)

lemma run_pool_exhaustion_and_recovery:
  "hash_order ord \<Longrightarrow> distinct [a, b] \<Longrightarrow>
     run_client ord (pool_exhaustion_and_recovery clock a b) (inner_new_with_policies f p)"
  by (rule passes_new, assumption) (clarsimp simp: pool_exhaustion_and_recovery_def client_defs)

lemma run_deadline_enforcement_forces_execution:
  "hash_order ord \<Longrightarrow> distinct [low, high] \<Longrightarrow>
     run_client ord (deadline_enforcement_forces_execution clock low high) (inner_new_with_policies f p)"
  by (rule passes_new, assumption) (clarsimp simp: deadline_enforcement_forces_execution_def client_defs)

lemma run_deadline_disabled_with_disable_flag:
  "hash_order ord \<Longrightarrow>
     run_client ord (deadline_disabled_with_disable_flag clock low) (inner_new_with_policies f p)"
  by (rule passes_new, assumption) (simp add: deadline_disabled_with_disable_flag_def client_defs)

lemma run_multiple_same_priority_tasks_fifo_order:
  "hash_order ord \<Longrightarrow> distinct [a, b, c] \<Longrightarrow>
     run_client ord (multiple_same_priority_tasks_fifo_order clock a b c) (inner_new_with_policies f p)"
  by (rule passes_new, assumption) (clarsimp simp: multiple_same_priority_tasks_fifo_order_def client_defs)

end
