(* ===== verification/DagStarvation.thy ===== *)
theory DagStarvation
  imports DagProgress DagExample
begin

text \<open>
  Aging and starvation in the DAG scheduler: what a waiting task gains by aging, and what it does not.
\<close>

subsection \<open>One task's aging\<close>

definition aged :: "u64 \<Rightarrow> FairnessPolicy \<Rightarrow> StarvationPreventionPolicy \<Rightarrow> TaskMetadata \<Rightarrow> TaskMetadata" where
  "aged now fp sp m = fst (enforce_deadline now sp (apply_aging now fp m))"

lemma age_entries_pointwise:
  assumes "age_entries now fp sp es md = (es', md', a, d)" and "distinct (map re_task_id es)"
  shows "es' = map (\<lambda>e. case fmlookup md (re_task_id e) of None \<Rightarrow> e
        | Some m \<Rightarrow> e\<lparr>effective_priority := md_effective_priority (aged now fp sp m)\<rparr>) es
    \<and> (\<forall>t. fmlookup md' t = (if t \<in> re_task_id ` set es then map_option (aged now fp sp) (fmlookup md t) else fmlookup md t))"
  using assms
proof (induction es arbitrary: es' md md' a d)
  case (Cons e es)
  show ?case
  proof (cases "fmlookup md (re_task_id e)")
    case None
    obtain es1 md1 a1 d1 where rec: "age_entries now fp sp es md = (es1, md1, a1, d1)" using prod_cases4 by blast
    then show ?thesis using Cons.prems None Cons.IH [OF rec] by auto
  next
    case (Some m)
    let ?md = "fmupd (re_task_id e) (aged now fp sp m) md"
    obtain dl where dl: "enforce_deadline now sp (apply_aging now fp m) = (aged now fp sp m, dl)"
      unfolding aged_def by (metis prod.collapse)
    obtain es1 md1 a1 d1 where rec: "age_entries now fp sp es ?md = (es1, md1, a1, d1)" using prod_cases4 by blast
    have fresh: "re_task_id x \<noteq> re_task_id e" if "x \<in> set es" for x using Cons.prems(2) that by (metis distinct.simps(2) image_eqI list.set_map list.simps(9))
    have "es1 = map (\<lambda>x. case fmlookup md (re_task_id x) of None \<Rightarrow> x
        | Some m \<Rightarrow> x\<lparr>effective_priority := md_effective_priority (aged now fp sp m)\<rparr>) es"
      using Cons.IH [OF rec] Cons.prems(2) fresh by (auto split: option.splits)
    moreover have "fmlookup md1 t = (if t \<in> re_task_id ` set es then map_option (aged now fp sp) (fmlookup ?md t) else fmlookup ?md t)" for t
      using Cons.IH [OF rec] Cons.prems(2) by simp
    moreover have "es' = e\<lparr>effective_priority := md_effective_priority (aged now fp sp m)\<rparr> # es1" "md' = md1"
      using Cons.prems(1) Some by (auto simp: Let_def dl rec)
    moreover have "re_task_id e \<notin> re_task_id ` set es" using Cons.prems(2) by simp
    ultimately show ?thesis using Some by simp
  qed
qed simp

lemma age_ready_entry:
  assumes inv: "dag_inv s" and e: "e \<in> set (dag_ready (age_ready now s))"
  shows "(\<exists>x \<in> set (dag_ready s). re_task_id x = re_task_id e)
    \<and> (\<forall>m. fmlookup (dag_metadata s) (re_task_id e) = Some m \<longrightarrow>
         effective_priority e = md_effective_priority (aged now (dag_fairness_policy s) (dag_starvation_policy s) m))"
proof -
  obtain es md a d where r: "age_entries now (dag_fairness_policy s) (dag_starvation_policy s) (dag_ready s)
      (dag_metadata s) = (es, md, a, d)"
    using prod_cases4 by blast
  have "distinct (map re_task_id (dag_ready s))" using inv by (simp add: dag_inv_def dag_inv_during_def entries_ok_def)
  from age_entries_pointwise [OF r this] e show ?thesis
    by (auto simp: age_ready_def r split: option.splits)
qed

lemma aged_critical: "md_effective_priority (aged now fp sp (metadata_new now Critical)) = Critical"
  by (simp add: aged_def apply_aging_def enforce_deadline_def metadata_new_def waiting_time_ms_def saturating_sub_def)

subsection \<open>Overtaking\<close>

text \<open>Rounds of a client that enqueues a task and a worker that dequeues one.\<close>

fun serve_rounds :: "(TaskId set \<Rightarrow> TaskId list) \<Rightarrow> (u64 \<times> TaskDescriptor) list \<Rightarrow> Inner
    \<Rightarrow> (CoreError + TaskDescriptor option) list \<times> Inner" where
  "serve_rounds ord [] s = ([], s)"
| "serve_rounds ord ((now, u) # rounds) s =
     (case inner_dequeue now (snd (inner_enqueue ord now u s)) of (r, s1) \<Rightarrow>
      case serve_rounds ord rounds s1 of (rs, s2) \<Rightarrow> (r # rs, s2))"

text \<open>A critical task without dependencies, not yet known, whose identifier is above those of all ready tasks.\<close>

definition overtakes :: "Inner \<Rightarrow> TaskDescriptor \<Rightarrow> bool" where
  "overtakes s u \<longleftrightarrow> td_priority u = Critical \<and> td_dependencies u = [] \<and> fmlookup (dag_tasks s) (td_task_id u) = None
     \<and> (\<forall>v. fmlookup (dag_states s) v = Some Ready \<longrightarrow> v < td_task_id u)"

lemma pop_loop_pool_none:
  "dag_resource_pool s = None \<Longrightarrow> dag_resource_pool (snd (pop_loop s h skipped)) = None"
proof (induction s h skipped rule: pop_loop.induct)
  case (1 s h skipped)
  then show ?case by (subst pop_loop.simps) (auto simp: start_task_def Let_def split: option.split)
qed

lemma overtaking_round:
  assumes inv: "dag_inv s" and ord: "hash_order ord" and pool: "dag_resource_pool s = None" and u: "overtakes s u"
    and r: "inner_dequeue now (snd (inner_enqueue ord now u s)) = (r, s')"
  shows "r = Ok (Some u)" and "dag_inv s'" and "dag_resource_pool s' = None"
    and "dag_states s' = fmupd (td_task_id u) Running (dag_states s)"
    and "dag_tasks s' = fmupd (td_task_id u) u (dag_tasks s)"
proof -
  let ?t = "td_task_id u" and ?s = "admitted now u s"
  have g: "graph_ok s" using inv by (simp add: dag_inv_def dag_inv_during_def)
  have fresh: "fmlookup (dag_tasks s) ?t = None" and deps: "td_dependencies u = []" using u by (simp_all add: overtakes_def)
  have "acyclic (dag_edges (fmupd ?t u (dag_tasks s)))" using acyclic_fresh_iff [OF g fresh] deps by simp
  then have enq: "inner_enqueue ord now u s = (Ok (), ?s)"
    using fresh deps detect_cycle_None_iff [OF ord] by (intro inner_enqueue_ok) simp_all
  have inv': "dag_inv ?s" using inner_enqueue_inv [OF inv ord, of now u] enq by simp
  have states: "dag_states ?s = fmupd ?t Ready (dag_states s)" using deps by simp
  have tasks: "dag_tasks ?s = fmupd ?t u (dag_tasks s)" by simp
  have pool': "dag_resource_pool ?s = None" using pool by (simp add: admitted_def Let_def)
  let ?a = "age_ready now ?s"
  have fits: "fits ?a x" for x using pool' by (simp add: fits_def)
  obtain q s2 where p: "pop_loop ?a (dag_ready ?a) [] = (q, s2)" by fastforce
  have en: "entries_ok (dag_states ?a) (dag_ready ?a)"
    using age_ready_inv [OF inv', of now] by (simp add: dag_inv_def dag_inv_during_def)
  moreover have "fmlookup (dag_states ?a) ?t = Some Ready" by (simp add: deps)
  ultimately have "?t \<in> re_task_id ` set (dag_ready ?a)" unfolding entries_ok_def by blast
  then obtain x where x: "x \<in> set (dag_ready ?a)" "re_task_id x = ?t" by (metis imageE)
  have "fmlookup (dag_metadata ?s) ?t = Some (metadata_new now Critical)"
    using u by (simp add: admitted_def Let_def overtakes_def)
  then have crit: "effective_priority x = Critical" using age_ready_entry [OF inv' x(1)] x(2) by (simp add: aged_critical)
  have sx: "startable ?a x" using x(2) by (simp add: startable_def fits deps)
  note c = pop_loop_chosen [OF p]
  then obtain task where q: "q = Some task" using sx x(1) by (cases q) (auto simp: chosen_def)
  obtain e where e: "e \<in> set (dag_ready ?a)" "startable ?a e" "fmlookup (dag_tasks ?s) (re_task_id e) = Some task"
    "outranks e x" "dag_states s2 = fmupd (re_task_id e) Running (dag_states ?s)"
    using c sx x(1) unfolding chosen_def q by auto
  have "?t \<le> re_task_id e" using e(4) crit x(2) by (cases "effective_priority e") (auto simp: outranks_def less_Priority_def)
  moreover have "re_task_id e = ?t \<or> re_task_id e < ?t"
    using e(2) u by (auto simp: startable_def overtakes_def split: if_splits)
  ultimately have id: "re_task_id e = ?t" by auto
  then have task: "task = u" using e(3) by simp
  have dq: "inner_dequeue now ?s = (Ok q, s2)" by (simp add: inner_dequeue_def Let_def p)
  then have r': "r = Ok q" "s' = s2" using r enq by simp_all
  then show "r = Ok (Some u)" using q task by simp
  show "dag_inv s'" using inner_dequeue_inv [OF inv', of now] dq r' by simp
  show "dag_resource_pool s' = None" using pop_loop_pool_none [of ?a "dag_ready ?a" "[]"] pool' p r' by simp
  show "dag_states s' = fmupd ?t Running (dag_states s)" using e(5) id r' by (simp add: deps)
  show "dag_tasks s' = fmupd ?t u (dag_tasks s)" using inner_dequeue_frame(1) [of now ?s] dq r' by simp
qed

lemma overtakes_next:
  assumes "dag_states s1 = fmupd (td_task_id u) Running (dag_states s)" and "dag_tasks s1 = fmupd (td_task_id u) u (dag_tasks s)"
    and "overtakes s v" and "td_task_id u < td_task_id v"
  shows "overtakes s1 v"
  using assms by (auto simp: overtakes_def split: if_splits)

text \<open>
  C10: aging does not prevent starvation. In a reachable scheduler without a resource pool, whatever
  the fairness and starvation policies and however long a ready task waits, any number of critical
  tasks that arrive later with ever larger identifiers are all started before it: each dequeue of
  the rounds starts the task that has just arrived, and the waiting task stays ready.
\<close>

theorem critical_tasks_overtake:
  assumes "dag_reachable s" and "hash_order ord" and "dag_resource_pool s = None"
    and "fmlookup (dag_states s) t = Some Ready"
    and "\<forall>(now, u) \<in> set rounds. overtakes s u" and "sorted_wrt (<) (map (td_task_id \<circ> snd) rounds)"
  shows "fst (serve_rounds ord rounds s) = map (\<lambda>(now, u). Ok (Some u)) rounds
    \<and> fmlookup (dag_states (snd (serve_rounds ord rounds s))) t = Some Ready"
proof -
  have "dag_inv s" by (rule dag_reachable_inv [OF assms(1)])
  then show ?thesis using assms(3-)
  proof (induction rounds arbitrary: s)
    case (Cons nu rounds)
    obtain now u where nu: "nu = (now, u)" by fastforce
    obtain r s1 where r: "inner_dequeue now (snd (inner_enqueue ord now u s)) = (r, s1)" by fastforce
    have u: "overtakes s u" using Cons.prems(4) nu by simp
    note round = overtaking_round [OF Cons.prems(1) assms(2) Cons.prems(2) u r]
    have "t < td_task_id u" using u Cons.prems(3) by (simp add: overtakes_def)
    then have t: "fmlookup (dag_states s1) t = Some Ready" using round(4) Cons.prems(3) by auto
    have "overtakes s1 v" if "(n, v) \<in> set rounds" for n v
      by (rule overtakes_next [OF round(4,5)]) (use Cons.prems(4,5) that nu in fastforce)+
    then have "fst (serve_rounds ord rounds s1) = map (\<lambda>(now, u). Ok (Some u)) rounds
        \<and> fmlookup (dag_states (snd (serve_rounds ord rounds s1))) t = Some Ready"
      using Cons.IH [OF round(2,3) t] Cons.prems(5) by auto
    then show ?case using round(1) r by (auto simp: nu split: prod.split)
  qed simp
qed

theorem critical_tasks_overtake_witness:
  "fst (serve_rounds sorted_list_of_set [(10 ^ 6, example_task 8 [] Critical), (2 * 10 ^ 6, example_task 9 [] Critical)] example_completed)
     = [Ok (Some (example_task 8 [] Critical)), Ok (Some (example_task 9 [] Critical))]
   \<and> fmlookup (dag_states (snd (serve_rounds sorted_list_of_set
       [(10 ^ 6, example_task 8 [] Critical), (2 * 10 ^ 6, example_task 9 [] Critical)] example_completed))) (TaskId 2) = Some Ready"
proof -
  have "overtakes example_completed (example_task 8 [] Critical)" "overtakes example_completed (example_task 9 [] Critical)"
    by (auto simp: overtakes_def example_task_def example_defs inner_new_def inner_new_with_policies_def less_TaskId_def split: if_splits)
  then show ?thesis
    using critical_tasks_overtake [OF example_reachable(3) hash_order_sorted, of "TaskId 2"
        "[(10 ^ 6, example_task 8 [] Critical), (2 * 10 ^ 6, example_task 9 [] Critical)]"]
    by (simp add: example_defs inner_new_def inner_new_with_policies_def example_task_def less_TaskId_def)
qed

end
