(* ===== verification/DagAging.thy ===== *)
theory DagAging
  imports DagStarvation
begin

text \<open>
  What aging achieves in the DAG scheduler: the metadata of a waiting task along any run, and how
  far a task that has waited long enough can still be overtaken.
\<close>

subsection \<open>One promotion\<close>

text \<open>A policy that ages, with a boost that the addition in \<open>u8\<close> does not wrap around.\<close>

definition promotes :: "FairnessPolicy \<Rightarrow> bool" where
  "promotes fp \<longleftrightarrow> aging_threshold_ms fp \<noteq> 0 \<and> 1 \<le> aging_boost_levels fp \<and> aging_boost_levels fp \<le> 252"

definition level :: "Priority \<Rightarrow> nat" where
  "level p = unat (as_u8 p)"

lemma level_simps [simp]: "level Low = 0" "level Normal = 1" "level High = 2" "level Critical = 3"
  by (simp_all add: level_def)

lemma level_le_3: "level p \<le> 3"
  by (cases p) simp_all

lemma from_u8_small:
  assumes "v \<le> 3"
  shows "\<exists>q. from_u8 v = Some q"
proof -
  have "v = 0 \<or> v = 1 \<or> v = 2 \<or> v = 3" using assms by unat_arith
  then show ?thesis by (auto simp: from_u8_def)
qed

lemma boosted:
  assumes "b \<le> (252 :: u8)"
  shows "\<exists>q. from_u8 (min (as_u8 p + b) 3) = Some q \<and> level q = min (level p + unat b) 3"
proof -
  have b: "unat b \<le> 252" using assms by (simp add: word_le_nat_alt)
  have "unat (as_u8 p) \<le> 3" using level_le_3 by (simp add: level_def)
  then have sum: "unat (as_u8 p + b) = level p + unat b" using b by (subst unat_add_lem [THEN iffD1]) (simp_all add: level_def)
  have m: "unat (min (as_u8 p + b) 3) = min (level p + unat b) 3"
    by (auto simp: min_def word_le_nat_alt sum)
  have "min (as_u8 p + b) 3 \<le> 3" by simp
  from from_u8_small [OF this] obtain q where q: "from_u8 (min (as_u8 p + b) 3) = Some q" by blast
  then show ?thesis using as_u8_from_u8 [OF q] m by (simp add: level_def)
qed

lemma aged_enqueued_at [simp]: "enqueued_at_ms (aged now fp sp m) = enqueued_at_ms m"
  by (simp add: aged_def enforce_deadline_def apply_aging_def split: option.split)

lemma enforce_deadline_level: "level (md_effective_priority m) \<le> level (md_effective_priority (fst (enforce_deadline now sp m)))"
  by (cases "md_effective_priority m") (auto simp: enforce_deadline_def less_Priority_def)

lemma aged_level:
  assumes "promotes fp"
  shows "level (md_effective_priority m) \<le> level (md_effective_priority (aged now fp sp m))"
    and "aging_threshold_ms fp \<le> saturating_sub now (enqueued_at_ms m) \<Longrightarrow>
      min (level (md_effective_priority m) + 1) 3 \<le> level (md_effective_priority (aged now fp sp m))"
proof -
  have b: "1 \<le> unat (aging_boost_levels fp)" using assms by (simp add: promotes_def word_le_nat_alt)
  obtain q where q: "from_u8 (min (as_u8 (md_effective_priority m) + aging_boost_levels fp) 3) = Some q"
    "level q = min (level (md_effective_priority m) + unat (aging_boost_levels fp)) 3"
    using boosted assms unfolding promotes_def by blast
  have a: "level (md_effective_priority (apply_aging now fp m))
      = (if aging_threshold_ms fp \<le> saturating_sub now (enqueued_at_ms m) then level q else level (md_effective_priority m))"
    using assms by (simp add: apply_aging_def q(1) waiting_time_ms_def promotes_def)
  have le: "level (md_effective_priority (apply_aging now fp m)) \<le> level (md_effective_priority (aged now fp sp m))"
    unfolding aged_def by (rule enforce_deadline_level)
  show "level (md_effective_priority m) \<le> level (md_effective_priority (aged now fp sp m))"
    using le a q(2) b level_le_3 [of "md_effective_priority m"] by (auto split: if_splits)
  show "min (level (md_effective_priority m) + 1) 3 \<le> level (md_effective_priority (aged now fp sp m))"
    if "aging_threshold_ms fp \<le> saturating_sub now (enqueued_at_ms m)"
    using le a q(2) b that by simp
qed

subsection \<open>The metadata of a task that stays ready\<close>

lemma unblock_metadata:
  "fmlookup (dag_states s) t \<noteq> Some Pending \<Longrightarrow>
   fmlookup (dag_metadata (unblock now x s)) t = fmlookup (dag_metadata s) t
   \<and> fmlookup (dag_states (unblock now x s)) t = fmlookup (dag_states s) t"
  by (auto simp: unblock_def make_ready_def Let_def split: option.split)

lemma fold_unblock_metadata:
  "fmlookup (dag_states s) t \<noteq> Some Pending \<Longrightarrow>
   fmlookup (dag_metadata (fold (unblock now) xs s)) t = fmlookup (dag_metadata s) t"
  by (induction xs arbitrary: s) (simp_all add: unblock_metadata)

lemma inner_complete_metadata:
  assumes "fmlookup (dag_states s) t = Some Ready"
  shows "fmlookup (dag_metadata (snd (inner_complete ord now u s))) t = fmlookup (dag_metadata s) t"
proof (cases "fmlookup (dag_states s) u = Some Running")
  case True
  let ?s = "release_running u (s\<lparr>dag_states := fmupd u TaskCompleted (dag_states s)\<rparr>)"
  have "fmlookup (dag_states ?s) t \<noteq> Some Pending" using assms by (auto simp: release_running_def split: option.split)
  from fold_unblock_metadata [OF this] show ?thesis
    using True by (simp add: inner_complete_def Let_def release_running_def split: option.split)
qed (auto simp: inner_complete_def split: option.split)

lemma inner_fail_metadata: "dag_metadata (snd (inner_fail ord u s)) = dag_metadata s"
  using inner_fail_ok(7) [of s u ord] inner_fail_error [of s u ord] by (cases "fmlookup (dag_states s) u \<in> {Some Pending, Some Ready, Some Running}") auto

lemma set_attempt_metadata [simp]: "dag_metadata (set_attempt u a s) = dag_metadata s"
  by (simp add: set_attempt_def split: option.split)

lemma inner_requeue_metadata:
  assumes "dag_inv s" and "fmlookup (dag_states s) t = Some Ready"
  shows "fmlookup (dag_metadata (snd (inner_requeue now u a s))) t = fmlookup (dag_metadata s) t"
  using assms inner_requeue_running [OF assms(1), of u] inner_requeue_other [of s u]
  by (cases "fmlookup (dag_states s) u = Some Running") (auto simp: make_ready_def Let_def split: option.split)

lemma inner_enqueue_metadata:
  assumes "dag_inv s" and "hash_order ord" and "fmlookup (dag_tasks s) t \<noteq> None"
  shows "fmlookup (dag_metadata (snd (inner_enqueue ord now u s))) t = fmlookup (dag_metadata s) t"
proof (rule inner_enqueue_cases [OF assms(1,2), of now u])
  fix e assume r: "inner_enqueue ord now u s = (Err e, s\<lparr>dag_successors := dag_successors (snd (inner_enqueue ord now u s))\<rparr>)"
  show ?thesis by (subst r) simp
qed (use assms(3) in \<open>auto simp: admitted_def Let_def\<close>)

lemma start_task_metadata:
  "re_task_id e \<noteq> t \<Longrightarrow> fmlookup (dag_metadata (start_task e task s)) t = fmlookup (dag_metadata s) t"
  by (simp add: start_task_def Let_def split: option.split)

lemma pop_loop_metadata:
  "pop_loop s h skipped = (r, s') \<Longrightarrow> fmlookup (dag_states s') t = Some Ready \<Longrightarrow>
   fmlookup (dag_metadata s') t = fmlookup (dag_metadata s) t"
proof (induction "length h" arbitrary: h skipped)
  case 0
  then show ?case by (auto simp: pop_loop.simps [of s "[]"])
next
  case (Suc n)
  then obtain e h' where hp: "heap_pop h = Some (e, h')" by (cases "heap_pop h") auto
  have n: "n = length h'" using Suc.hyps(2) ready_heap.pop_length [OF hp] by simp
  show ?case
  proof (cases "startable s e")
    case True
    then obtain task where "fmlookup (dag_tasks s) (re_task_id e) = Some task" "fits s task"
      "fmlookup (dag_states s) (re_task_id e) = Some Ready"
      by (auto simp: startable_def split: option.splits)
    then have s': "s' = (start_task e task s)\<lparr>dag_ready := fold heap_push skipped h'\<rparr>"
      using Suc.prems(1) hp by (simp add: pop_loop.simps [of s h])
    then have "re_task_id e \<noteq> t" using Suc.prems(2) by auto
    then show ?thesis by (simp add: s' start_task_metadata)
  next
    case False
    then have "pop_loop s h' skipped = (r, s') \<or> pop_loop s h' (skipped @ [e]) = (r, s')"
      using pop_loop_skip [OF hp False, of skipped] Suc.prems(1) by auto
    then show ?thesis using Suc.hyps(1) [OF n] Suc.prems(2) by blast
  qed
qed

text \<open>A task that is ready before and after a call: only a dequeue changes its metadata, by aging it.\<close>

definition aged_by :: "DagOp \<Rightarrow> FairnessPolicy \<Rightarrow> StarvationPreventionPolicy \<Rightarrow> TaskMetadata \<Rightarrow> TaskMetadata" where
  "aged_by oper fp sp m = (case oper of OpDequeue now \<Rightarrow> aged now fp sp m | _ \<Rightarrow> m)"

lemma inner_dequeue_metadata:
  assumes inv: "dag_inv s" and t: "fmlookup (dag_states s) t = Some Ready"
    and t': "fmlookup (dag_states (snd (inner_dequeue now s))) t = Some Ready"
  shows "fmlookup (dag_metadata (snd (inner_dequeue now s))) t
    = map_option (aged now (dag_fairness_policy s) (dag_starvation_policy s)) (fmlookup (dag_metadata s) t)"
proof -
  obtain es md a d where r: "age_entries now (dag_fairness_policy s) (dag_starvation_policy s) (dag_ready s)
      (dag_metadata s) = (es, md, a, d)"
    using prod_cases4 by blast
  have en: "distinct (map re_task_id (dag_ready s))" "t \<in> re_task_id ` set (dag_ready s)"
    using inv t by (auto simp: dag_inv_def dag_inv_during_def entries_ok_def)
  have "fmlookup (dag_metadata (age_ready now s)) t
      = map_option (aged now (dag_fairness_policy s) (dag_starvation_policy s)) (fmlookup (dag_metadata s) t)"
    using age_entries_pointwise [OF r en(1)] en(2) by (simp add: age_ready_def r)
  moreover obtain q s2 where p: "pop_loop (age_ready now s) (dag_ready (age_ready now s)) [] = (q, s2)" by fastforce
  moreover have s2: "snd (inner_dequeue now s) = s2" by (simp add: inner_dequeue_def Let_def p)
  ultimately show ?thesis using pop_loop_metadata [OF p] t' by simp
qed

lemma dag_step_metadata:
  assumes inv: "dag_inv s" and ord: "hash_order ord" and t: "fmlookup (dag_states s) t = Some Ready"
    and t': "fmlookup (dag_states (dag_step ord oper s)) t = Some Ready" and m: "fmlookup (dag_metadata s) t = Some m"
  shows "fmlookup (dag_metadata (dag_step ord oper s)) t
    = Some (aged_by oper (dag_fairness_policy s) (dag_starvation_policy s) m)"
proof (cases oper)
  case (OpEnqueue now u)
  have "fmlookup (dag_tasks s) t \<noteq> None"
    using inv t graph_ok_keys(1) [of s t] by (auto simp: dag_inv_def dag_inv_during_def)
  then show ?thesis using inner_enqueue_metadata [OF inv ord] m by (simp add: OpEnqueue aged_by_def)
next
  case (OpDequeue now)
  then show ?thesis using inner_dequeue_metadata [OF inv t, of now] t' m by (simp add: aged_by_def)
qed (use inner_complete_metadata [OF t] inner_fail_metadata inner_requeue_metadata [OF inv t] m in
    \<open>simp_all add: aged_by_def set_fairness_policy_def set_starvation_policy_def\<close>)

text \<open>No call but the setter changes the fairness policy.\<close>

lemma fold_unblock_fairness: "dag_fairness_policy (fold (unblock now) xs s) = dag_fairness_policy s"
proof (induction xs arbitrary: s)
  case (Cons x xs)
  have "dag_fairness_policy (unblock now x s) = dag_fairness_policy s"
    by (simp add: unblock_def make_ready_def Let_def split: option.split)
  then show ?case using Cons by simp
qed simp

lemma pop_loop_fairness: "dag_fairness_policy (snd (pop_loop s h skipped)) = dag_fairness_policy s"
proof (induction s h skipped rule: pop_loop.induct)
  case (1 s h skipped)
  then show ?case by (subst pop_loop.simps) (auto simp: start_task_def Let_def split: option.split)
qed

lemma dag_step_fairness:
  assumes "\<forall>p. oper \<noteq> OpSetFairness p"
  shows "dag_fairness_policy (dag_step ord oper s) = dag_fairness_policy s"
proof (cases oper)
  case (OpEnqueue now u)
  then show ?thesis by (simp add: inner_enqueue_def Let_def split: option.split)
next
  case (OpDequeue now)
  have "dag_fairness_policy (age_ready now s) = dag_fairness_policy s" by (auto simp: age_ready_def split: prod.splits)
  then show ?thesis using pop_loop_fairness [of "age_ready now s" "dag_ready (age_ready now s)" "[]"]
    by (simp add: OpDequeue inner_dequeue_def Let_def split_beta)
next
  case (OpComplete now u)
  then show ?thesis
    by (simp add: inner_complete_def Let_def fold_unblock_fairness release_running_def split: option.split)
next
  case (OpFail u)
  then show ?thesis by (simp add: inner_fail_def Let_def release_running_def split: option.split)
next
  case (OpRequeue now u a)
  then show ?thesis by (simp add: inner_requeue_def Let_def split: option.split)
qed (use assms in \<open>simp_all add: set_starvation_policy_def\<close>)

subsection \<open>Waiting\<close>

text \<open>The task is ready in every state of the run.\<close>

fun waits_ready :: "(TaskId set \<Rightarrow> TaskId list) \<Rightarrow> TaskId \<Rightarrow> DagOp list \<Rightarrow> Inner \<Rightarrow> bool" where
  "waits_ready ord t [] s \<longleftrightarrow> fmlookup (dag_states s) t = Some Ready"
| "waits_ready ord t (oper # ops) s \<longleftrightarrow> fmlookup (dag_states s) t = Some Ready \<and> waits_ready ord t ops (dag_step ord oper s)"

text \<open>The number of dequeues of a run at which a task enqueued at \<open>enq\<close> has waited past the threshold.\<close>

definition late_dequeues :: "u64 \<Rightarrow> u64 \<Rightarrow> DagOp list \<Rightarrow> nat" where
  "late_dequeues threshold enq ops
    = length (filter (\<lambda>oper. case oper of OpDequeue now \<Rightarrow> threshold \<le> saturating_sub now enq | _ \<Rightarrow> False) ops)"

lemma waits_ready_start: "waits_ready ord t ops s \<Longrightarrow> fmlookup (dag_states s) t = Some Ready"
  by (cases ops) simp_all

lemma waiting_level:
  assumes "dag_inv s" and ord: "hash_order ord" and "waits_ready ord t ops s" and "fmlookup (dag_metadata s) t = Some m"
    and fp: "promotes fp" and "dag_fairness_policy s = fp" and "\<forall>oper \<in> set ops. \<forall>p. oper \<noteq> OpSetFairness p"
  shows "\<exists>m'. fmlookup (dag_metadata (fold (dag_step ord) ops s)) t = Some m'
    \<and> enqueued_at_ms m' = enqueued_at_ms m \<and> dag_fairness_policy (fold (dag_step ord) ops s) = fp
    \<and> fmlookup (dag_states (fold (dag_step ord) ops s)) t = Some Ready
    \<and> min (level (md_effective_priority m) + late_dequeues (aging_threshold_ms fp) (enqueued_at_ms m) ops) 3
        \<le> level (md_effective_priority m')"
  using assms(1,3,4,6,7)
proof (induction ops arbitrary: s m)
  case Nil
  then show ?case by (simp add: late_dequeues_def)
next
  case (Cons oper ops)
  let ?s = "dag_step ord oper s" and ?m = "aged_by oper fp (dag_starvation_policy s) m"
  have w: "waits_ready ord t ops ?s" and t: "fmlookup (dag_states s) t = Some Ready" using Cons.prems(2) by simp_all
  have m: "fmlookup (dag_metadata ?s) t = Some ?m"
    using dag_step_metadata [OF Cons.prems(1) ord t waits_ready_start [OF w] Cons.prems(3)] Cons.prems(4) by simp
  have f: "dag_fairness_policy ?s = fp" using dag_step_fairness [of oper] Cons.prems(4,5) by simp
  have e: "enqueued_at_ms ?m = enqueued_at_ms m" by (simp add: aged_by_def split: DagOp.split)
  let ?k = "\<lambda>ops. late_dequeues (aging_threshold_ms fp) (enqueued_at_ms m) ops"
  have up: "min (level (md_effective_priority m) + ?k [oper]) 3 \<le> level (md_effective_priority ?m)"
    using aged_level [OF fp, where m = m] level_le_3 [of "md_effective_priority m"]
    by (cases oper) (simp_all add: aged_by_def late_dequeues_def min.coboundedI1)
  have k: "?k (oper # ops) = ?k [oper] + ?k ops" by (simp add: late_dequeues_def)
  from Cons.IH [OF dag_step_inv [OF Cons.prems(1) ord] w m f] Cons.prems(5) obtain m' where
    m': "fmlookup (dag_metadata (fold (dag_step ord) ops ?s)) t = Some m'" "enqueued_at_ms m' = enqueued_at_ms m"
      "dag_fairness_policy (fold (dag_step ord) ops ?s) = fp"
      "fmlookup (dag_states (fold (dag_step ord) ops ?s)) t = Some Ready"
      "min (level (md_effective_priority ?m) + ?k ops) 3 \<le> level (md_effective_priority m')"
    by (auto simp: e)
  have "min (level (md_effective_priority m) + ?k (oper # ops)) 3 \<le> level (md_effective_priority m')"
    using up m'(5) unfolding k by linarith
  then show ?case using m' by simp
qed

lemma level_3: "3 \<le> level p \<Longrightarrow> p = Critical"
  by (cases p) simp_all

text \<open>A run in which the waiting task is overtaken as in \<open>DagStarvation\<close>.\<close>

definition round_ops :: "(u64 \<times> TaskDescriptor) list \<Rightarrow> DagOp list" where
  "round_ops rounds = concat (map (\<lambda>(now, u). [OpEnqueue now u, OpDequeue now]) rounds)"

lemma overtaken_waits:
  assumes "dag_inv s" and ord: "hash_order ord" and "dag_resource_pool s = None"
    and "fmlookup (dag_states s) t = Some Ready"
    and "\<forall>(now, u) \<in> set rounds. overtakes s u" and "sorted_wrt (<) (map (td_task_id \<circ> snd) rounds)"
  shows "waits_ready ord t (round_ops rounds) s \<and> dag_resource_pool (fold (dag_step ord) (round_ops rounds) s) = None
    \<and> fmlookup (dag_tasks (fold (dag_step ord) (round_ops rounds) s)) t = fmlookup (dag_tasks s) t"
  using assms(1,3-)
proof (induction rounds arbitrary: s)
  case (Cons nu rounds)
  obtain now u where nu: "nu = (now, u)" by fastforce
  obtain r s1 where r: "inner_dequeue now (snd (inner_enqueue ord now u s)) = (r, s1)" by fastforce
  have u: "overtakes s u" using Cons.prems(4) nu by simp
  note round = overtaking_round [OF Cons.prems(1) ord Cons.prems(2) u r]
  have "t < td_task_id u" using u Cons.prems(3) by (simp add: overtakes_def)
  then have t: "fmlookup (dag_states s1) t = Some Ready" and t1: "fmlookup (dag_tasks s1) t = fmlookup (dag_tasks s) t"
    using round(4,5) Cons.prems(3) by auto
  have mid: "fmlookup (dag_states (snd (inner_enqueue ord now u s))) t = Some Ready"
    using inner_dequeue_states [of now "snd (inner_enqueue ord now u s)"] r t by (auto split: if_splits)
  have "overtakes s1 v" if "(n, v) \<in> set rounds" for n v
    by (rule overtakes_next [OF round(4,5)]) (use Cons.prems(4,5) that nu in fastforce)+
  then have "\<forall>(n, v) \<in> set rounds. overtakes s1 v" by blast
  from Cons.IH [OF round(2,3) t this] Cons.prems(3,5) show ?case
    using mid t1 r by (simp add: round_ops_def nu)
qed (simp add: round_ops_def)

text \<open>
  C9: what aging guarantees. Take a reachable scheduler whose fairness policy ages (a threshold
  other than zero and a boost from 1 to 252) and is not replaced, and a task that stays ready along
  any sequence of calls. After three dequeues at which the task had waited past the threshold, the
  next dequeue, if the task fits the free resources, hands out a task, and that is the waiting task
  itself or one with a larger identifier whose effective priority is critical: lower priorities
  overtake it no more.
\<close>

theorem aging_limits_overtaking:
  assumes "dag_reachable s" and ord: "hash_order ord" and "promotes (dag_fairness_policy s)"
    and "waits_ready ord t ops s" and "\<forall>oper \<in> set ops. \<forall>p. oper \<noteq> OpSetFairness p"
    and "fmlookup (dag_metadata s) t = Some m"
    and "3 \<le> late_dequeues (aging_threshold_ms (dag_fairness_policy s)) (enqueued_at_ms m) ops"
    and "fmlookup (dag_tasks (fold (dag_step ord) ops s)) t = Some task" and "fits (fold (dag_step ord) ops s) task"
  shows "\<exists>u. fst (inner_dequeue now (fold (dag_step ord) ops s)) = Ok (Some u)
    \<and> (td_task_id u = t \<or> t < td_task_id u
        \<and> (\<exists>e \<in> set (dag_ready (age_ready now (fold (dag_step ord) ops s))).
             re_task_id e = td_task_id u \<and> effective_priority e = Critical))"
proof -
  let ?s = "fold (dag_step ord) ops s" and ?fp = "dag_fairness_policy s"
  let ?a = "age_ready now ?s"
  have "dag_inv ?s" using dag_reachable_inv [OF assms(1)]
    by (induction ops arbitrary: s) (simp_all add: dag_step_inv ord)
  note inv = this age_ready_inv [OF this, of now]
  obtain m' where m': "fmlookup (dag_metadata ?s) t = Some m'" "dag_fairness_policy ?s = ?fp"
      "fmlookup (dag_states ?s) t = Some Ready" "3 \<le> level (md_effective_priority m')"
    using waiting_level [OF dag_reachable_inv [OF assms(1)] ord assms(4,6,3) refl assms(5)] assms(7) by auto
  have crit: "md_effective_priority (aged now ?fp sp m') = Critical" for sp
    using level_3 aged_level(1) [OF assms(3), where m = m' and now = now and sp = sp] m'(4) by simp
  have "t \<in> re_task_id ` set (dag_ready ?a)"
    using inv(2) m'(3) by (simp add: dag_inv_def dag_inv_during_def entries_ok_def)
  then obtain x where x: "x \<in> set (dag_ready ?a)" "re_task_id x = t" by blast
  have xc: "effective_priority x = Critical" using age_ready_entry [OF inv(1) x(1)] x(2) m' crit by simp
  have sx: "startable ?a x" using x(2) m'(3) assms(8,9) by (simp add: startable_def fits_def)
  obtain q s2 where p: "pop_loop ?a (dag_ready ?a) [] = (q, s2)" by fastforce
  note c = pop_loop_chosen [OF p]
  obtain u where q: "q = Some u" using c sx x(1) by (cases q) (auto simp: chosen_def)
  obtain e where e: "e \<in> set (dag_ready ?a)" "fmlookup (dag_tasks ?s) (re_task_id e) = Some u" "outranks e x"
    using c sx x(1) unfolding chosen_def q by auto
  have id: "td_task_id u = re_task_id e"
    using graph_ok_task e(2) inv(1) unfolding dag_inv_def dag_inv_during_def by blast
  have "effective_priority e = Critical \<and> t \<le> re_task_id e"
    using e(3) xc x(2) by (cases "effective_priority e") (auto simp: outranks_def less_Priority_def)
  moreover have "fst (inner_dequeue now ?s) = Ok (Some u)" by (simp add: inner_dequeue_def Let_def p q)
  ultimately show ?thesis using e(1) id by (auto simp: order_le_less)
qed

text \<open>The default policy, with a normal task that three critical ones overtake.\<close>

definition example_rounds :: "(u64 \<times> TaskDescriptor) list" where
  "example_rounds = map (\<lambda>n. (10 ^ 6, example_task n [] Critical)) [7, 8, 9]"

theorem aging_limits_overtaking_witness:
  "\<exists>u. fst (inner_dequeue (2 * 10 ^ 6) (fold (dag_step sorted_list_of_set) (round_ops example_rounds) example_completed)) = Ok (Some u)
    \<and> (td_task_id u = TaskId 2 \<or> TaskId 2 < td_task_id u
        \<and> (\<exists>e \<in> set (dag_ready (age_ready (2 * 10 ^ 6)
                 (fold (dag_step sorted_list_of_set) (round_ops example_rounds) example_completed))).
             re_task_id e = td_task_id u \<and> effective_priority e = Critical))"
proof (rule aging_limits_overtaking [OF example_reachable(3) hash_order_sorted])
  have over: "\<forall>(now, u) \<in> set example_rounds. overtakes example_completed u"
    by (auto simp: example_rounds_def overtakes_def example_task_def example_defs inner_new_def
        inner_new_with_policies_def less_TaskId_def split: if_splits)
  have w: "waits_ready sorted_list_of_set (TaskId 2) (round_ops example_rounds) example_completed
    \<and> dag_resource_pool (fold (dag_step sorted_list_of_set) (round_ops example_rounds) example_completed) = None
    \<and> fmlookup (dag_tasks (fold (dag_step sorted_list_of_set) (round_ops example_rounds) example_completed)) (TaskId 2)
      = fmlookup (dag_tasks example_completed) (TaskId 2)"
    by (rule overtaken_waits [OF dag_reachable_inv [OF example_reachable(3)] hash_order_sorted _ _ over])
       (simp_all add: example_defs inner_new_def inner_new_with_policies_def example_rounds_def example_task_def less_TaskId_def)
  show "waits_ready sorted_list_of_set (TaskId 2) (round_ops example_rounds) example_completed" using w by blast
  show "fmlookup (dag_tasks (fold (dag_step sorted_list_of_set) (round_ops example_rounds) example_completed)) (TaskId 2) = Some example_second"
    using w by (simp add: example_defs)
  show "fits (fold (dag_step sorted_list_of_set) (round_ops example_rounds) example_completed) example_second"
    using w by (simp add: fits_def)
  show "promotes (dag_fairness_policy example_completed)"
    by (simp add: promotes_def example_defs inner_new_def inner_new_with_policies_def default_fairness_def)
  show "\<forall>oper \<in> set (round_ops example_rounds). \<forall>p. oper \<noteq> OpSetFairness p"
    by (auto simp: round_ops_def example_rounds_def)
  show "fmlookup (dag_metadata example_completed) (TaskId 2) = Some (metadata_new 9 Normal)"
    by (simp add: example_defs)
  show "3 \<le> late_dequeues (aging_threshold_ms (dag_fairness_policy example_completed))
      (enqueued_at_ms (metadata_new 9 Normal)) (round_ops example_rounds)"
    by (simp add: late_dequeues_def round_ops_def example_rounds_def example_defs inner_new_def
        inner_new_with_policies_def default_fairness_def metadata_new_def saturating_sub_def)
qed

end
