(* ===== verification/SoakHarness.thy ===== *)
theory SoakHarness
  imports DagStarvation
begin

text \<open>
  The soak-test harness (\<open>scheduler/src/soak_test.rs\<close>): a scheduler under a generated workload, and
  the proof that the workload is worked off completely.
\<close>

subsection \<open>The harness\<close>

record SoakTestMetrics =
  sm_total_tasks :: usize
  sm_completed_tasks :: usize
  sm_dequeued_by_priority :: "(Priority, usize) fmap"
  sm_elapsed :: duration
  sm_throughput :: fp
  sm_fairness_ratios :: "(Priority, fp) fmap"
  sm_starvation_events :: u64

definition make_test_task :: "TaskId \<Rightarrow> Priority \<Rightarrow> TaskId list \<Rightarrow> TaskDescriptor" where
  "make_test_task i priority deps =
     \<lparr>td_task_id = i, td_command = [''echo'', ''test''], td_working_dir = ''/tmp'', td_env = fmempty,
      td_resources = default_allocation, td_policy = default_retry_policy, td_attempt = 0,
      td_is_critical = is_critical_priority priority, td_priority = priority, td_dependencies = deps,
      td_location = Local, td_evaluation = default_evaluation\<rparr>"

text \<open>An \<open>Instant\<close> is a reading of the monotonic clock in nanoseconds; \<open>elapsed\<close> saturates at zero.\<close>

record SoakTestHarness =
  so_scheduler :: DagScheduler
  so_start_time :: nat
  so_task_count :: usize
  so_dequeued :: "(Priority, usize) fmap"

definition soak_new :: "nat \<Rightarrow> SoakTestHarness" where
  "soak_new now = \<lparr>so_scheduler = dag_new, so_start_time = now, so_task_count = 0, so_dequeued = fmempty\<rparr>"

text \<open>
  One turn of the loop of \<open>generate_workload\<close>: the index, the clock that \<open>enqueue\<close> reads and the
  identifier that is drawn. The whole takes one such pair for each of the \<open>count\<close> tasks; with an
  empty distribution the first remainder panics.
\<close>

definition generate_one :: "(TaskId set \<Rightarrow> TaskId list) \<Rightarrow> (Priority \<times> fp) list \<Rightarrow> nat \<times> u64 \<times> TaskId
    \<Rightarrow> TaskId list \<times> SoakTestHarness \<Rightarrow> TaskId list \<times> SoakTestHarness" where
  "generate_one ord pd draw acc =
     (case (draw, acc) of ((idx, now, task_id), (task_ids, h)) \<Rightarrow>
        let priority = fst (pd ! (idx mod length pd));
            task = make_test_task task_id priority [] in
        case with_lock (inner_enqueue ord now task) (so_scheduler h) of (r, d) \<Rightarrow>
          let h1 = h\<lparr>so_scheduler := d\<rparr> in
          if is_ok r then (task_ids @ [task_id], h1\<lparr>so_task_count := so_task_count h1 + 1\<rparr>)
          else (task_ids, h1))"

definition generate_workload :: "(TaskId set \<Rightarrow> TaskId list) \<Rightarrow> (u64 \<times> TaskId) list \<Rightarrow> (Priority \<times> fp) list
    \<Rightarrow> SoakTestHarness \<Rightarrow> (TaskId list \<times> SoakTestHarness) option" where
  "generate_workload ord draws pd h =
     (if pd = [] \<and> draws \<noteq> [] then None
      else Some (fold (generate_one ord pd) (List.enumerate 0 draws) ([], h)))"

text \<open>One turn of \<open>process_batch\<close>, with the clock readings of \<open>dequeue\<close> and \<open>complete\<close>.\<close>

definition count_of :: "(Priority, usize) fmap \<Rightarrow> Priority \<Rightarrow> usize" where
  "count_of m p = (case fmlookup m p of None \<Rightarrow> 0 | Some n \<Rightarrow> n)"

definition process_one :: "(TaskId set \<Rightarrow> TaskId list) \<Rightarrow> u64 \<times> u64 \<Rightarrow> SoakTestHarness \<Rightarrow> SoakTestHarness" where
  "process_one ord clocks h =
     (case clocks of (now, now') \<Rightarrow>
        case with_lock (inner_dequeue now) (so_scheduler h) of (r, d) \<Rightarrow>
          let h1 = h\<lparr>so_scheduler := d\<rparr> in
          case r of
            Err _ \<Rightarrow> h1
          | Ok None \<Rightarrow> h1
          | Ok (Some task) \<Rightarrow>
              let h2 = h1\<lparr>so_dequeued := fmupd (td_priority task)
                    (count_of (so_dequeued h1) (td_priority task) + 1) (so_dequeued h1)\<rparr> in
              h2\<lparr>so_scheduler := snd (with_lock (inner_complete ord now' (td_task_id task)) (so_scheduler h2))\<rparr>)"

definition process_batch :: "(TaskId set \<Rightarrow> TaskId list) \<Rightarrow> (u64 \<times> u64) list \<Rightarrow> SoakTestHarness \<Rightarrow> SoakTestHarness" where
  "process_batch ord clocks h = fold (process_one ord) clocks h"

definition total_count_dequeued :: "(Priority, usize) fmap \<Rightarrow> usize" where
  "total_count_dequeued m = sum_list (map (count_of m) priority_all)"

definition fairness_ratio :: "(Priority, usize) fmap \<Rightarrow> Priority \<Rightarrow> fp" where
  "fairness_ratio m p =
     (let actual_ratio = (if total_count_dequeued m > 0
            then fdiv binary64 (f64_of_word (count_of m p)) (f64_of_word (total_count_dequeued m)) else Fin 0);
          expected_ratio = fdiv binary64 (weight_percentage p) (Fin 100) in
      if flt (Fin 0) expected_ratio then fdiv binary64 actual_ratio expected_ratio else Fin 1)"

definition metrics :: "nat \<Rightarrow> SoakTestHarness \<Rightarrow> SoakTestMetrics" where
  "metrics now h = (let elapsed = now - so_start_time h in
     \<lparr>sm_total_tasks = so_task_count h, sm_completed_tasks = total_count_dequeued (so_dequeued h),
      sm_dequeued_by_priority = so_dequeued h, sm_elapsed = elapsed,
      sm_throughput = (if flt (Fin 0) (as_secs_f64 elapsed)
        then fdiv binary64 (f64_of_word (total_count_dequeued (so_dequeued h))) (as_secs_f64 elapsed) else Fin 0),
      sm_fairness_ratios = fold (\<lambda>p. fmupd p (fairness_ratio (so_dequeued h) p)) priority_all fmempty,
      sm_starvation_events = 0\<rparr>)"

subsection \<open>Schedulers of independent tasks\<close>

definition independent :: "Inner \<Rightarrow> bool" where
  "independent s \<longleftrightarrow> dag_inv s \<and> dag_resource_pool s = None
     \<and> (\<forall>t task. fmlookup (dag_tasks s) t = Some task \<longrightarrow> td_dependencies task = [])"

definition waiting_at :: "Inner \<Rightarrow> Priority \<Rightarrow> TaskId set" where
  "waiting_at s p = {t. fmlookup (dag_states s) t = Some Ready \<and> map_option td_priority (fmlookup (dag_tasks s) t) = Some p}"

lemma finite_waiting_at [simp]: "finite (waiting_at s p)"
  by (rule finite_subset [of _ "fmdom' (dag_states s)"]) (auto simp: waiting_at_def fmdom'_lookup)

lemma independent_new: "independent inner_new"
  using dag_reachable_inv [OF dag_reachable_new]
  by (simp add: independent_def inner_new_def inner_new_with_policies_def)

lemma independent_enqueue:
  assumes s: "independent s" and ord: "hash_order ord" and fresh: "fmlookup (dag_tasks s) (td_task_id u) = None"
    and deps: "td_dependencies u = []"
  shows "fst (inner_enqueue ord now u s) = Ok ()" and "independent (snd (inner_enqueue ord now u s))"
    and "dag_states (snd (inner_enqueue ord now u s)) = fmupd (td_task_id u) Ready (dag_states s)"
    and "dag_tasks (snd (inner_enqueue ord now u s)) = fmupd (td_task_id u) u (dag_tasks s)"
proof -
  have inv: "dag_inv s" using s by (simp add: independent_def)
  then have "acyclic (dag_edges (fmupd (td_task_id u) u (dag_tasks s)))"
    using acyclic_fresh_iff [OF _ fresh] deps by (simp add: dag_inv_def dag_inv_during_def)
  then have enq: "inner_enqueue ord now u s = (Ok (), admitted now u s)"
    using fresh deps detect_cycle_None_iff [OF ord] by (intro inner_enqueue_ok) simp_all
  show "fst (inner_enqueue ord now u s) = Ok ()" by (simp add: enq)
  show "dag_states (snd (inner_enqueue ord now u s)) = fmupd (td_task_id u) Ready (dag_states s)" using enq deps by simp
  show "dag_tasks (snd (inner_enqueue ord now u s)) = fmupd (td_task_id u) u (dag_tasks s)" using enq by simp
  show "independent (snd (inner_enqueue ord now u s))"
    using s inner_enqueue_inv [OF inv ord, of now u] deps enq by (auto simp: independent_def admitted_def Let_def split: if_splits)
qed

text \<open>A dequeue followed by the completion of what it returned.\<close>

lemma independent_dequeue:
  assumes s: "independent s" and r: "inner_dequeue now s = (r, s')"
  shows "independent s'" and "dag_tasks s' = dag_tasks s"
    and "(\<forall>t. fmlookup (dag_states s) t \<noteq> Some Ready) \<and> r = Ok None \<and> dag_states s' = dag_states s
      \<or> (\<exists>t task. fmlookup (dag_states s) t = Some Ready \<and> fmlookup (dag_tasks s) t = Some task \<and> r = Ok (Some task)
          \<and> td_task_id task = t \<and> dag_states s' = fmupd t Running (dag_states s))"
proof -
  let ?a = "age_ready now s"
  have inv: "dag_inv s" and pool: "dag_resource_pool s = None" using s by (simp_all add: independent_def)
  obtain q s2 where p: "pop_loop ?a (dag_ready ?a) [] = (q, s2)" by fastforce
  have r': "r = Ok q" "s' = s2" using r by (simp_all add: inner_dequeue_def Let_def p)
  show tasks: "dag_tasks s' = dag_tasks s" using inner_dequeue_frame(1) [of now s] r by simp
  have "dag_resource_pool s' = None" using pop_loop_pool_none [of ?a "dag_ready ?a" "[]"] pool p r' by simp
  then show "independent s'" using s inner_dequeue_inv [OF inv, of now] r tasks by (simp add: independent_def)
  show "(\<forall>t. fmlookup (dag_states s) t \<noteq> Some Ready) \<and> r = Ok None \<and> dag_states s' = dag_states s
      \<or> (\<exists>t task. fmlookup (dag_states s) t = Some Ready \<and> fmlookup (dag_tasks s) t = Some task \<and> r = Ok (Some task)
          \<and> td_task_id task = t \<and> dag_states s' = fmupd t Running (dag_states s))"
    using inner_dequeue_pick [OF inv r] pool by blast
qed

lemma independent_complete:
  assumes s: "independent s" and ord: "hash_order ord" and t: "fmlookup (dag_states s) t = Some Running"
  shows "independent (snd (inner_complete ord now t s))" and "dag_tasks (snd (inner_complete ord now t s)) = dag_tasks s"
    and "dag_states (snd (inner_complete ord now t s)) = fmupd t TaskCompleted (dag_states s)"
proof -
  have inv: "dag_inv s" and deps: "deps_of (dag_tasks s) x = []" for x
    using s by (simp_all add: independent_def deps_of_def split: option.split)
  have "x \<in> successors_of s t \<longleftrightarrow> t \<in> set (deps_of (dag_tasks s) x)" for x
    using inv unfolding dag_inv_def dag_inv_during_def graph_ok_def by blast
  then have succ: "successors_of s t = {}" using deps by auto
  have empty: "ord {} = []" using hash_order_set [OF ord, of "{}"] by simp
  let ?s = "release_running t (s\<lparr>dag_states := fmupd t TaskCompleted (dag_states s)\<rparr>)"
  have "successors_of ?s t = {}" using succ by (auto simp: successors_of_def release_running_def split: option.splits)
  then have c: "snd (inner_complete ord now t s) = ?s" using t empty by (simp add: inner_complete_def Let_def)
  show tasks: "dag_tasks (snd (inner_complete ord now t s)) = dag_tasks s"
    "dag_states (snd (inner_complete ord now t s)) = fmupd t TaskCompleted (dag_states s)"
    unfolding c by (simp_all add: release_running_def split: option.split)
  have "dag_resource_pool (snd (inner_complete ord now t s)) = None"
    unfolding c using s by (simp add: release_running_def independent_def split: option.split)
  then show "independent (snd (inner_complete ord now t s))"
    using s inner_complete_inv [OF inv ord, of now t] tasks by (simp add: independent_def)
qed

subsection \<open>One turn\<close>

text \<open>The harness while the mutex of its scheduler is not poisoned.\<close>

abbreviation soak_inner :: "SoakTestHarness \<Rightarrow> Inner" where
  "soak_inner h \<equiv> dag_inner (so_scheduler h)"

definition soak_ok :: "SoakTestHarness \<Rightarrow> bool" where
  "soak_ok h \<longleftrightarrow> \<not> dag_poisoned (so_scheduler h) \<and> independent (soak_inner h)"

lemma waiting_at_upd:
  "fmlookup (dag_tasks s) t = Some task \<Longrightarrow> dag_tasks s' = dag_tasks s \<Longrightarrow> dag_states s' = fmupd t st (dag_states s) \<Longrightarrow>
   st \<noteq> Ready \<Longrightarrow> waiting_at s' p = waiting_at s p - (if td_priority task = p then {t} else {})"
  by (auto simp: waiting_at_def split: if_splits)

lemma count_of_upd [simp]: "count_of (fmupd p n m) q = (if q = p then n else count_of m q)"
  by (simp add: count_of_def)

text \<open>A turn completes a waiting task of some priority and counts it, and does nothing when none waits.\<close>

definition works_off :: "SoakTestHarness \<Rightarrow> SoakTestHarness \<Rightarrow> bool" where
  "works_off h h' \<longleftrightarrow> soak_ok h' \<and> so_task_count h' = so_task_count h
     \<and> dag_tasks (soak_inner h') = dag_tasks (soak_inner h)
     \<and> ((\<forall>p. waiting_at (soak_inner h) p = {}) \<and> so_dequeued h' = so_dequeued h
          \<and> dag_states (soak_inner h') = dag_states (soak_inner h)
        \<or> (\<exists>t p. t \<in> waiting_at (soak_inner h) p
              \<and> so_dequeued h' = fmupd p (count_of (so_dequeued h) p + 1) (so_dequeued h)
              \<and> dag_states (soak_inner h') = fmupd t TaskCompleted (dag_states (soak_inner h))))"

lemma process_one_works_off:
  assumes h: "soak_ok h" and ord: "hash_order ord"
  shows "works_off h (process_one ord c h)"
proof -
  obtain now now' where c: "c = (now, now')" by fastforce
  let ?s = "soak_inner h"
  have s: "independent ?s" and ok: "\<not> dag_poisoned (so_scheduler h)" using h by (simp_all add: soak_ok_def)
  obtain r s1 where r: "inner_dequeue now ?s = (r, s1)" by fastforce
  note dq = independent_dequeue [OF s r]
  from dq(3) show ?thesis
  proof (elim disjE conjE exE)
    assume none: "\<forall>t. fmlookup (dag_states ?s) t \<noteq> Some Ready" "r = Ok None" "dag_states s1 = dag_states ?s"
    then have "process_one ord c h = h\<lparr>so_scheduler := (so_scheduler h)\<lparr>dag_inner := s1\<rparr>\<rparr>"
      using ok r by (simp add: process_one_def c with_lock_def)
    then show ?thesis using none dq(1,2) ok by (simp add: works_off_def soak_ok_def waiting_at_def)
  next
    fix t task
    assume t: "fmlookup (dag_states ?s) t = Some Ready" "fmlookup (dag_tasks ?s) t = Some task" "r = Ok (Some task)"
      "td_task_id task = t" "dag_states s1 = fmupd t Running (dag_states ?s)"
    let ?c = "inner_complete ord now' t s1"
    have run: "fmlookup (dag_states s1) t = Some Running" using t(5) by simp
    note cm = independent_complete [OF dq(1) ord run, of now']
    have "process_one ord c h = h\<lparr>so_scheduler := (so_scheduler h)\<lparr>dag_inner := snd ?c\<rparr>,
        so_dequeued := fmupd (td_priority task) (count_of (so_dequeued h) (td_priority task) + 1) (so_dequeued h)\<rparr>"
      using ok r t(3,4) by (cases ?c) (simp add: process_one_def c with_lock_def Let_def)
    moreover have "t \<in> waiting_at ?s (td_priority task)" using t(1,2) by (simp add: waiting_at_def)
    moreover have "dag_states (snd ?c) = fmupd t TaskCompleted (dag_states ?s)" using cm(3) t(5) by simp
    ultimately show ?thesis using cm(1,2) dq(2) ok by (auto simp: works_off_def soak_ok_def)
  qed
qed

subsection \<open>Batches\<close>

definition waiting_total :: "Inner \<Rightarrow> nat" where
  "waiting_total s = sum_list (map (\<lambda>p. card (waiting_at s p)) priority_all)"

lemma waiting_total_0: "waiting_total s = 0 \<Longrightarrow> waiting_at s p = {}"
  by (cases p) (auto simp: waiting_total_def priority_all_def)

definition in_hand :: "Inner \<Rightarrow> TaskId \<Rightarrow> bool" where
  "in_hand s t \<longleftrightarrow> fmlookup (dag_states s) t = Some Ready \<or> fmlookup (dag_states s) t = Some TaskCompleted"

lemma works_off_counts:
  assumes "works_off h h'"
  shows "count_of (so_dequeued h') p + of_nat (card (waiting_at (soak_inner h') p))
      = count_of (so_dequeued h) p + of_nat (card (waiting_at (soak_inner h) p))"
    and "waiting_total (soak_inner h') = waiting_total (soak_inner h) - 1"
    and "in_hand (soak_inner h) t \<Longrightarrow>
      in_hand (soak_inner h') t"
proof -
  let ?s = "soak_inner h" and ?s' = "soak_inner h'"
  have tasks: "dag_tasks ?s' = dag_tasks ?s" using assms by (simp add: works_off_def)
  from assms consider (none) "\<forall>p. waiting_at ?s p = {}" "so_dequeued h' = so_dequeued h" "dag_states ?s' = dag_states ?s"
    | (one) t p where "t \<in> waiting_at ?s p" "so_dequeued h' = fmupd p (count_of (so_dequeued h) p + 1) (so_dequeued h)"
        "dag_states ?s' = fmupd t TaskCompleted (dag_states ?s)"
    unfolding works_off_def by blast
  then have "(\<forall>p. count_of (so_dequeued h') p + of_nat (card (waiting_at ?s' p))
      = count_of (so_dequeued h) p + of_nat (card (waiting_at ?s p)))
    \<and> waiting_total ?s' = waiting_total ?s - 1
    \<and> (\<forall>t. in_hand ?s t \<longrightarrow>
          in_hand ?s' t)"
  proof cases
    case none
    then have "waiting_at ?s' p = waiting_at ?s p" for p using tasks by (simp add: waiting_at_def)
    then show ?thesis using none by (simp add: waiting_total_def in_hand_def)
  next
    case (one t p)
    obtain task where task: "fmlookup (dag_tasks ?s) t = Some task" "td_priority task = p"
      using one(1) by (auto simp: waiting_at_def)
    have w: "waiting_at ?s' q = waiting_at ?s q - (if p = q then {t} else {})" for q
      using waiting_at_upd [OF task(1) tasks one(3)] task(2) by simp
    obtain n where c: "card (waiting_at ?s p) = Suc n" "card (waiting_at ?s p - {t}) = n"
      using card.remove [OF finite_waiting_at one(1)] by simp
    have "waiting_total ?s' = waiting_total ?s - 1"
      using c by (cases p) (simp_all add: waiting_total_def priority_all_def w)
    moreover have "\<forall>q. count_of (so_dequeued h') q + of_nat (card (waiting_at ?s' q))
        = count_of (so_dequeued h) q + of_nat (card (waiting_at ?s q))"
      using c by (simp add: w one(2))
    ultimately show ?thesis using one(3) by (auto simp: in_hand_def)
  qed
  then show "count_of (so_dequeued h') p + of_nat (card (waiting_at ?s' p))
      = count_of (so_dequeued h) p + of_nat (card (waiting_at ?s p))"
    and "waiting_total ?s' = waiting_total ?s - 1"
    and "in_hand ?s t \<Longrightarrow>
      in_hand ?s' t"
    by blast+
qed

lemma process_batch_counts:
  assumes "soak_ok h" and ord: "hash_order ord"
  shows "soak_ok (process_batch ord cs h)
    \<and> so_task_count (process_batch ord cs h) = so_task_count h
    \<and> (\<forall>p. count_of (so_dequeued (process_batch ord cs h)) p + of_nat (card (waiting_at (soak_inner (process_batch ord cs h)) p))
        = count_of (so_dequeued h) p + of_nat (card (waiting_at (soak_inner h) p)))
    \<and> waiting_total (soak_inner (process_batch ord cs h)) = waiting_total (soak_inner h) - length cs
    \<and> (\<forall>t. in_hand (soak_inner h) t \<longrightarrow>
          in_hand (soak_inner (process_batch ord cs h)) t)"
  using assms(1)
proof (induction cs arbitrary: h)
  case (Cons c cs)
  note w = process_one_works_off [OF Cons.prems ord, of c]
  have "soak_ok (process_one ord c h)" "so_task_count (process_one ord c h) = so_task_count h"
    using w by (simp_all add: works_off_def)
  with Cons.IH [of "process_one ord c h"] works_off_counts [OF w] show ?case by (simp add: process_batch_def)
qed (simp add: process_batch_def)

subsection \<open>The workload\<close>

text \<open>The priority of the task with index \<open>i\<close>, and how many of the tasks from \<open>k\<close> on have the priority \<open>p\<close>.\<close>

definition priority_at :: "(Priority \<times> fp) list \<Rightarrow> nat \<Rightarrow> Priority" where
  "priority_at pd i = fst (pd ! (i mod length pd))"

definition generated :: "(Priority \<times> fp) list \<Rightarrow> nat \<Rightarrow> nat \<Rightarrow> Priority \<Rightarrow> nat" where
  "generated pd k n p = length (filter (\<lambda>i. priority_at pd i = p) [k..<k + n])"

lemma generated_Suc: "generated pd k (Suc n) p = (if priority_at pd k = p then 1 else 0) + generated pd (Suc k) n p"
proof -
  have "[k..<k + Suc n] = k # [Suc k..<Suc k + n]" using upt_conv_Cons [of k "k + Suc n"] by simp
  then show ?thesis unfolding generated_def by simp
qed

lemma generated_total: "sum_list (map (generated pd k n) priority_all) = n"
proof (induction n arbitrary: k)
  case (Suc n)
  then show ?case using Suc [of "Suc k"]
    by (cases "priority_at pd k") (simp_all add: generated_Suc priority_all_def)
qed (simp add: generated_def priority_all_def)

lemma generate_spec:
  assumes ord: "hash_order ord" and "soak_ok h" and "distinct (map snd draws)"
    and "\<forall>t \<in> snd ` set draws. fmlookup (dag_tasks (soak_inner h)) t = None"
  shows "\<exists>h'. fold (generate_one ord pd) (List.enumerate k draws) (ids, h) = (ids @ map snd draws, h') \<and> soak_ok h'
    \<and> so_task_count h' = so_task_count h + of_nat (length draws) \<and> so_dequeued h' = so_dequeued h
    \<and> (\<forall>p. card (waiting_at (soak_inner h') p) = card (waiting_at (soak_inner h) p) + generated pd k (length draws) p)
    \<and> (\<forall>t. in_hand (soak_inner h) t \<or> t \<in> snd ` set draws \<longrightarrow> in_hand (soak_inner h') t)"
  using assms(2-)
proof (induction draws arbitrary: h k ids)
  case Nil
  then show ?case by (simp add: generated_def)
next
  case (Cons d draws)
  obtain now t where d: "d = (now, t)" by fastforce
  let ?s = "soak_inner h" and ?u = "make_test_task t (priority_at pd k) []"
  have s: "independent ?s" and ok: "\<not> dag_poisoned (so_scheduler h)" using Cons.prems(1) by (simp_all add: soak_ok_def)
  have u: "td_task_id ?u = t" "td_dependencies ?u = []" "td_priority ?u = priority_at pd k"
    by (simp_all add: make_test_task_def)
  have fresh: "fmlookup (dag_tasks ?s) (td_task_id ?u) = None" using Cons.prems(3) by (simp add: d u)
  obtain r s1 where r: "inner_enqueue ord now ?u ?s = (r, s1)" by fastforce
  note en = independent_enqueue [OF s ord fresh u(2), of now, unfolded r fst_conv snd_conv u(1)]
  let ?h = "h\<lparr>so_scheduler := (so_scheduler h)\<lparr>dag_inner := s1\<rparr>, so_task_count := so_task_count h + 1\<rparr>"
  have one: "generate_one ord pd (k, d) (ids, h) = (ids @ [t], ?h)"
    using ok r en(1) by (simp add: generate_one_def d with_lock_def Let_def priority_at_def)
  have nready: "fmlookup (dag_states ?s) t = None"
    using graph_ok_keys(1) [of ?s t] s fresh u(1) by (simp add: independent_def dag_inv_def dag_inv_during_def)
  have wait: "waiting_at s1 p = (if priority_at pd k = p then insert t (waiting_at ?s p) else waiting_at ?s p)" for p
    using en(3,4) u(3) nready by (auto simp: waiting_at_def)
  have tn: "t \<notin> waiting_at ?s p" for p using nready by (simp add: waiting_at_def)
  have ok': "soak_ok ?h" using en(2) ok by (simp add: soak_ok_def)
  have "\<forall>x \<in> snd ` set draws. fmlookup (dag_tasks (soak_inner ?h)) x = None" using Cons.prems(2,3) en(4) by (auto simp: d)
  from Cons.IH [OF ok' _ this, of "Suc k" "ids @ [t]"] Cons.prems(2) obtain h' where
    h': "fold (generate_one ord pd) (List.enumerate (Suc k) draws) (ids @ [t], ?h) = ((ids @ [t]) @ map snd draws, h')"
      "soak_ok h'" "so_task_count h' = so_task_count ?h + of_nat (length draws)" "so_dequeued h' = so_dequeued h"
      "\<forall>p. card (waiting_at (soak_inner h') p) = card (waiting_at s1 p) + generated pd (Suc k) (length draws) p"
      "\<forall>x. in_hand s1 x \<or> x \<in> snd ` set draws \<longrightarrow> in_hand (soak_inner h') x"
    by auto
  have "in_hand s1 x" if "in_hand ?s x \<or> x = t" for x using that en(3) by (auto simp: in_hand_def)
  then have "\<forall>x. in_hand ?s x \<or> x \<in> snd ` set (d # draws) \<longrightarrow> in_hand (soak_inner h') x" using h'(6) by (auto simp: d)
  moreover have "\<forall>p. card (waiting_at (soak_inner h') p) = card (waiting_at ?s p) + generated pd k (length (d # draws)) p"
    using h'(5) by (simp add: wait generated_Suc tn)
  ultimately show ?case using h' one by (simp add: d)
qed

text \<open>
  C12: the harness works off its workload. With fresh identifiers and a distribution that is not
  empty, a new harness accepts all tasks it generates; after any number of turns of \<open>process_batch\<close>,
  whatever the clock readings and the iteration order of the hash sets, the metrics report as many completed tasks as
  there were turns, up to the number of tasks; and with at least as many turns as tasks every task is
  completed and each priority has been dequeued exactly as often as it was generated.
\<close>

theorem soak_works_off_workload:
  assumes ord: "hash_order ord" and "pd \<noteq> []" and ids: "distinct (map snd draws)"
  shows "\<exists>h. generate_workload ord draws pd (soak_new start) = Some (map snd draws, h)
    \<and> sm_total_tasks (metrics now (process_batch ord cs h)) = of_nat (length draws)
    \<and> sm_completed_tasks (metrics now (process_batch ord cs h)) = of_nat (min (length cs) (length draws))
    \<and> (length draws \<le> length cs \<longrightarrow>
         (\<forall>t \<in> snd ` set draws. fmlookup (dag_states (soak_inner (process_batch ord cs h))) t = Some TaskCompleted)
       \<and> (\<forall>p. count_of (sm_dequeued_by_priority (metrics now (process_batch ord cs h))) p = of_nat (generated pd 0 (length draws) p)))"
proof -
  have ok: "soak_ok (soak_new start)" using independent_new by (simp add: soak_ok_def soak_new_def dag_new_def)
  have "\<forall>t \<in> snd ` set draws. fmlookup (dag_tasks (soak_inner (soak_new start))) t = None"
    by (simp add: soak_new_def dag_new_def inner_new_def inner_new_with_policies_def)
  from generate_spec [OF ord ok ids this, of pd 0 "[]"] obtain h where
    g: "fold (generate_one ord pd) (List.enumerate 0 draws) ([], soak_new start) = (map snd draws, h)" "soak_ok h"
      "so_task_count h = of_nat (length draws)" "so_dequeued h = fmempty"
      "\<forall>p. card (waiting_at (soak_inner h) p) = generated pd 0 (length draws) p"
      "\<forall>t \<in> snd ` set draws. in_hand (soak_inner h) t"
    by (auto simp: soak_new_def dag_new_def inner_new_def inner_new_with_policies_def waiting_at_def)
  let ?h = "process_batch ord cs h"
  note b = process_batch_counts [OF g(2) ord, of cs]
  have total: "waiting_total (soak_inner h) = length draws"
    using g(5) generated_total [of pd 0 "length draws"] by (simp add: waiting_total_def)
  have count: "count_of (so_dequeued ?h) p + of_nat (card (waiting_at (soak_inner ?h) p)) = of_nat (generated pd 0 (length draws) p)" for p
    using b g(4,5) by (simp add: count_of_def)
  have "total_count_dequeued (so_dequeued ?h) + of_nat (waiting_total (soak_inner ?h)) = of_nat (length draws)"
  proof -
    have "total_count_dequeued (so_dequeued ?h) + of_nat (waiting_total (soak_inner ?h))
        = sum_list (map (\<lambda>p. count_of (so_dequeued ?h) p + of_nat (card (waiting_at (soak_inner ?h) p))) priority_all)"
      by (simp add: total_count_dequeued_def waiting_total_def priority_all_def)
    also have "\<dots> = of_nat (sum_list (map (generated pd 0 (length draws)) priority_all))"
      by (simp only: count) (simp add: priority_all_def)
    finally show ?thesis by (simp add: generated_total)
  qed
  moreover have "length draws = min (length cs) (length draws) + waiting_total (soak_inner ?h)" using b total by simp
  ultimately have "total_count_dequeued (so_dequeued ?h) = of_nat (min (length cs) (length draws))"
    by (metis add_right_cancel of_nat_add)
  moreover have "(\<forall>t \<in> snd ` set draws. fmlookup (dag_states (soak_inner ?h)) t = Some TaskCompleted)
      \<and> (\<forall>p. count_of (so_dequeued ?h) p = of_nat (generated pd 0 (length draws) p))" if "length draws \<le> length cs"
  proof -
    have none: "waiting_at (soak_inner ?h) p = {}" for p using b total that by (intro waiting_total_0) simp
    have "fmlookup (dag_states (soak_inner ?h)) t = Some TaskCompleted" if "t \<in> snd ` set draws" for t
    proof -
      have "in_hand (soak_inner ?h) t" using b g(6) that by blast
      moreover have "fmlookup (dag_states (soak_inner ?h)) t \<noteq> Some Ready"
      proof
        assume r: "fmlookup (dag_states (soak_inner ?h)) t = Some Ready"
        have "graph_ok (soak_inner ?h)" using b by (simp add: soak_ok_def independent_def dag_inv_def dag_inv_during_def)
        then obtain task where "fmlookup (dag_tasks (soak_inner ?h)) t = Some task"
          using r graph_ok_keys(1) [of "soak_inner ?h" t] by (cases "fmlookup (dag_tasks (soak_inner ?h)) t") auto
        then show False using none [of "td_priority task"] r by (auto simp: waiting_at_def)
      qed
      ultimately show ?thesis by (simp add: in_hand_def)
    qed
    then show ?thesis using count none by simp
  qed
  moreover have "so_task_count ?h = of_nat (length draws)" using b g(3) by simp
  moreover have "generate_workload ord draws pd (soak_new start) = Some (map snd draws, h)"
    using assms(2) g(1) by (simp add: generate_workload_def)
  ultimately show ?thesis by (auto simp: metrics_def Let_def)
qed

theorem soak_works_off_workload_witness:
  "\<exists>h. generate_workload sorted_list_of_set [(0, TaskId 2), (9, TaskId 1), (9, TaskId 3)]
          [(Critical, Fin (1 / 2)), (Low, Fin (1 / 20))] (soak_new 5) = Some ([TaskId 2, TaskId 1, TaskId 3], h)
    \<and> sm_completed_tasks (metrics 8 (process_batch sorted_list_of_set [(10, 11), (12, 13), (14, 15)] h)) = 3
    \<and> fmlookup (dag_states (soak_inner (process_batch sorted_list_of_set [(10, 11), (12, 13), (14, 15)] h))) (TaskId 1) = Some TaskCompleted
    \<and> count_of (sm_dequeued_by_priority (metrics 8 (process_batch sorted_list_of_set [(10, 11), (12, 13), (14, 15)] h))) Critical = 2
    \<and> count_of (sm_dequeued_by_priority (metrics 8 (process_batch sorted_list_of_set [(10, 11), (12, 13), (14, 15)] h))) Low = 1"
proof -
  let ?pd = "[(Critical, Fin (1 / 2)), (Low, Fin (1 / 20))]" and ?draws = "[(0, TaskId 2), (9, TaskId 1), (9, TaskId 3)]"
    and ?cs = "[(10, 11), (12, 13), (14, 15)]"
  have g: "generated ?pd 0 (length ?draws) Critical = 2" "generated ?pd 0 (length ?draws) Low = 1"
    by (simp_all add: generated_Suc priority_at_def) (simp_all add: generated_def)
  have "distinct (map snd ?draws)" by simp
  then obtain h where h: "generate_workload sorted_list_of_set ?draws ?pd (soak_new 5) = Some (map snd ?draws, h)"
    "sm_completed_tasks (metrics 8 (process_batch sorted_list_of_set ?cs h)) = of_nat (min (length ?cs) (length ?draws))"
    "fmlookup (dag_states (soak_inner (process_batch sorted_list_of_set ?cs h))) (TaskId 1) = Some TaskCompleted"
    "\<And>p. count_of (sm_dequeued_by_priority (metrics 8 (process_batch sorted_list_of_set ?cs h))) p
       = of_nat (generated ?pd 0 (length ?draws) p)"
    using soak_works_off_workload [OF hash_order_sorted, of ?pd ?draws 5 8 ?cs] by auto
  show ?thesis by (rule exI [of _ h]) (use h(1-3) h(4) [of Critical] h(4) [of Low] g in simp)
qed

end
