(* ===== verification/Effects.thy ===== *)
theory Effects
  imports Prelude
begin

text \<open>
  Operations that thread a state and may fail, in the form the code composes them: \<open>returns x\<close> is
  \<open>Ok(x)\<close>, \<open>fails e\<close> is \<open>Err(e)\<close>, and \<open>try_bind m k\<close> is \<open>let x = m?; k(x)\<close>.
  An error keeps the effects the operation had before it.
\<close>

type_synonym ('s, 'e, 'a) op = "'s \<Rightarrow> ('e + 'a) \<times> 's"

definition returns :: "'a \<Rightarrow> ('s, 'e, 'a) op" where
  "returns x s = (Ok x, s)"

definition fails :: "'e \<Rightarrow> ('s, 'e, 'a) op" where
  "fails e s = (Err e, s)"

definition try_bind :: "('s, 'e, 'a) op \<Rightarrow> ('a \<Rightarrow> ('s, 'e, 'b) op) \<Rightarrow> ('s, 'e, 'b) op" where
  "try_bind m k s = (case m s of (Inl e, s') \<Rightarrow> (Inl e, s') | (Inr x, s') \<Rightarrow> k x s')"

text \<open>\<open>let r = m;\<close> without the question mark: the result, error or not, goes to the continuation.\<close>

definition then_with :: "('s, 'e, 'a) op \<Rightarrow> ('e + 'a \<Rightarrow> ('s, 'e, 'b) op) \<Rightarrow> ('s, 'e, 'b) op" where
  "then_with m k s = (case m s of (r, s') \<Rightarrow> k r s')"

definition map_err :: "('e \<Rightarrow> 'f) \<Rightarrow> 'e + 'a \<Rightarrow> 'f + 'a" where
  "map_err f r = (case r of Inl e \<Rightarrow> Inl (f e) | Inr x \<Rightarrow> Inr x)"

lemma returns_apply [simp]: "returns x s = (Ok x, s)"
  by (simp add: returns_def)

lemma fails_apply [simp]: "fails e s = (Err e, s)"
  by (simp add: fails_def)

lemma try_bind_Ok: "m s = (Ok x, s') \<Longrightarrow> try_bind m k s = k x s'"
  by (simp add: try_bind_def)

lemma try_bind_Err: "m s = (Err e, s') \<Longrightarrow> try_bind m k s = (Err e, s')"
  by (simp add: try_bind_def)

lemma then_with_apply: "m s = (r, s') \<Longrightarrow> then_with m k s = k r s'"
  by (simp add: then_with_def)

lemma map_err_simps [simp]: "map_err f (Err e) = Err (f e)" "map_err f (Ok x) = Ok x"
  by (simp_all add: map_err_def)

end
