(* ===== verification/LeaseManager.thy ===== *)
theory LeaseManager
  imports CoreTypes Effects
begin

text \<open>
  Leases: the trait \<open>LeaseStore\<close> of \<open>crates/core/src/traits.rs\<close>, its in-memory implementation
  and the \<open>LeaseManager\<close> of \<open>crates/worker/src/lease_manager.rs\<close>, whose operations read a lease,
  change it and write it back.
\<close>

subsection \<open>The trait \<open>LeaseStore\<close>\<close>

record 's LeaseStoreOps =
  store_insert :: "Lease \<Rightarrow> ('s, CoreError, unit) op"
  store_get :: "TaskId \<Rightarrow> ('s, CoreError, Lease option) op"
  store_update :: "Lease \<Rightarrow> ('s, CoreError, unit) op"
  store_remove :: "TaskId \<Rightarrow> ('s, CoreError, unit) op"
  store_active :: "('s, CoreError, Lease list) op"

subsection \<open>The in-memory store\<close>

type_synonym LeaseMap = "(TaskId, Lease) fmap"

definition mem_insert :: "Lease \<Rightarrow> (LeaseMap, CoreError, unit) op" where
  "mem_insert lease m =
     (if fmlookup m (ls_task_id lease) \<noteq> None then (Err AlreadyLeased, m)
      else (Ok (), fmupd (ls_task_id lease) lease m))"

definition mem_get :: "TaskId \<Rightarrow> (LeaseMap, CoreError, Lease option) op" where
  "mem_get t m = (Ok (fmlookup m t), m)"

definition mem_update :: "Lease \<Rightarrow> (LeaseMap, CoreError, unit) op" where
  "mem_update lease m =
     (if fmlookup m (ls_task_id lease) = None then (Err LeaseNotFound, m)
      else (Ok (), fmupd (ls_task_id lease) lease m))"

definition mem_remove :: "TaskId \<Rightarrow> (LeaseMap, CoreError, unit) op" where
  "mem_remove t m = (Ok (), fmdrop t m)"

definition mem_active :: "(TaskId set \<Rightarrow> TaskId list) \<Rightarrow> (LeaseMap, CoreError, Lease list) op" where
  "mem_active ord m =
     (Ok (filter (\<lambda>l. ls_state l = Active) (map (\<lambda>t. the (fmlookup m t)) (ord (fmdom' m)))), m)"

definition mem_store :: "(TaskId set \<Rightarrow> TaskId list) \<Rightarrow> LeaseMap LeaseStoreOps" where
  "mem_store ord = \<lparr>store_insert = mem_insert, store_get = mem_get, store_update = mem_update,
     store_remove = mem_remove, store_active = mem_active ord\<rparr>"

lemma mem_store_simps [simp]:
  "store_insert (mem_store ord) = mem_insert" "store_get (mem_store ord) = mem_get"
  "store_update (mem_store ord) = mem_update" "store_remove (mem_store ord) = mem_remove"
  "store_active (mem_store ord) = mem_active ord"
  by (simp_all add: mem_store_def)

subsection \<open>The lease manager\<close>

text \<open>\<open>renew\<close>, \<open>complete\<close>, \<open>fail\<close> and \<open>cancel\<close> share this read-modify-write.\<close>

definition lm_modify :: "'s LeaseStoreOps \<Rightarrow> (Lease \<Rightarrow> Lease) \<Rightarrow> TaskId \<Rightarrow> ('s, CoreError, unit) op" where
  "lm_modify S f t = try_bind (store_get S t) (\<lambda>r.
     case r of None \<Rightarrow> fails LeaseNotFound | Some lease \<Rightarrow> store_update S (f lease))"

definition lm_acquire :: "'s LeaseStoreOps \<Rightarrow> Lease \<Rightarrow> ('s, CoreError, unit) op" where
  "lm_acquire S lease = store_insert S lease"

definition lm_renew :: "'s LeaseStoreOps \<Rightarrow> instant \<Rightarrow> TaskId \<Rightarrow> duration \<Rightarrow> ('s, CoreError, unit) op" where
  "lm_renew S now t ttl = lm_modify S (lease_renew now ttl) t"

definition lm_complete :: "'s LeaseStoreOps \<Rightarrow> TaskId \<Rightarrow> ('s, CoreError, unit) op" where
  "lm_complete S t = lm_modify S (\<lambda>l. l\<lparr>ls_state := Completed\<rparr>) t"

definition lm_fail :: "'s LeaseStoreOps \<Rightarrow> TaskId \<Rightarrow> u32 \<Rightarrow> ('s, CoreError, unit) op" where
  "lm_fail S t attempts = lm_modify S (\<lambda>l. l\<lparr>ls_state := Failed attempts\<rparr>) t"

definition lm_cancel :: "'s LeaseStoreOps \<Rightarrow> TaskId \<Rightarrow> ('s, CoreError, unit) op" where
  "lm_cancel S t = lm_modify S (\<lambda>l. l\<lparr>ls_state := Cancelled\<rparr>) t"

definition lm_remove :: "'s LeaseStoreOps \<Rightarrow> TaskId \<Rightarrow> ('s, CoreError, unit) op" where
  "lm_remove S t = store_remove S t"

text \<open>\<open>collect_expired\<close>: the active leases are listed once, each is fetched again before it is expired.\<close>

primrec lm_collect_loop :: "'s LeaseStoreOps \<Rightarrow> instant \<Rightarrow> Lease list \<Rightarrow> Lease list
    \<Rightarrow> ('s, CoreError, Lease list) op" where
  "lm_collect_loop S now [] expired = returns expired"
| "lm_collect_loop S now (lease # leases) expired =
     (if lease_is_expired now lease then
        try_bind (store_get S (ls_task_id lease)) (\<lambda>r.
          case r of
            None \<Rightarrow> lm_collect_loop S now leases expired
          | Some current \<Rightarrow>
              if ls_state current = Active \<and> lease_is_expired now current then
                (let current' = current\<lparr>ls_state := Expired\<rparr> in
                 try_bind (store_update S current') (\<lambda>_.
                   lm_collect_loop S now leases (expired @ [current'])))
              else lm_collect_loop S now leases expired)
      else lm_collect_loop S now leases expired)"

definition lm_collect_expired :: "'s LeaseStoreOps \<Rightarrow> instant \<Rightarrow> ('s, CoreError, Lease list) op" where
  "lm_collect_expired S now = try_bind (store_active S) (\<lambda>leases. lm_collect_loop S now leases [])"

text \<open>The calls of the manager other than \<open>remove\<close>, as steps on the store.\<close>

datatype LeaseOp =
    LoAcquire Lease
  | LoRenew instant TaskId duration
  | LoComplete TaskId
  | LoFail TaskId u32
  | LoCancel TaskId
  | LoCollect instant

fun lease_step :: "'s LeaseStoreOps \<Rightarrow> LeaseOp \<Rightarrow> 's \<Rightarrow> 's" where
  "lease_step S (LoAcquire l) s = snd (lm_acquire S l s)"
| "lease_step S (LoRenew now t ttl) s = snd (lm_renew S now t ttl s)"
| "lease_step S (LoComplete t) s = snd (lm_complete S t s)"
| "lease_step S (LoFail t n) s = snd (lm_fail S t n s)"
| "lease_step S (LoCancel t) s = snd (lm_cancel S t s)"
| "lease_step S (LoCollect now) s = snd (lm_collect_expired S now s)"

definition expire_lease :: "instant \<Rightarrow> Lease \<Rightarrow> Lease" where
  "expire_lease now l = (if ls_state l = Active \<and> lease_is_expired now l then l\<lparr>ls_state := Expired\<rparr> else l)"

subsection \<open>The contract of a lease store\<close>

text \<open>
  What \<open>execute_task\<close> relies on: a task that has a lease (\<open>view\<close>) is refused another one, in the
  states that are \<open>valid\<close>, for the leases that the store can take in.
\<close>

locale exclusive_store =
  fixes S :: "'s LeaseStoreOps" and valid :: "'s \<Rightarrow> bool" and view :: "'s \<Rightarrow> TaskId \<Rightarrow> Lease option"
    and storable :: "Lease \<Rightarrow> bool"
  assumes insert_taken: "valid s \<Longrightarrow> storable l \<Longrightarrow> view s (ls_task_id l) \<noteq> None \<Longrightarrow>
    \<exists>s'. store_insert S l s = (Err AlreadyLeased, s') \<and> valid s' \<and> view s' = view s"

text \<open>What the manager relies on: the store behaves as a map from tasks to leases.\<close>

locale lease_map =
  fixes S :: "'s LeaseStoreOps" and valid :: "'s \<Rightarrow> bool" and view :: "'s \<Rightarrow> TaskId \<Rightarrow> Lease option"
  assumes key: "valid s \<Longrightarrow> view s t = Some l \<Longrightarrow> ls_task_id l = t"
    and get: "valid s \<Longrightarrow> \<exists>s'. store_get S t s = (Ok (view s t), s') \<and> valid s' \<and> view s' = view s"
    and insert_new: "valid s \<Longrightarrow> view s (ls_task_id l) = None \<Longrightarrow>
      \<exists>s'. store_insert S l s = (Ok (), s') \<and> valid s' \<and> view s' = (view s)(ls_task_id l \<mapsto> l)"
    and insert_old: "valid s \<Longrightarrow> view s (ls_task_id l) \<noteq> None \<Longrightarrow>
      \<exists>e s'. store_insert S l s = (Err e, s') \<and> valid s' \<and> view s' = view s"
    and update: "valid s \<Longrightarrow> view s (ls_task_id l) \<noteq> None \<Longrightarrow>
      \<exists>s'. store_update S l s = (Ok (), s') \<and> valid s' \<and> view s' = (view s)(ls_task_id l \<mapsto> l)"
    and remove: "valid s \<Longrightarrow>
      \<exists>s'. store_remove S t s = (Ok (), s') \<and> valid s' \<and> view s' = (view s)(t := None)"
    and active: "valid s \<Longrightarrow> \<exists>ls s'. store_active S s = (Ok ls, s') \<and> valid s' \<and> view s' = view s
      \<and> distinct (map ls_task_id ls) \<and> set ls = {l. view s (ls_task_id l) = Some l \<and> ls_state l = Active}"
begin

lemma modify_present:
  assumes v: "valid s" and t: "view s t = Some l" and f: "ls_task_id (f l) = t"
  shows "\<exists>s'. lm_modify S f t s = (Ok (), s') \<and> valid s' \<and> view s' = (view s)(t \<mapsto> f l)"
proof -
  obtain s1 where g: "store_get S t s = (Ok (Some l), s1)" "valid s1" "view s1 = view s"
    using get [OF v, of t] t by auto
  have "view s1 (ls_task_id (f l)) \<noteq> None" using g(3) t f by simp
  from update [OF g(2) this] show ?thesis using f g(3)
    by (auto simp: lm_modify_def try_bind_def g(1))
qed

lemma modify_absent:
  assumes v: "valid s" and t: "view s t = None"
  shows "\<exists>s'. lm_modify S f t s = (Err LeaseNotFound, s') \<and> valid s' \<and> view s' = view s"
proof -
  obtain s1 where g: "store_get S t s = (Ok None, s1)" "valid s1" "view s1 = view s"
    using get [OF v, of t] t by auto
  then show ?thesis by (auto simp: lm_modify_def try_bind_def g(1))
qed

lemma modify_dom:
  assumes v: "valid s" and f: "\<And>l. ls_task_id (f l) = ls_task_id l"
  shows "valid (snd (lm_modify S f t s)) \<and> (view (snd (lm_modify S f t s)) u = None \<longleftrightarrow> view s u = None)"
proof (cases "view s t")
  case None
  then show ?thesis using modify_absent [OF v None, of f] by auto
next
  case (Some l)
  have "ls_task_id (f l) = t" using f key [OF v Some] by simp
  then show ?thesis using modify_present [OF v Some, of f] Some by (auto split: if_splits)
qed

lemma collect_loop:
  assumes "valid s" "distinct (map ls_task_id ls)"
    "\<And>l. l \<in> set ls \<Longrightarrow> view s (ls_task_id l) = Some l \<and> ls_state l = Active"
  shows "\<exists>s'. lm_collect_loop S now ls es s
      = (Ok (es @ map (\<lambda>l. l\<lparr>ls_state := Expired\<rparr>) (filter (lease_is_expired now) ls)), s')
    \<and> valid s' \<and> view s' = (\<lambda>t. if t \<in> ls_task_id ` set ls then map_option (expire_lease now) (view s t) else view s t)"
  using assms
proof (induction ls arbitrary: s es)
  case (Cons l ls)
  have l: "view s (ls_task_id l) = Some l" "ls_state l = Active" using Cons.prems(3) [of l] by auto
  show ?case
  proof (cases "lease_is_expired now l")
    case False
    obtain s' where s': "lm_collect_loop S now ls es s
        = (Ok (es @ map (\<lambda>l. l\<lparr>ls_state := Expired\<rparr>) (filter (lease_is_expired now) ls)), s')" "valid s'"
      "view s' = (\<lambda>t. if t \<in> ls_task_id ` set ls then map_option (expire_lease now) (view s t) else view s t)"
      using Cons.IH [of s es] Cons.prems by auto
    then show ?thesis using False l by (auto simp: expire_lease_def)
  next
    case True
    let ?l = "l\<lparr>ls_state := Expired\<rparr>"
    obtain s1 where g: "store_get S (ls_task_id l) s = (Ok (Some l), s1)" "valid s1" "view s1 = view s"
      using get [OF Cons.prems(1), of "ls_task_id l"] l by auto
    obtain s2 where u: "store_update S ?l s1 = (Ok (), s2)" "valid s2" "view s2 = (view s)(ls_task_id l \<mapsto> ?l)"
      using update [OF g(2), of ?l] g(3) l by auto
    have "view s2 (ls_task_id x) = Some x \<and> ls_state x = Active" if "x \<in> set ls" for x
    proof -
      have "ls_task_id x \<noteq> ls_task_id l"
        using Cons.prems(2) imageI [OF that, of ls_task_id] by (metis distinct.simps(2) list.simps(9) set_map)
      then show ?thesis using Cons.prems(3) [of x] that u(3) by simp
    qed
    then obtain s' where s': "lm_collect_loop S now ls (es @ [?l]) s2
        = (Ok ((es @ [?l]) @ map (\<lambda>l. l\<lparr>ls_state := Expired\<rparr>) (filter (lease_is_expired now) ls)), s')" "valid s'"
      "view s' = (\<lambda>t. if t \<in> ls_task_id ` set ls then map_option (expire_lease now) (view s2 t) else view s2 t)"
      using Cons.IH [of s2 "es @ [?l]"] u(2) Cons.prems(2) by auto
    have "view s' = (\<lambda>t. if t \<in> ls_task_id ` set (l # ls) then map_option (expire_lease now) (view s t) else view s t)"
      using Cons.prems(2) l True by (auto simp: s'(3) u(3) expire_lease_def fun_eq_iff)
    then show ?thesis using True l s'(1,2)
      by (simp add: try_bind_def g(1) u(1) Let_def)
  qed
qed (auto simp: fun_eq_iff)

lemma collect_expired:
  assumes v: "valid s"
  shows "\<exists>ls s'. lm_collect_expired S now s = (Ok ls, s') \<and> valid s'
    \<and> (\<forall>t. view s' t = map_option (expire_lease now) (view s t))
    \<and> set ls = {l\<lparr>ls_state := Expired\<rparr> |l t. view s t = Some l \<and> ls_state l = Active \<and> lease_is_expired now l}"
proof -
  obtain ls s1 where a: "store_active S s = (Ok ls, s1)" "valid s1" "view s1 = view s"
    "distinct (map ls_task_id ls)" "set ls = {l. view s (ls_task_id l) = Some l \<and> ls_state l = Active}"
    using active [OF v] by blast
  obtain s' where s': "lm_collect_loop S now ls [] s1
      = (Ok (map (\<lambda>l. l\<lparr>ls_state := Expired\<rparr>) (filter (lease_is_expired now) ls)), s')" "valid s'"
    "view s' = (\<lambda>t. if t \<in> ls_task_id ` set ls then map_option (expire_lease now) (view s t) else view s t)"
    using collect_loop [OF a(2,4), of now "[]"] unfolding a(3) using a(5) by auto
  have vw: "view s' t = map_option (expire_lease now) (view s t)" for t
  proof (cases "view s t")
    case (Some l)
    then have "ls_task_id l = t" by (rule key [OF v])
    then have "t \<in> ls_task_id ` set ls \<or> expire_lease now l = l"
      using Some a(5) by (auto simp: expire_lease_def)
    then show ?thesis using Some s'(3) by auto
  qed (simp add: s'(3))
  have "set (map (\<lambda>l. l\<lparr>ls_state := Expired\<rparr>) (filter (lease_is_expired now) ls))
      = {l\<lparr>ls_state := Expired\<rparr> |l t. view s t = Some l \<and> ls_state l = Active \<and> lease_is_expired now l}"
    using a(5) key [OF v] by fastforce
  then show ?thesis using vw s'(1,2) by (auto simp: lm_collect_expired_def try_bind_def a(1))
qed

text \<open>No call but \<open>remove\<close> frees a task for another lease.\<close>

lemma step_dom:
  assumes v: "valid s" and u: "view s u \<noteq> None"
  shows "valid (lease_step S oper s) \<and> view (lease_step S oper s) u \<noteq> None"
proof (cases oper)
  case (LoAcquire l)
  show ?thesis
  proof (cases "view s (ls_task_id l)")
    case None
    then show ?thesis using insert_new [OF v None] u LoAcquire by (auto simp: lm_acquire_def)
  next
    case (Some x)
    then show ?thesis using insert_old [OF v, of l] u LoAcquire by (auto simp: lm_acquire_def)
  qed
next
  case (LoCollect now)
  then show ?thesis using collect_expired [OF v, of now] u by auto
qed (use u modify_dom [OF v] in \<open>auto simp: lm_renew_def lm_complete_def lm_fail_def lm_cancel_def lease_renew_def\<close>)

lemma steps_dom:
  "valid s \<Longrightarrow> view s u \<noteq> None \<Longrightarrow>
   valid (fold (lease_step S) ops s) \<and> view (fold (lease_step S) ops s) u \<noteq> None"
  by (induction ops arbitrary: s) (use step_dom in auto)

lemma acquired_stays:
  assumes v: "valid s" and a: "lm_acquire S l s = (Ok (), s1)"
  shows "valid (fold (lease_step S) ops s1) \<and> view (fold (lease_step S) ops s1) (ls_task_id l) \<noteq> None"
proof -
  have "view s (ls_task_id l) = None"
    using insert_old [OF v, of l] a by (cases "view s (ls_task_id l)") (auto simp: lm_acquire_def)
  then have "valid s1 \<and> view s1 (ls_task_id l) \<noteq> None"
    using insert_new [OF v, of l] a by (auto simp: lm_acquire_def)
  then show ?thesis using steps_dom [of s1 "ls_task_id l" ops] by simp
qed

lemma acquire_refused:
  assumes v: "valid s" and a: "lm_acquire S l s = (Ok (), s1)" and l': "ls_task_id l' = ls_task_id l"
  shows "\<exists>e. fst (lm_acquire S l' (fold (lease_step S) ops s1)) = Err e"
  using acquired_stays [OF v a, of ops] insert_old [of "fold (lease_step S) ops s1" l'] l' by (auto simp: lm_acquire_def)

end

text \<open>A map that names the reason of a refusal.\<close>

locale lease_store = lease_map S valid view + exclusive_store S valid view "\<lambda>_. True"
  for S :: "'s LeaseStoreOps" and valid and view
begin

lemmas insert_refused = insert_taken [OF _ TrueI]

lemma acquire_exclusive:
  assumes v: "valid s" and a: "lm_acquire S l s = (Ok (), s1)" and l': "ls_task_id l' = ls_task_id l"
  shows "fst (lm_acquire S l' (fold (lease_step S) ops s1)) = Err AlreadyLeased"
  using acquired_stays [OF v a, of ops] insert_refused [of "fold (lease_step S) ops s1" l'] l' by (auto simp: lm_acquire_def)

end

subsection \<open>The in-memory store keeps the contract\<close>

definition keyed :: "LeaseMap \<Rightarrow> bool" where
  "keyed m \<longleftrightarrow> (\<forall>t l. fmlookup m t = Some l \<longrightarrow> ls_task_id l = t)"

lemma mem_active_spec:
  assumes ord: "hash_order ord" and k: "keyed m"
  shows "\<exists>ls. mem_active ord m = (Ok ls, m) \<and> distinct (map ls_task_id ls)
    \<and> set ls = {l. fmlookup m (ls_task_id l) = Some l \<and> ls_state l = Active}"
proof -
  let ?all = "map (\<lambda>t. the (fmlookup m t)) (ord (fmdom' m))"
  have dom: "set (ord (fmdom' m)) = fmdom' m" "distinct (ord (fmdom' m))"
    using ord by (simp_all add: finite_fmdom')
  have id: "ls_task_id (the (fmlookup m t)) = t" if "t \<in> fmdom' m" for t
    using that k by (auto simp: keyed_def fmdom'_lookup)
  have "map ls_task_id ?all = ord (fmdom' m)"
    unfolding map_map using id dom(1) by (intro map_idI) simp
  then have "distinct (map ls_task_id ?all)" using dom(2) by simp
  then have "distinct (map ls_task_id (filter (\<lambda>l. ls_state l = Active) ?all))" by (rule distinct_map_filter)
  moreover have "set ?all = {l. fmlookup m (ls_task_id l) = Some l}"
  proof (intro equalityI subsetI)
    fix l assume "l \<in> set ?all"
    then obtain t where "t \<in> fmdom' m" "l = the (fmlookup m t)" using dom(1) by auto
    then show "l \<in> {l. fmlookup m (ls_task_id l) = Some l}" using id [of t] by (auto simp: fmdom'_lookup)
  next
    fix l assume "l \<in> {l. fmlookup m (ls_task_id l) = Some l}"
    then have l: "fmlookup m (ls_task_id l) = Some l" by simp
    then have "ls_task_id l \<in> fmdom' m" by (rule fmdom'_lookup_Some)
    then show "l \<in> set ?all" using l dom(1) by (auto intro!: image_eqI [of _ _ "ls_task_id l"])
  qed
  ultimately show ?thesis by (auto simp: mem_active_def)
qed

text \<open>Every hash order gives a store; the interpretation takes the sorted one.\<close>

lemma mem_lease_store: "hash_order ord \<Longrightarrow> lease_store (mem_store ord) keyed fmlookup"
proof
  assume ord: "hash_order ord"
  show "\<exists>ls s'. store_active (mem_store ord) s = (Ok ls, s') \<and> keyed s' \<and> fmlookup s' = fmlookup s
      \<and> distinct (map ls_task_id ls) \<and> set ls = {l. fmlookup s (ls_task_id l) = Some l \<and> ls_state l = Active}"
    if "keyed s" for s
    using mem_active_spec [OF ord that] that by auto
qed (auto simp: keyed_def mem_insert_def mem_get_def mem_update_def mem_remove_def fun_eq_iff split: if_splits)

lemma mem_lease_map: "hash_order ord \<Longrightarrow> lease_map (mem_store ord) keyed fmlookup"
  by (rule lease_store.axioms(1) [OF mem_lease_store])

interpretation mem: lease_store "mem_store sorted_list_of_set" keyed fmlookup
  by (rule mem_lease_store [OF hash_order_sorted])

subsection \<open>Properties of the manager on the in-memory store\<close>

text \<open>
  Once a lease for a task is acquired, every later acquisition for that task is refused, after
  any number of renewals, completions, failures, cancellations and expirations: only \<open>remove\<close>
  frees the task. This holds for completed, failed and expired leases as well.
\<close>

lemma acquire_until_removed:
  assumes "keyed m" and "lm_acquire (mem_store sorted_list_of_set) l m = (Ok (), m')"
    and "ls_task_id l' = ls_task_id l"
  shows "fst (lm_acquire (mem_store sorted_list_of_set) l'
    (fold (lease_step (mem_store sorted_list_of_set)) ops m')) = Err AlreadyLeased"
  by (rule mem.acquire_exclusive [OF assms])

definition example_lease :: "TaskId \<Rightarrow> WorkerId \<Rightarrow> u32 \<Rightarrow> Lease" where
  "example_lease t w n = lease_new (LeaseId 7) 0 t w (from_secs 30) n"

text \<open>
  C16: \<open>collect_expired\<close> returns exactly the leases that were active and past their expiry, in
  their new state, sets those to \<open>Expired\<close> and changes no other, in whatever order the map is
  iterated; a second collection at the same instant finds nothing.
\<close>

theorem collect_expired_exact:
  assumes "keyed m" and ord: "hash_order ord" and ord': "hash_order ord'"
  shows "\<exists>ls m'. lm_collect_expired (mem_store ord) now m = (Ok ls, m')
    \<and> (\<forall>t. fmlookup m' t = map_option (expire_lease now) (fmlookup m t))
    \<and> set ls = {l\<lparr>ls_state := Expired\<rparr> |l t. fmlookup m t = Some l \<and> ls_state l = Active \<and> now > ls_expires_at l}
    \<and> fst (lm_collect_expired (mem_store ord') now m') = Ok []"
proof -
  obtain ls m' where m': "lm_collect_expired (mem_store ord) now m = (Ok ls, m')" "keyed m'"
    "\<forall>t. fmlookup m' t = map_option (expire_lease now) (fmlookup m t)"
    "set ls = {l\<lparr>ls_state := Expired\<rparr> |l t. fmlookup m t = Some l \<and> ls_state l = Active \<and> lease_is_expired now l}"
    using lease_map.collect_expired [OF mem_lease_map [OF ord] assms(1), of now] by blast
  have "\<not> (ls_state l = Active \<and> lease_is_expired now l)" if "fmlookup m' t = Some l" for l t
  proof -
    have "map_option (expire_lease now) (fmlookup m t) = Some l" using that m'(3) by metis
    then obtain l0 where "l = expire_lease now l0" by auto
    then show ?thesis by (auto simp: expire_lease_def)
  qed
  then have none: "{l\<lparr>ls_state := Expired\<rparr> |l t. fmlookup m' t = Some l \<and> ls_state l = Active
      \<and> lease_is_expired now l} = {}" by blast
  obtain ls' m'' where "lm_collect_expired (mem_store ord') now m' = (Ok ls', m'')"
    "set ls' = {l\<lparr>ls_state := Expired\<rparr> |l t. fmlookup m' t = Some l \<and> ls_state l = Active \<and> lease_is_expired now l}"
    using lease_map.collect_expired [OF mem_lease_map [OF ord'] m'(2), of now] by blast
  then have "fst (lm_collect_expired (mem_store ord') now m') = Ok []"
    unfolding none by simp
  then show ?thesis using m'(1,3,4)
    by (intro exI [of _ ls] exI [of _ m']) (simp add: lease_is_expired_def)
qed

theorem collect_expired_exact_witness:
  "\<exists>ls m'. lm_collect_expired (mem_store sorted_list_of_set) (10 ^ 12)
      (fmupd (TaskId 1) (example_lease (TaskId 1) (WorkerId 1) 1) fmempty) = (Ok ls, m')
    \<and> fmlookup m' (TaskId 1) = Some ((example_lease (TaskId 1) (WorkerId 1) 1)\<lparr>ls_state := Expired\<rparr>)"
proof -
  have k: "keyed (fmupd (TaskId 1) (example_lease (TaskId 1) (WorkerId 1) 1) fmempty)"
    by (simp add: keyed_def example_lease_def lease_new_def)
  have e: "expire_lease (10 ^ 12) (example_lease (TaskId 1) (WorkerId 1) 1)
      = (example_lease (TaskId 1) (WorkerId 1) 1)\<lparr>ls_state := Expired\<rparr>"
    by (simp add: expire_lease_def example_lease_def lease_new_def lease_is_expired_def
        chrono_from_std_def chrono_max_def from_secs_def)
  show ?thesis using collect_expired_exact [OF k hash_order_sorted hash_order_sorted, of "10 ^ 12"] e by fastforce
qed

subsection \<open>Interleaved calls\<close>

text \<open>
  The manager's calls are not atomic: another task may run between the read and the write of
  \<open>lm_modify\<close>, and between the test and the insertion of the in-memory \<open>insert\<close>. The halves:
\<close>

definition modify_read :: "TaskId \<Rightarrow> LeaseMap \<Rightarrow> Lease option" where
  "modify_read t m = fmlookup m t"

definition modify_write :: "(Lease \<Rightarrow> Lease) \<Rightarrow> Lease option \<Rightarrow> (LeaseMap, CoreError, unit) op" where
  "modify_write f r = (case r of None \<Rightarrow> fails LeaseNotFound | Some lease \<Rightarrow> mem_update (f lease))"

definition insert_check :: "Lease \<Rightarrow> LeaseMap \<Rightarrow> bool" where
  "insert_check l m \<longleftrightarrow> fmlookup m (ls_task_id l) = None"

definition insert_put :: "Lease \<Rightarrow> LeaseMap \<Rightarrow> LeaseMap" where
  "insert_put l m = fmupd (ls_task_id l) l m"

lemma lm_modify_halves: "lm_modify (mem_store ord) f t m = modify_write f (modify_read t m) m"
  by (auto simp: lm_modify_def modify_write_def modify_read_def try_bind_def mem_get_def split: option.split)

lemma mem_insert_halves:
  "mem_insert l m = (if insert_check l m then (Ok (), insert_put l m) else (Err AlreadyLeased, m))"
  by (simp add: mem_insert_def insert_check_def insert_put_def)

text \<open>
  A heartbeat that has read the lease before the task completes and writes it after
  undoes the completion: both calls succeed, the lease is active again, and once its renewed
  expiry has passed \<open>collect_expired\<close> reports the completed task as expired.
\<close>

lemma renew_undoes_completion:
  assumes k: "keyed m" and l: "fmlookup m t = Some l" "ls_state l = Active"
    and m': "lm_complete (mem_store sorted_list_of_set) t m = (r, m')"
    and m'': "modify_write (lease_renew now ttl) (modify_read t m) m' = (r', m'')"
    and late: "later > now + chrono_from_std ttl"
  shows "r = Ok () \<and> r' = Ok () \<and> map_option ls_state (fmlookup m'' t) = Some Active
    \<and> (\<exists>ls m3. lm_collect_expired (mem_store sorted_list_of_set) later m'' = (Ok ls, m3)
         \<and> t \<in> ls_task_id ` set ls)"
proof -
  have id: "ls_task_id l = t" using k l by (simp add: keyed_def)
  have 1: "r = Ok ()" "m' = fmupd t (l\<lparr>ls_state := Completed\<rparr>) m"
    using m' l id by (auto simp: lm_complete_def lm_modify_def try_bind_def mem_get_def mem_update_def)
  have 2: "r' = Ok ()" "m'' = fmupd t (lease_renew now ttl l) m'"
    using m'' l id 1(2) by (auto simp: modify_write_def modify_read_def mem_update_def lease_renew_def)
  have k'': "keyed m''" using k id by (auto simp: 1 2 keyed_def lease_renew_def)
  obtain ls m3 where c: "lm_collect_expired (mem_store sorted_list_of_set) later m'' = (Ok ls, m3)"
    "set ls = {l\<lparr>ls_state := Expired\<rparr> |l t. fmlookup m'' t = Some l \<and> ls_state l = Active \<and> lease_is_expired later l}"
    using mem.collect_expired [OF k'', of later] by blast
  have "fmlookup m'' t = Some (lease_renew now ttl l)" by (simp add: 2)
  moreover have "ls_state (lease_renew now ttl l) = Active" "lease_is_expired later (lease_renew now ttl l)"
    using l late by (simp_all add: lease_renew_def lease_is_expired_def)
  ultimately have "(lease_renew now ttl l)\<lparr>ls_state := Expired\<rparr> \<in> set ls" unfolding c(2) by blast
  then have "t \<in> ls_task_id ` set ls" using id
    by (intro image_eqI [where x = "(lease_renew now ttl l)\<lparr>ls_state := Expired\<rparr>"]) (simp_all add: lease_renew_def)
  then show ?thesis using 1(1) 2 c(1) l by (simp add: lease_renew_def)
qed

text \<open>
  The in-memory \<open>insert\<close> tests and then inserts; when two workers' tests both come before
  their insertions, both are told that they hold the lease, and the first one's lease is lost.
\<close>

lemma insert_race:
  assumes "fmlookup m t = None" and "ls_task_id l1 = t" and "ls_task_id l2 = t"
  shows "insert_check l1 m \<and> insert_check l2 m \<and> fmlookup (insert_put l2 (insert_put l1 m)) t = Some l2"
  using assms by (simp add: insert_check_def insert_put_def)

end
