(* ===== verification/Retry.thy ===== *)
theory Retry
  imports CoreTypes
begin

text \<open>
  Retry decisions: \<open>RetryPolicy::backoff_for\<close> of \<open>crates/core/src/retry.rs\<close> and the
  \<open>RetryHandler\<close> of \<open>crates/worker/src/retry_handler.rs\<close>. The exponential backoff is
  computed in \<open>f64\<close> and can panic when it is turned back into a duration (\<open>None\<close>).
\<close>

subsection \<open>Backoff\<close>

text \<open>\<open>f64::powi\<close>: repeated squaring, each product rounded, as the compiler's runtime does it.\<close>

fun powi_loop :: "fp \<Rightarrow> fp \<Rightarrow> nat \<Rightarrow> fp" where
  "powi_loop r a b =
     (let r' = (if odd b then fmul binary64 r a else r) in
      if b div 2 = 0 then r' else powi_loop r' (fmul binary64 a a) (b div 2))"

declare powi_loop.simps [simp del]

definition f64_powi :: "fp \<Rightarrow> i32 \<Rightarrow> fp" where
  "f64_powi a n =
     (let r = powi_loop (Fin 1) a (nat \<bar>sint n\<bar>) in if sint n < 0 then fdiv binary64 (Fin 1) r else r)"

definition backoff_for :: "RetryPolicy \<Rightarrow> u32 \<Rightarrow> duration option" where
  "backoff_for p attempt =
     (let backoff = fmul binary64 (as_secs_f64 (initial_backoff p)) (f64_powi (backoff_multiplier p) attempt);
          backoff_secs = fmin backoff (as_secs_f64 (max_backoff p))
      in from_secs_f64 backoff_secs)"

datatype RetryDecision = Retry duration | Abandon | Complete

definition decide :: "ExitOutcome \<Rightarrow> RetryPolicy \<Rightarrow> u32 \<Rightarrow> RetryDecision option" where
  "decide outcome policy attempt =
     (if \<not> is_retryable outcome policy then Some Complete
      else if attempt + 1 \<ge> max_attempts policy then Some Abandon
      else map_option Retry (backoff_for policy attempt))"

definition backoff_ladder :: "RetryPolicy \<Rightarrow> duration list option" where
  "backoff_ladder policy = those (map (\<lambda>i. backoff_for policy (of_nat i)) [0..<unat (max_attempts policy)])"

subsection \<open>Signs\<close>

text \<open>Values a product of non-negative factors can take.\<close>

definition nonneg_fp :: "fp \<Rightarrow> bool" where
  "nonneg_fp x \<longleftrightarrow> (case x of NaN \<Rightarrow> True | PosInf \<Rightarrow> True | NegInf \<Rightarrow> False | Fin q \<Rightarrow> 0 \<le> q)"

lemma nonneg_fp_Fin [simp]: "nonneg_fp (Fin q) \<longleftrightarrow> 0 \<le> q"
  by (simp add: nonneg_fp_def)

lemma fp_round_nonneg [simp]:
  assumes "0 \<le> q" shows "nonneg_fp (fp_round binary64 q)"
  using fp_round_mono [OF assms prec_pos(2)] by (cases "fp_round binary64 q") (auto simp: nonneg_fp_def)

lemma fmul_nonneg: "nonneg_fp a \<Longrightarrow> nonneg_fp b \<Longrightarrow> nonneg_fp (fmul binary64 a b)"
  by (cases a; cases b) (auto simp: fp_round_nonneg nonneg_fp_def [of NaN] nonneg_fp_def [of PosInf]
      nonneg_fp_def [of NegInf] signed_inf_def)

lemma fdiv_one_nonneg: "nonneg_fp a \<Longrightarrow> nonneg_fp (fdiv binary64 (Fin 1) a)"
  by (cases a) (auto simp: fp_round_nonneg nonneg_fp_def [of NaN] nonneg_fp_def [of PosInf] signed_inf_def)

lemma powi_loop_nonneg: "nonneg_fp r \<Longrightarrow> nonneg_fp a \<Longrightarrow> nonneg_fp (powi_loop r a b)"
proof (induction r a b rule: powi_loop.induct)
  case (1 r a b)
  then show ?case by (subst powi_loop.simps) (auto simp: Let_def fmul_nonneg)
qed

lemma f64_powi_nonneg: "nonneg_fp a \<Longrightarrow> nonneg_fp (f64_powi a n)"
  by (simp add: f64_powi_def Let_def powi_loop_nonneg fdiv_one_nonneg)

lemma as_secs_f64_nonneg: "nonneg_fp (as_secs_f64 d)"
proof -
  have "nonneg_fp (fp_round binary64 (of_nat n))" for n by simp
  moreover have "nonneg_fp (fadd binary64 a b)" if "nonneg_fp a" "nonneg_fp b" for a b
    using that by (cases a; cases b) (auto simp: fp_round_nonneg nonneg_fp_def [of NaN]
        nonneg_fp_def [of PosInf] nonneg_fp_def [of NegInf])
  moreover have "nonneg_fp (fdiv binary64 a (Fin (10 ^ 9)))" if "nonneg_fp a" for a
    using that by (cases a) (auto simp: fp_round_nonneg nonneg_fp_def [of NaN]
        nonneg_fp_def [of PosInf] nonneg_fp_def [of NegInf])
  ultimately show ?thesis by (simp add: as_secs_f64_def)
qed

lemma fmin_cap:
  assumes "nonneg_fp a" "0 \<le> c"
  shows "\<exists>q. fmin a (Fin c) = Fin q \<and> 0 \<le> q \<and> q \<le> c"
  using assms by (cases a) (auto simp: fmin_def nonneg_fp_def)

lemma from_secs_f64_mono:
  assumes "0 \<le> q" "q \<le> c" "from_secs_f64 (Fin c) = Some m"
  shows "\<exists>d. from_secs_f64 (Fin q) = Some d \<and> d \<le> m"
proof -
  have "rne (q * 10 ^ 9) \<le> rne (c * 10 ^ 9)" using assms(2) by (intro rne_mono) simp
  then show ?thesis using assms by (auto split: if_splits)
qed

lemma backoff_some:
  assumes "backoff_multiplier p = Fin m" and "0 \<le> m"
    and "from_secs_f64 (as_secs_f64 (max_backoff p)) = Some cap"
  shows "\<exists>d. backoff_for p attempt = Some d \<and> d \<le> cap"
proof -
  obtain c where c: "as_secs_f64 (max_backoff p) = Fin c" "0 \<le> c"
    using assms(3) as_secs_f64_nonneg [of "max_backoff p"] by (cases "as_secs_f64 (max_backoff p)") auto
  have "nonneg_fp (fmul binary64 (as_secs_f64 (initial_backoff p)) (f64_powi (backoff_multiplier p) attempt))"
    using assms(1,2) by (intro fmul_nonneg as_secs_f64_nonneg f64_powi_nonneg) simp
  then obtain q where "fmin (fmul binary64 (as_secs_f64 (initial_backoff p))
      (f64_powi (backoff_multiplier p) attempt)) (Fin c) = Fin q" "0 \<le> q" "q \<le> c"
    using fmin_cap [OF _ c(2)] by blast
  then show ?thesis using from_secs_f64_mono assms(3) c(1) by (simp add: backoff_for_def Let_def)
qed

text \<open>Durations of less than \<open>2 ^ 20\<close> seconds, twelve days, survive the way through \<open>f64\<close> seconds.\<close>

lemma rne_near: "\<bar>q - of_int n\<bar> < 1 / 2 \<Longrightarrow> rne q = n"
proof -
  assume "\<bar>q - of_int n\<bar> < 1 / 2"
  then have "\<bar>of_int (rne q) - (of_int n :: rat)\<bar> < 1" using rne_error [of q] by linarith
  then have "\<bar>rne q - n\<bar> < 1" by (metis of_int_abs of_int_diff of_int_less_1_iff)
  then show ?thesis by simp
qed

lemma fp_round_small_nat:
  assumes "n < 2 ^ 53"
  shows "fp_round binary64 (of_nat n) = Fin (of_nat n)"
proof (cases "n = 0")
  case False
  have "int n < 2 ^ 53" using assms by (metis of_nat_less_iff of_nat_numeral of_nat_power)
  then show ?thesis using fp_round_small_int [of "int n"] False by (simp only: of_int_of_nat_eq of_nat_0_less_iff neq0_conv)
qed simp

lemma two_roundings:
  fixes s n r1 r2 :: rat
  assumes "\<bar>r1 - n / 10 ^ 9\<bar> \<le> 1 / 2 ^ 54" and "\<bar>r2 - (s + r1)\<bar> \<le> 1 / 2 ^ 33"
  shows "\<bar>r2 * 10 ^ 9 - (s * 10 ^ 9 + n)\<bar> < 1 / 2"
proof -
  have "r2 * 10 ^ 9 - (s * 10 ^ 9 + n) = ((r2 - (s + r1)) + (r1 - n / 10 ^ 9)) * 10 ^ 9"
    by (simp add: field_simps)
  then have "\<bar>r2 * 10 ^ 9 - (s * 10 ^ 9 + n)\<bar> = \<bar>(r2 - (s + r1)) + (r1 - n / 10 ^ 9)\<bar> * 10 ^ 9"
    by (simp only: abs_mult) simp
  also have "\<dots> \<le> (1 / 2 ^ 33 + 1 / 2 ^ 54) * 10 ^ 9"
    by (intro mult_right_mono order_trans [OF abs_triangle_ineq] add_mono assms) simp
  also have "\<dots> < 1 / 2" by simp
  finally show ?thesis .
qed

lemma secs_f64_roundtrip:
  assumes d: "d < 2 ^ 20 * 10 ^ 9"
  shows "from_secs_f64 (as_secs_f64 d) = Some d"
proof -
  let ?s = "of_nat (d div 10 ^ 9) :: rat" and ?n = "of_nat (d mod 10 ^ 9) :: rat"
  have S: "d div 10 ^ 9 < 2 ^ 20" using d by (simp add: less_mult_imp_div_less)
  have N: "?n < 10 ^ 9" using of_nat_less_iff [where ?'a = rat, of "d mod 10 ^ 9" "10 ^ 9"] by simp
  have s: "0 \<le> ?s" "?s + 1 \<le> 2 ^ 20"
    using S of_nat_le_iff [where ?'a = rat, of "Suc (d div 10 ^ 9)" "2 ^ 20"] by simp_all
  have rs: "fp_round binary64 ?s = Fin ?s" by (rule fp_round_small_nat) (use S in simp)
  have rn: "fp_round binary64 ?n = Fin ?n"
    by (rule fp_round_small_nat) (use mod_less_divisor [of "10 ^ 9" d] in simp)
  have b: "emin binary64 + 53 \<le> 0" "emax binary64 = 1024" "prec binary64 = 53"
    by (simp_all add: binary64_def)
  have pw: "(2::rat) powi (0 - 53) / 2 = 1 / 2 ^ 54" "(2::rat) powi (21 - 53) / 2 = 1 / 2 ^ 33"
    "(2::rat) powi 0 = 1" "(2::rat) powi 21 = 2 ^ 21"
    by (simp_all add: power_int_def power_one_over)
  have "?n / 10 ^ 9 < 1" using N by simp
  then obtain r1 where r1: "fp_round binary64 (?n / 10 ^ 9) = Fin r1" "0 \<le> r1" "r1 \<le> 1" "\<bar>r1 - ?n / 10 ^ 9\<bar> \<le> 1 / 2 ^ 54"
    using fp_round_error [of "?n / 10 ^ 9" 0 binary64] unfolding b(2,3) of_nat_numeral pw using b(1) by auto
  have "?s + r1 < 2 ^ 21" using s(2) r1(3) by simp
  then obtain r2 where r2: "fp_round binary64 (?s + r1) = Fin r2" "0 \<le> r2" "\<bar>r2 - (?s + r1)\<bar> \<le> 1 / 2 ^ 33"
    using fp_round_error [of "?s + r1" 21 binary64] s(1) r1(2) unfolding b(2,3) of_nat_numeral pw using b(1) by auto
  have as: "as_secs_f64 d = Fin r2" using rs rn r1(1) r2(1) by (simp add: as_secs_f64_def)
  have d': "of_nat d = ?s * 10 ^ 9 + ?n"
  proof -
    have "(of_nat d :: rat) = of_nat (d div 10 ^ 9 * 10 ^ 9 + d mod 10 ^ 9)" by (simp only: div_mult_mod_eq)
    then show ?thesis by (simp only: of_nat_add of_nat_mult of_nat_power of_nat_numeral)
  qed
  have "\<bar>r2 * 10 ^ 9 - of_int (int d)\<bar> < 1 / 2"
    using two_roundings [OF r1(4) r2(3)] d' by (simp only: of_int_of_nat_eq)
  then have "rne (r2 * 10 ^ 9) = int d" by (rule rne_near)
  moreover have "int d < 2 ^ 64 * 10 ^ 9" using d by simp
  ultimately show ?thesis using r2(2) by (simp add: as)
qed

lemma default_cap: "from_secs_f64 (as_secs_f64 (max_backoff default_retry_policy)) = Some (30 * 10 ^ 9)"
  using secs_f64_roundtrip [of "30 * 10 ^ 9"] by (simp add: default_retry_policy_def from_secs_def)

text \<open>A negative factor gives a negative product, which is no duration.\<close>

lemma fp_round_ge_1: "1 \<le> q \<Longrightarrow> fle (Fin 1) (fp_round binary64 q)"
  using fp_round_mono [of 1 q binary64] fp_round_small_int [of 1] by simp

lemma fp_round_le_minus_1: "q \<le> - 1 \<Longrightarrow> fle (fp_round binary64 q) (Fin (- 1))"
proof -
  have "fp_round binary64 (- 1) = Fin (- 1)" using fp_round_small_int [of 1] by (auto simp: fp_round_def Let_def split: if_splits)
  then show "q \<le> - 1 \<Longrightarrow> fle (fp_round binary64 q) (Fin (- 1))" using fp_round_mono [of q "- 1" binary64] by simp
qed

lemma as_secs_f64_ge_1:
  assumes "10 ^ 9 \<le> d" shows "fle (Fin 1) (as_secs_f64 d)"
proof -
  have "(1::rat) \<le> of_nat (d div 10 ^ 9)" using assms div_le_mono [of "10 ^ 9" d "10 ^ 9"] by simp
  then have "fle (Fin 1) (fp_round binary64 (of_nat (d div 10 ^ 9)))" by (rule fp_round_ge_1)
  moreover have "fdiv binary64 (fp_round binary64 (of_nat (d mod 10 ^ 9))) (Fin (10 ^ 9))
      = fp_round binary64 (of_nat (d mod 10 ^ 9) / 10 ^ 9)"
    using fp_round_small_nat [of "d mod 10 ^ 9"] mod_less_divisor [of "10 ^ 9" d] by simp
  moreover have "fle (Fin 1) a \<Longrightarrow> nonneg_fp b \<Longrightarrow> b \<noteq> NaN \<Longrightarrow> fle (Fin 1) (fadd binary64 a b)" for a b
    by (cases a; cases b) (auto simp: nonneg_fp_def [of NegInf] intro!: fp_round_ge_1)
  ultimately show ?thesis by (simp add: as_secs_f64_def)
qed

lemma fmul_negative: "fle (Fin 1) a \<Longrightarrow> fle b (Fin (- 1)) \<Longrightarrow> fle (fmul binary64 a b) (Fin (- 1))"
proof -
  have "x * y \<le> - 1" if "1 \<le> x" "y \<le> - 1" for x y :: rat
    proof -
    have "x * y \<le> 1 * y" by (rule mult_right_mono_neg) (use that in simp_all)
    then show ?thesis by (rule order_trans) (use that(2) in simp)
  qed
  then show "fle (Fin 1) a \<Longrightarrow> fle b (Fin (- 1)) \<Longrightarrow> ?thesis"
    by (cases a; cases b) (auto simp: signed_inf_def intro!: fp_round_le_minus_1)
qed

lemma negative_multiplier_panics:
  assumes "backoff_multiplier p = Fin m" and "m \<le> - 1" and "10 ^ 9 \<le> initial_backoff p"
  shows "backoff_for p 1 = None"
proof -
  let ?x = "fmul binary64 (as_secs_f64 (initial_backoff p)) (f64_powi (backoff_multiplier p) 1)"
  have "f64_powi (Fin m) 1 = fp_round binary64 m"
    by (simp add: f64_powi_def powi_loop.simps [of _ _ "Suc 0"])
  then have "fle (f64_powi (backoff_multiplier p) 1) (Fin (- 1))"
    using fp_round_le_minus_1 [OF assms(2)] assms(1) by simp
  then have "fle ?x (Fin (- 1))" by (rule fmul_negative [OF as_secs_f64_ge_1 [OF assms(3)]])
  moreover from this have "fmin ?x (as_secs_f64 (max_backoff p)) = ?x"
    using as_secs_f64_nonneg [of "max_backoff p"]
    by (cases ?x; cases "as_secs_f64 (max_backoff p)") (auto simp: fmin_def nonneg_fp_def)
  ultimately show ?thesis by (cases ?x) (auto simp: backoff_for_def Let_def)
qed



end
