(* ===== verification/WorkerRuntime.thy ===== *)
theory WorkerRuntime
  imports DagScheduler LeaseManager Retry
begin

text \<open>
  The worker runtime of \<open>crates/worker/src/worker_runtime.rs\<close>: \<open>execute_task\<close> with its guards,
  the heartbeat, the reaper, \<open>cancel_task\<close> and the worker loop, over the traits it is generic in.
  While the runtime waits (for the process, or in a sleep) the rest of the system runs: the
  executor and \<open>rt_wait\<close> are operations on the whole state. Fresh lease identifiers and clock
  readings are arguments.
\<close>

subsection \<open>The traits\<close>

record SpawnParams =
  sp_task_id :: TaskId
  sp_command :: "string list"
  sp_working_dir :: string
  sp_env :: "(string, string) fmap"
  sp_location :: ExecutionLocation

datatype WorkerError =
    Core CoreError
  | SpawnFailed string
  | ProcessError string
  | ProcessIoError string
  | SignalError string
  | WorkerTimeout
  | WorkerInternal string

text \<open>How a call can fail to return a value: a panic, or an \<open>Err\<close>.\<close>

datatype Failure = Panicked | Failing WorkerError

record 's QueueOps =
  queue_dequeue :: "WorkerId \<Rightarrow> ('s, CoreError, TaskDescriptor option) op"
  queue_requeue :: "TaskId \<Rightarrow> u32 \<Rightarrow> ('s, CoreError, unit) op"
  queue_discard :: "TaskId \<Rightarrow> ('s, CoreError, unit) op"

record 's MonitorOps =
  monitor_can_allocate :: "ResourceAllocation \<Rightarrow> ('s, CoreError, bool) op"
  monitor_allocate :: "ResourceAllocation \<Rightarrow> ('s, CoreError, unit) op"
  monitor_release :: "ResourceAllocation \<Rightarrow> ('s, CoreError, unit) op"

record 's SinkOps =
  sink_event :: "TaskEvent \<Rightarrow> ('s, CoreError, unit) op"
  sink_log :: "LogLine \<Rightarrow> ('s, CoreError, unit) op"

subsection \<open>The runtime and its state\<close>

text \<open>
  \<open>wk_active\<close> is the map of active tasks with the signal of their cancel tokens (true once
  cancelled); \<open>wk_heartbeats\<close> are the spawned heartbeat tasks that have not ended.
\<close>

record 's Worker =
  wk_world :: 's
  wk_active :: "(TaskId, bool) fmap"
  wk_heartbeats :: "TaskId list"

record 's Runtime =
  rt_worker_id :: WorkerId
  rt_queue :: "'s QueueOps"
  rt_leases :: "'s LeaseStoreOps"
  rt_monitor :: "'s MonitorOps"
  rt_sink :: "'s SinkOps"
  rt_execute :: "SpawnParams \<Rightarrow> ('s Worker, WorkerError, ExitOutcome) op"
  rt_wait :: "duration \<Rightarrow> 's Worker \<Rightarrow> 's Worker"
  rt_lease_ttl :: duration
  rt_heartbeat_interval_ms :: u64
  rt_reaper_interval_ms :: u64

definition runtime_new :: "WorkerId \<Rightarrow> 's QueueOps \<Rightarrow> 's LeaseStoreOps \<Rightarrow> 's MonitorOps \<Rightarrow> 's SinkOps
    \<Rightarrow> (SpawnParams \<Rightarrow> ('s Worker, WorkerError, ExitOutcome) op) \<Rightarrow> (duration \<Rightarrow> 's Worker \<Rightarrow> 's Worker)
    \<Rightarrow> 's Runtime" where
  "runtime_new w q l m k ex wt = \<lparr>rt_worker_id = w, rt_queue = q, rt_leases = l, rt_monitor = m,
     rt_sink = k, rt_execute = ex, rt_wait = wt, rt_lease_ttl = from_secs 30,
     rt_heartbeat_interval_ms = 5000, rt_reaper_interval_ms = 10000\<rparr>"

definition with_lease_ttl :: "duration \<Rightarrow> 's Runtime \<Rightarrow> 's Runtime" where
  "with_lease_ttl ttl R = R\<lparr>rt_lease_ttl := ttl\<rparr>"

definition with_heartbeat_interval :: "u64 \<Rightarrow> 's Runtime \<Rightarrow> 's Runtime" where
  "with_heartbeat_interval ms R = R\<lparr>rt_heartbeat_interval_ms := ms\<rparr>"

definition with_reaper_interval :: "u64 \<Rightarrow> 's Runtime \<Rightarrow> 's Runtime" where
  "with_reaper_interval ms R = R\<lparr>rt_reaper_interval_ms := ms\<rparr>"

definition core :: "('s, CoreError, 'a) op \<Rightarrow> ('s Worker, Failure, 'a) op" where
  "core m w = (case m (wk_world w) of (r, s) \<Rightarrow> (map_err (Failing \<circ> Core) r, w\<lparr>wk_world := s\<rparr>))"

definition process :: "('s Worker, WorkerError, 'a) op \<Rightarrow> ('s Worker, Failure, 'a) op" where
  "process m w = (case m w of (r, w') \<Rightarrow> (map_err Failing r, w'))"

text \<open>A value whose destructor runs when the scope ends, on success and on error.\<close>

definition with_guard :: "('s \<Rightarrow> 's) \<Rightarrow> ('s, 'e, 'a) op \<Rightarrow> ('s, 'e, 'a) op" where
  "with_guard on_exit m s = (case m s of (r, s') \<Rightarrow> (r, on_exit s'))"

definition perform :: "('s \<Rightarrow> 's) \<Rightarrow> ('s, 'e, unit) op" where
  "perform f s = (Ok (), f s)"

lemma perform_apply [simp]: "perform f s = (Ok (), f s)"
  by (simp add: perform_def)

subsection \<open>Guards and the heartbeat\<close>

text \<open>
  \<open>Drop for ResourceGuard\<close> spawns the release and logs its error; \<open>Drop for ActiveTaskGuard\<close>
  removes the task's token.
\<close>

definition drop_resource_guard :: "'s Runtime \<Rightarrow> ResourceAllocation \<Rightarrow> 's Worker \<Rightarrow> 's Worker" where
  "drop_resource_guard R req w = w\<lparr>wk_world := snd (monitor_release (rt_monitor R) req (wk_world w))\<rparr>"

definition drop_active_guard :: "TaskId \<Rightarrow> 's Worker \<Rightarrow> 's Worker" where
  "drop_active_guard t w = w\<lparr>wk_active := fmdrop t (wk_active w)\<rparr>"

text \<open>One tick of the heartbeat loop: it ends when the lease is gone, and otherwise renews.\<close>

definition heartbeat_tick :: "'s Runtime \<Rightarrow> instant \<Rightarrow> TaskId \<Rightarrow> 's Worker \<Rightarrow> 's Worker" where
  "heartbeat_tick R now t w =
     (case store_get (rt_leases R) t (wk_world w) of
        (Inr None, s) \<Rightarrow> w\<lparr>wk_world := s, wk_heartbeats := remove1 t (wk_heartbeats w)\<rparr>
      | (_, s) \<Rightarrow> w\<lparr>wk_world := snd (lm_renew (rt_leases R) now t (rt_lease_ttl R) s)\<rparr>)"

subsection \<open>\<open>execute_task\<close>\<close>

definition spawn_params :: "TaskDescriptor \<Rightarrow> SpawnParams" where
  "spawn_params task = \<lparr>sp_task_id = td_task_id task, sp_command = td_command task,
     sp_working_dir = td_working_dir task, sp_env = td_env task, sp_location = td_location task\<rparr>"

definition settle :: "'s Runtime \<Rightarrow> TaskDescriptor \<Rightarrow> ExitOutcome \<Rightarrow> ('s Worker, Failure, unit) op" where
  "settle R task outcome =
    (let t = td_task_id task in
     case decide outcome (td_policy task) (td_attempt task) of
       None \<Rightarrow> fails Panicked
     | Some RetryDecision.Complete \<Rightarrow> core (lm_complete (rt_leases R) t)
     | Some (Retry delay) \<Rightarrow>
         try_bind (core (sink_event (rt_sink R)
             (EvWillRetry t (td_attempt task + 1) (word_of_nat (as_millis delay))))) (\<lambda>_.
         try_bind (core (lm_fail (rt_leases R) t (td_attempt task + 1))) (\<lambda>_.
         try_bind (perform (rt_wait R delay)) (\<lambda>_.
           core (queue_requeue (rt_queue R) t (td_attempt task + 1)))))
     | Some Abandon \<Rightarrow>
         try_bind (core (sink_event (rt_sink R) (EvAbandoned t ''max attempts exceeded''))) (\<lambda>_.
           core (lm_fail (rt_leases R) t (td_attempt task))))"

definition run_leased :: "'s Runtime \<Rightarrow> TaskDescriptor \<Rightarrow> ('s Worker, Failure, unit) op" where
  "run_leased R task =
    (let t = td_task_id task in
     then_with (core (sink_event (rt_sink R) (EvAcquired t (rt_worker_id R) (td_attempt task)))) (\<lambda>_.
     try_bind (perform (\<lambda>w. w\<lparr>wk_active := fmupd t False (wk_active w)\<rparr>)) (\<lambda>_.
     with_guard (drop_active_guard t)
       (try_bind (perform (\<lambda>w. w\<lparr>wk_heartbeats := t # wk_heartbeats w\<rparr>)) (\<lambda>_.
        try_bind (process (rt_execute R (spawn_params task))) (\<lambda>outcome.
        try_bind (perform (rt_wait R (from_secs 5))) (\<lambda>_.
        then_with (core (sink_event (rt_sink R) (EvCompleted t outcome))) (\<lambda>_.
          settle R task outcome))))))))"

definition run_with_lease :: "'s Runtime \<Rightarrow> LeaseId \<Rightarrow> instant \<Rightarrow> TaskDescriptor \<Rightarrow> ('s Worker, Failure, unit) op" where
  "run_with_lease R fresh now task =
    (let t = td_task_id task;
         lease = lease_new fresh now t (rt_worker_id R) (rt_lease_ttl R) (td_attempt task) in
     then_with (core (lm_acquire (rt_leases R) lease)) (\<lambda>r.
       case r of
         Inr _ \<Rightarrow> run_leased R task
       | Inl e \<Rightarrow> if e = Failing (Core AlreadyLeased) then returns ()
                  else try_bind (core (queue_requeue (rt_queue R) t (td_attempt task))) (\<lambda>_. fails e)))"

definition execute_task :: "'s Runtime \<Rightarrow> LeaseId \<Rightarrow> instant \<Rightarrow> TaskDescriptor \<Rightarrow> ('s Worker, Failure, unit) op" where
  "execute_task R fresh now task =
     try_bind (core (monitor_can_allocate (rt_monitor R) (td_resources task))) (\<lambda>ok.
       if \<not> ok then try_bind (core (queue_requeue (rt_queue R) (td_task_id task) (td_attempt task))) returns
       else try_bind (core (monitor_allocate (rt_monitor R) (td_resources task))) (\<lambda>_.
         with_guard (drop_resource_guard R (td_resources task)) (run_with_lease R fresh now task)))"

text \<open>One iteration of \<open>worker_loop\<close>; a panic inside \<open>execute_task\<close> ends the loop.\<close>

definition worker_iteration :: "'s Runtime \<Rightarrow> LeaseId \<Rightarrow> instant \<Rightarrow> 's Worker \<Rightarrow> 's Worker option" where
  "worker_iteration R fresh now w =
     (case core (queue_dequeue (rt_queue R) (rt_worker_id R)) w of
        (Inr (Some task), w1) \<Rightarrow>
          (case execute_task R fresh now task w1 of (Inl Panicked, w2) \<Rightarrow> None | (_, w2) \<Rightarrow> Some w2)
      | (Inr None, w1) \<Rightarrow> Some (rt_wait R (from_millis 100) w1)
      | (Inl e, w1) \<Rightarrow> Some (rt_wait R (from_secs 1) w1))"

subsection \<open>The reaper and cancellation\<close>

primrec reap_all :: "'s Runtime \<Rightarrow> Lease list \<Rightarrow> ('s Worker, Failure, unit) op" where
  "reap_all R [] = returns ()"
| "reap_all R (lease # leases) =
     try_bind (core (sink_event (rt_sink R) (EvLeaseExpired (ls_task_id lease)))) (\<lambda>_.
     try_bind (core (queue_requeue (rt_queue R) (ls_task_id lease) (ls_attempt lease + 1))) (\<lambda>_.
       reap_all R leases))"

definition reaper_tick :: "'s Runtime \<Rightarrow> instant \<Rightarrow> ('s Worker, Failure, unit) op" where
  "reaper_tick R now = then_with (core (lm_collect_expired (rt_leases R) now)) (\<lambda>r.
     case r of Inr expired \<Rightarrow> reap_all R expired | Inl e \<Rightarrow> returns ())"

definition cancel_task :: "'s Runtime \<Rightarrow> TaskId \<Rightarrow> ('s Worker, Failure, unit) op" where
  "cancel_task R t =
     try_bind (perform (\<lambda>w. if fmlookup (wk_active w) t = None then w
        else w\<lparr>wk_active := fmupd t True (wk_active w)\<rparr>)) (\<lambda>_.
     try_bind (core (store_get (rt_leases R) t)) (\<lambda>lease.
     try_bind (if lease \<noteq> None then core (lm_cancel (rt_leases R) t) else returns ()) (\<lambda>_.
     try_bind (core (queue_discard (rt_queue R) t)) (\<lambda>_.
       core (sink_event (rt_sink R) (EvCancelled t))))))"

subsection \<open>The runtime on an exclusive lease store\<close>

locale leased_runtime = exclusive_store "rt_leases R" valid view storable
  for R :: "'s Runtime" and valid and view and storable +
  assumes monitor_frame:
      "valid s \<Longrightarrow> valid (snd (monitor_can_allocate (rt_monitor R) req s))
         \<and> view (snd (monitor_can_allocate (rt_monitor R) req s)) = view s"
      "valid s \<Longrightarrow> valid (snd (monitor_allocate (rt_monitor R) req s))
         \<and> view (snd (monitor_allocate (rt_monitor R) req s)) = view s"
      "valid s \<Longrightarrow> valid (snd (monitor_release (rt_monitor R) req s))
         \<and> view (snd (monitor_release (rt_monitor R) req s)) = view s"
    and sink_frame:
      "valid s \<Longrightarrow> valid (snd (sink_event (rt_sink R) e s)) \<and> view (snd (sink_event (rt_sink R) e s)) = view s"
    and queue_frame:
      "valid s \<Longrightarrow> valid (snd (queue_requeue (rt_queue R) t n s))
         \<and> view (snd (queue_requeue (rt_queue R) t n s)) = view s"
begin

text \<open>A task that has a lease, in whatever state, is dropped: the executor is not called.\<close>

lemma leased_task_dropped:
  assumes v: "valid (wk_world w)" and t: "view (wk_world w) (td_task_id task) \<noteq> None"
    and can: "monitor_can_allocate (rt_monitor R) (td_resources task) (wk_world w) = (Ok True, s1)"
    and fits: "storable (lease_new fresh now (td_task_id task) (rt_worker_id R) (rt_lease_ttl R) (td_attempt task))"
    and alloc: "monitor_allocate (rt_monitor R) (td_resources task) s1 = (Ok (), s2)"
  shows "\<exists>s3. execute_task R fresh now task w
      = (Ok (), drop_resource_guard R (td_resources task) (w\<lparr>wk_world := s3\<rparr>)) \<and> valid s3 \<and> view s3 = view (wk_world w)"
proof -
  let ?l = "lease_new fresh now (td_task_id task) (rt_worker_id R) (rt_lease_ttl R) (td_attempt task)"
  have s1: "valid s1" "view s1 = view (wk_world w)" using monitor_frame(1) [OF v, of "td_resources task"] can by auto
  have s2: "valid s2" "view s2 = view (wk_world w)" using monitor_frame(2) [OF s1(1), of "td_resources task"] alloc s1 by auto
  have "view s2 (ls_task_id ?l) \<noteq> None" using t s2 by (simp add: lease_new_def)
  from insert_taken [OF s2(1) fits this] obtain s3
    where "store_insert (rt_leases R) ?l s2 = (Err AlreadyLeased, s3)" "valid s3" "view s3 = view s2" by blast
  then show ?thesis using can alloc s2(2)
    by (intro exI [of _ s3]) (simp add: execute_task_def try_bind_def core_def with_guard_def run_with_lease_def then_with_def
        lm_acquire_def Let_def)
qed

end

end
