(* ===== verification/FakeWorker.thy ===== *)
theory FakeWorker
  imports WorkerRuntime
begin

text \<open>
  The in-process implementation of the worker's traits in \<open>crates/worker/src/fake_worker.rs\<close>:
  a queue, a resource monitor, an event sink and a scripted executor.
\<close>

datatype FakeBehavior = Succeed u64 | Fail i32 u64 | Hang | Crash

datatype ResourceBehavior = AlwaysAllow | AlwaysDeny

record FakeWorker =
  fake_queue :: "TaskDescriptor list"
  fake_events :: "TaskEvent list"
  fake_logs :: "LogLine list"
  fake_behaviors :: "(TaskId, FakeBehavior) fmap"
  fake_resource_behavior :: ResourceBehavior

definition fake_new :: FakeWorker where
  "fake_new = \<lparr>fake_queue = [], fake_events = [], fake_logs = [], fake_behaviors = fmempty,
     fake_resource_behavior = AlwaysAllow\<rparr>"

definition fake_enqueue :: "TaskDescriptor \<Rightarrow> FakeWorker \<Rightarrow> FakeWorker" where
  "fake_enqueue task f = f\<lparr>fake_queue := fake_queue f @ [task]\<rparr>"

definition fake_set_behavior :: "TaskId \<Rightarrow> FakeBehavior \<Rightarrow> FakeWorker \<Rightarrow> FakeWorker" where
  "fake_set_behavior t b f = f\<lparr>fake_behaviors := fmupd t b (fake_behaviors f)\<rparr>"

definition fake_set_resource_behavior :: "ResourceBehavior \<Rightarrow> FakeWorker \<Rightarrow> FakeWorker" where
  "fake_set_resource_behavior b f = f\<lparr>fake_resource_behavior := b\<rparr>"

definition fake_drain_events :: "FakeWorker \<Rightarrow> TaskEvent list \<times> FakeWorker" where
  "fake_drain_events f = (fake_events f, f\<lparr>fake_events := []\<rparr>)"

definition fake_drain_logs :: "FakeWorker \<Rightarrow> LogLine list \<times> FakeWorker" where
  "fake_drain_logs f = (fake_logs f, f\<lparr>fake_logs := []\<rparr>)"

definition fake_get_behavior :: "TaskId \<Rightarrow> FakeWorker \<Rightarrow> FakeBehavior option" where
  "fake_get_behavior t f = fmlookup (fake_behaviors f) t"

subsection \<open>Queue\<close>

definition fake_dequeue :: "WorkerId \<Rightarrow> (FakeWorker, CoreError, TaskDescriptor option) op" where
  "fake_dequeue w f = (case fake_queue f of
     [] \<Rightarrow> (Ok None, f) | task # q \<Rightarrow> (Ok (Some task), f\<lparr>fake_queue := q\<rparr>))"

text \<open>
  \<open>requeue\<close> updates the attempt of the first queued descriptor of the task and appends a copy;
  the descriptor stays where it was. A task that is not queued is not added.
\<close>

fun requeue_scan :: "TaskId \<Rightarrow> u32 \<Rightarrow> TaskDescriptor list \<Rightarrow> (TaskDescriptor list \<times> TaskDescriptor) option" where
  "requeue_scan t attempt [] = None"
| "requeue_scan t attempt (task # q) =
     (if td_task_id task = t then
        (let task' = task\<lparr>td_attempt := attempt\<rparr> in Some (task' # q, task'))
      else map_option (\<lambda>(q', copy). (task # q', copy)) (requeue_scan t attempt q))"

definition fake_requeue :: "TaskId \<Rightarrow> u32 \<Rightarrow> (FakeWorker, CoreError, unit) op" where
  "fake_requeue t attempt f = (case requeue_scan t attempt (fake_queue f) of
     None \<Rightarrow> (Ok (), f) | Some (q, copy) \<Rightarrow> (Ok (), f\<lparr>fake_queue := q @ [copy]\<rparr>))"

definition fake_discard :: "TaskId \<Rightarrow> (FakeWorker, CoreError, unit) op" where
  "fake_discard t f = (Ok (), f\<lparr>fake_queue := filter (\<lambda>task. td_task_id task \<noteq> t) (fake_queue f)\<rparr>)"

subsection \<open>Resource monitor, event sink\<close>

definition fake_can_allocate :: "ResourceAllocation \<Rightarrow> (FakeWorker, CoreError, bool) op" where
  "fake_can_allocate req f = (Ok (case fake_resource_behavior f of AlwaysAllow \<Rightarrow> True | AlwaysDeny \<Rightarrow> False), f)"

definition fake_allocate :: "ResourceAllocation \<Rightarrow> (FakeWorker, CoreError, unit) op" where
  "fake_allocate req f = (Ok (), f)"

definition fake_release :: "ResourceAllocation \<Rightarrow> (FakeWorker, CoreError, unit) op" where
  "fake_release req f = (Ok (), f)"

definition fake_emit_event :: "TaskEvent \<Rightarrow> (FakeWorker, CoreError, unit) op" where
  "fake_emit_event e f = (Ok (), f\<lparr>fake_events := fake_events f @ [e]\<rparr>)"

definition fake_emit_log :: "LogLine \<Rightarrow> (FakeWorker, CoreError, unit) op" where
  "fake_emit_log l f = (Ok (), f\<lparr>fake_logs := fake_logs f @ [l]\<rparr>)"

subsection \<open>Process executor\<close>

text \<open>
  \<open>cancelled\<close>: the guard was cancelled before the call; \<open>cancel_wins\<close>: it is cancelled
  before the scripted delay has passed (or ever, for \<open>Hang\<close>, which otherwise never returns).
\<close>

definition fake_execute :: "bool \<Rightarrow> bool \<Rightarrow> SpawnParams \<Rightarrow> FakeWorker \<Rightarrow> (WorkerError + ExitOutcome) option" where
  "fake_execute cancelled cancel_wins params f =
     (if cancelled then Some (Ok Success)
      else case (case fake_get_behavior (sp_task_id params) f of Some b \<Rightarrow> b | None \<Rightarrow> Succeed 10) of
        Succeed delay_ms \<Rightarrow> Some (Ok (if cancel_wins then KilledBySignal 15 else Success))
      | Fail exit_code delay_ms \<Rightarrow> Some (Ok (if cancel_wins then KilledBySignal 15 else FailedWithCode exit_code))
      | Hang \<Rightarrow> if cancel_wins then Some (Ok (KilledBySignal 15)) else None
      | Crash \<Rightarrow> Some (Ok (FailedWithCode 1)))"

lemma fake_requeue_absent:
  "t \<notin> td_task_id ` set (fake_queue f) \<Longrightarrow> fake_requeue t attempt f = (Ok (), f)"
proof -
  have "requeue_scan t attempt q = None" if "t \<notin> td_task_id ` set q" for q
    using that by (induction q) auto
  then show "t \<notin> td_task_id ` set (fake_queue f) \<Longrightarrow> fake_requeue t attempt f = (Ok (), f)"
    by (simp add: fake_requeue_def)
qed

end
