(* ===== verification/LocalNode.thy ===== *)
theory LocalNode
  imports FakeWorker
begin

text \<open>
  The worker runtime running on one machine: tasks from the DAG scheduler, leases in the
  in-memory store, events to the in-process sink.
\<close>

subsection \<open>The system\<close>

record World =
  w_dag :: DagScheduler
  w_leases :: LeaseMap
  w_fake :: FakeWorker
  w_now :: u64

definition on_dag :: "(DagScheduler \<Rightarrow> (CoreError + 'a) \<times> DagScheduler) \<Rightarrow> (World, CoreError, 'a) op" where
  "on_dag f s = (case f (w_dag s) of (r, d) \<Rightarrow> (r, s\<lparr>w_dag := d\<rparr>))"

definition on_leases :: "(LeaseMap, CoreError, 'a) op \<Rightarrow> (World, CoreError, 'a) op" where
  "on_leases f s = (case f (w_leases s) of (r, m) \<Rightarrow> (r, s\<lparr>w_leases := m\<rparr>))"

definition on_fake :: "(FakeWorker, CoreError, 'a) op \<Rightarrow> (World, CoreError, 'a) op" where
  "on_fake f s = (case f (w_fake s) of (r, k) \<Rightarrow> (r, s\<lparr>w_fake := k\<rparr>))"

definition dag_queue :: "World QueueOps" where
  "dag_queue = \<lparr>queue_dequeue = (\<lambda>w s. on_dag (with_lock (inner_dequeue (w_now s))) s),
     queue_requeue = (\<lambda>t n s. on_dag (with_lock (inner_requeue (w_now s) t n)) s),
     queue_discard = (\<lambda>t s. on_dag (with_lock (inner_discard sorted_list_of_set t)) s)\<rparr>"

definition world_leases :: "World LeaseStoreOps" where
  "world_leases = \<lparr>store_insert = \<lambda>l. on_leases (mem_insert l), store_get = \<lambda>t. on_leases (mem_get t),
     store_update = \<lambda>l. on_leases (mem_update l), store_remove = \<lambda>t. on_leases (mem_remove t),
     store_active = on_leases (mem_active sorted_list_of_set)\<rparr>"

definition local_runtime :: "WorkerId \<Rightarrow> (SpawnParams \<Rightarrow> (World Worker, WorkerError, ExitOutcome) op)
    \<Rightarrow> (duration \<Rightarrow> World Worker \<Rightarrow> World Worker) \<Rightarrow> World Runtime" where
  "local_runtime w ex wt = runtime_new w dag_queue world_leases
     \<lparr>monitor_can_allocate = \<lambda>r. on_fake (fake_can_allocate r), monitor_allocate = \<lambda>r. on_fake (fake_allocate r),
      monitor_release = \<lambda>r. on_fake (fake_release r)\<rparr>
     \<lparr>sink_event = \<lambda>e. on_fake (fake_emit_event e), sink_log = \<lambda>l. on_fake (fake_emit_log l)\<rparr> ex wt"

lemma local_runtime_simps [simp]:
  "rt_worker_id (local_runtime w ex wt) = w" "rt_queue (local_runtime w ex wt) = dag_queue"
  "rt_leases (local_runtime w ex wt) = world_leases"
  "monitor_can_allocate (rt_monitor (local_runtime w ex wt)) r = on_fake (fake_can_allocate r)"
  "monitor_allocate (rt_monitor (local_runtime w ex wt)) r = on_fake (fake_allocate r)"
  "monitor_release (rt_monitor (local_runtime w ex wt)) r = on_fake (fake_release r)"
  "sink_event (rt_sink (local_runtime w ex wt)) e = on_fake (fake_emit_event e)"
  "rt_execute (local_runtime w ex wt) = ex" "rt_wait (local_runtime w ex wt) = wt"
  "rt_lease_ttl (local_runtime w ex wt) = from_secs 30"
  by (simp_all add: local_runtime_def runtime_new_def)

lemma world_leases_simps [simp]:
  "store_insert world_leases l = on_leases (mem_insert l)" "store_get world_leases t = on_leases (mem_get t)"
  "store_update world_leases l = on_leases (mem_update l)" "store_remove world_leases t = on_leases (mem_remove t)"
  "store_active world_leases = on_leases (mem_active sorted_list_of_set)"
  by (simp_all add: world_leases_def)

lemma dag_queue_simps [simp]:
  "queue_dequeue dag_queue w s = on_dag (with_lock (inner_dequeue (w_now s))) s"
  "queue_requeue dag_queue t n s = on_dag (with_lock (inner_requeue (w_now s) t n)) s"
  "queue_discard dag_queue t s = on_dag (with_lock (inner_discard sorted_list_of_set t)) s"
  by (simp_all add: dag_queue_def)

definition world_keyed :: "World \<Rightarrow> bool" where
  "world_keyed s \<longleftrightarrow> keyed (w_leases s)"

definition world_view :: "World \<Rightarrow> TaskId \<Rightarrow> Lease option" where
  "world_view s = fmlookup (w_leases s)"

lemma world_lease_store: "lease_store world_leases world_keyed world_view"
proof
  fix s t l
  assume k: "world_keyed s"
  then have m: "keyed (w_leases s)" by (simp add: world_keyed_def)
  show "world_view s t = Some l \<Longrightarrow> ls_task_id l = t"
    unfolding world_view_def by (rule mem.key [OF m])
  show "\<exists>s'. store_get world_leases t s = (Ok (world_view s t), s') \<and> world_keyed s' \<and> world_view s' = world_view s"
    using k by (simp add: on_leases_def mem_get_def world_view_def world_keyed_def)
  show "world_view s (ls_task_id l) = None \<Longrightarrow> \<exists>s'. store_insert world_leases l s = (Ok (), s') \<and> world_keyed s'
      \<and> world_view s' = (world_view s)(ls_task_id l \<mapsto> l)"
    using mem.insert_new [OF m, of l] by (auto simp: on_leases_def world_view_def world_keyed_def)
  show "world_view s (ls_task_id l) \<noteq> None \<Longrightarrow> \<exists>s'. store_insert world_leases l s = (Err AlreadyLeased, s')
      \<and> world_keyed s' \<and> world_view s' = world_view s"
    using mem.insert_refused [OF m, of l] by (auto simp: on_leases_def world_view_def world_keyed_def)
  then show "world_view s (ls_task_id l) \<noteq> None \<Longrightarrow> \<exists>e s'. store_insert world_leases l s = (Err e, s')
      \<and> world_keyed s' \<and> world_view s' = world_view s" by blast
  show "world_view s (ls_task_id l) \<noteq> None \<Longrightarrow> \<exists>s'. store_update world_leases l s = (Ok (), s') \<and> world_keyed s'
      \<and> world_view s' = (world_view s)(ls_task_id l \<mapsto> l)"
    using mem.update [OF m, of l] by (auto simp: on_leases_def world_view_def world_keyed_def)
  show "\<exists>s'. store_remove world_leases t s = (Ok (), s') \<and> world_keyed s' \<and> world_view s' = (world_view s)(t := None)"
    using mem.remove [OF m, of t] by (auto simp: on_leases_def world_view_def world_keyed_def)
  show "\<exists>ls s'. store_active world_leases s = (Ok ls, s') \<and> world_keyed s' \<and> world_view s' = world_view s
      \<and> distinct (map ls_task_id ls) \<and> set ls = {l. world_view s (ls_task_id l) = Some l \<and> ls_state l = Active}"
    using mem.active [OF m] by (fastforce simp: on_leases_def world_view_def world_keyed_def)
qed

interpretation local_node: leased_runtime "local_runtime me ex wt" world_keyed world_view "\<lambda>_. True"
  for me ex wt
proof -
  have "exclusive_store (rt_leases (local_runtime me ex wt)) world_keyed world_view (\<lambda>_. True)"
    using lease_store.axioms(2) [OF world_lease_store] by simp
  then show "leased_runtime (local_runtime me ex wt) world_keyed world_view (\<lambda>_. True)"
    by (auto simp: leased_runtime_def leased_runtime_axioms_def on_fake_def on_dag_def world_keyed_def
        world_view_def fake_can_allocate_def fake_allocate_def fake_release_def fake_emit_event_def
        split: prod.split)
qed

lemmas run_defs = execute_task_def run_with_lease_def run_leased_def settle_def core_def process_def
  with_guard_def then_with_def try_bind_def lm_acquire_def lm_fail_def lm_complete_def lm_modify_def
  on_fake_def on_leases_def on_dag_def mem_insert_def mem_get_def mem_update_def with_lock_def
  fake_can_allocate_def fake_allocate_def fake_release_def fake_emit_event_def lease_new_def
  drop_active_guard_def drop_resource_guard_def

subsection \<open>A leased task is never executed\<close>

text \<open>
  A task that has a lease in any state (active, but also completed, failed, expired or
  cancelled) is not executed: \<open>execute_task\<close> returns success without calling the executor and
  changes nothing.
\<close>

lemma leased_task_never_executed:
  assumes "fmlookup (w_leases (wk_world w)) (td_task_id task) \<noteq> None"
    and "fake_resource_behavior (w_fake (wk_world w)) = AlwaysAllow"
  shows "execute_task (local_runtime me ex wt) fresh now task w = (Ok (), w)"
  using assms by (simp add: run_defs Let_def)

subsection \<open>Retries\<close>

text \<open>
  C14: when the process of a task ends in an outcome that is to be retried, the runtime
  announces the retry, fails the lease and requeues the task, which becomes ready with the next
  attempt number; but the failed lease stays, so executing the task again, under any attempt
  number, does nothing: the announced retry never runs.
\<close>

theorem announced_retry_never_runs:
  assumes none: "fmlookup (w_leases (wk_world w)) (td_task_id task) = None"
    and allow: "fake_resource_behavior (w_fake (wk_world w)) = AlwaysAllow"
    and lock: "\<not> dag_poisoned (w_dag (wk_world w))"
    and running: "fmlookup (dag_states (dag_inner (w_dag (wk_world w)))) (td_task_id task) = Some Running"
    and known: "fmlookup (dag_tasks (dag_inner (w_dag (wk_world w)))) (td_task_id task) = Some task"
    and retry: "decide outcome (td_policy task) (td_attempt task) = Some (Retry delay)"
    and run: "execute_task (local_runtime me (\<lambda>params v. (Ok outcome, v)) (\<lambda>d v. v)) fresh now task w = (r, w')"
  shows "r = Ok ()
    \<and> map_option ls_state (fmlookup (w_leases (wk_world w')) (td_task_id task)) = Some (Failed (td_attempt task + 1))
    \<and> fmlookup (dag_states (dag_inner (w_dag (wk_world w')))) (td_task_id task) = Some Ready
    \<and> fmlookup (dag_tasks (dag_inner (w_dag (wk_world w')))) (td_task_id task)
        = Some (task\<lparr>td_attempt := td_attempt task + 1\<rparr>)
    \<and> fake_events (w_fake (wk_world w')) = fake_events (w_fake (wk_world w)) @
        [EvAcquired (td_task_id task) me (td_attempt task), EvCompleted (td_task_id task) outcome,
         EvWillRetry (td_task_id task) (td_attempt task + 1) (word_of_nat (as_millis delay))]
    \<and> (\<forall>ex wt fresh' now' task'. td_task_id task' = td_task_id task \<longrightarrow>
         execute_task (local_runtime me ex wt) fresh' now' task' w' = (Ok (), w'))"
proof -
  have w': "r = Ok () \<and> fake_resource_behavior (w_fake (wk_world w')) = AlwaysAllow
    \<and> map_option ls_state (fmlookup (w_leases (wk_world w')) (td_task_id task)) = Some (Failed (td_attempt task + 1))
    \<and> fmlookup (dag_states (dag_inner (w_dag (wk_world w')))) (td_task_id task) = Some Ready
    \<and> fmlookup (dag_tasks (dag_inner (w_dag (wk_world w')))) (td_task_id task)
        = Some (task\<lparr>td_attempt := td_attempt task + 1\<rparr>)
    \<and> fake_events (w_fake (wk_world w')) = fake_events (w_fake (wk_world w)) @
        [EvAcquired (td_task_id task) me (td_attempt task), EvCompleted (td_task_id task) outcome,
         EvWillRetry (td_task_id task) (td_attempt task + 1) (word_of_nat (as_millis delay))]"
    using assms by (auto simp: run_defs inner_requeue_def Let_def)
  then have "fmlookup (w_leases (wk_world w')) (td_task_id task) \<noteq> None" by auto
  then show ?thesis using w' leased_task_never_executed by metis
qed

subsection \<open>A failed spawn\<close>

text \<open>The ticks of the heartbeat of task \<open>t\<close>, at the given instants.\<close>

definition heartbeats :: "World Runtime \<Rightarrow> TaskId \<Rightarrow> instant list \<Rightarrow> World Worker \<Rightarrow> World Worker" where
  "heartbeats R t nows w = fold (\<lambda>now. heartbeat_tick R now t) nows w"

lemma heartbeat_tick_local:
  assumes "keyed (w_leases (wk_world w))" "fmlookup (w_leases (wk_world w)) t = Some l"
  shows "heartbeat_tick (local_runtime me ex wt) now t w = w\<lparr>wk_world := (wk_world w)\<lparr>w_leases :=
    fmupd t (lease_renew now (from_secs 30) l) (w_leases (wk_world w))\<rparr>\<rparr>"
  using assms by (simp add: heartbeat_tick_def lm_renew_def lm_modify_def try_bind_def on_leases_def mem_get_def
      mem_update_def lease_renew_def keyed_def)

lemma heartbeats_local:
  "keyed (w_leases (wk_world w)) \<Longrightarrow> fmlookup (w_leases (wk_world w)) t = Some l \<Longrightarrow>
   \<exists>l'. fmlookup (w_leases (wk_world (heartbeats (local_runtime me ex wt) t nows w))) t = Some l'
     \<and> ls_state l' = ls_state l
     \<and> (nows \<noteq> [] \<longrightarrow> ls_expires_at l' = last nows + 30 * 10 ^ 9)"
proof (induction nows arbitrary: w l)
  case (Cons now nows)
  let ?w = "heartbeat_tick (local_runtime me ex wt) now t w" and ?l = "lease_renew now (from_secs 30) l"
  have k: "keyed (w_leases (wk_world ?w))" and l: "fmlookup (w_leases (wk_world ?w)) t = Some ?l"
    using Cons.prems by (auto simp: heartbeat_tick_local keyed_def lease_renew_def)
  from Cons.IH [OF k l] show ?case
    by (cases nows) (auto simp: heartbeats_def lease_renew_def chrono_from_std_def chrono_max_def from_secs_def l)
qed (simp add: heartbeats_def)

text \<open>
  C15: when the executor fails (an empty command, a program that cannot be spawned),
  \<open>execute_task\<close> returns the error but leaves the lease active and its heartbeat running; each
  tick extends the lease to 30 seconds after the tick, so while the worker lives the reaper
  never finds it expired and the task is never requeued.
\<close>

theorem failed_spawn_keeps_lease:
  assumes key: "keyed (w_leases (wk_world w))"
    and none: "fmlookup (w_leases (wk_world w)) (td_task_id task) = None"
    and allow: "fake_resource_behavior (w_fake (wk_world w)) = AlwaysAllow"
    and run: "execute_task (local_runtime me (\<lambda>params v. (Err e, v)) wt) fresh now task w = (r, w')"
  shows "r = Err (Failing e) \<and> td_task_id task \<in> set (wk_heartbeats w')
    \<and> (\<exists>l. fmlookup (w_leases (wk_world (heartbeats (local_runtime me (\<lambda>params v. (Err e, v)) wt)
          (td_task_id task) (nows @ [t]) w'))) (td_task_id task) = Some l
        \<and> ls_state l = Active \<and> \<not> lease_is_expired (t + 30 * 10 ^ 9) l)"
proof -
  have w': "r = Err (Failing e)" "td_task_id task \<in> set (wk_heartbeats w')" "keyed (w_leases (wk_world w'))"
    "\<exists>l. fmlookup (w_leases (wk_world w')) (td_task_id task) = Some l \<and> ls_state l = Active"
    using assms by (auto simp: run_defs Let_def keyed_def split: if_splits)
  then obtain l where l: "fmlookup (w_leases (wk_world w')) (td_task_id task) = Some l" "ls_state l = Active" by blast
  obtain l' where "fmlookup (w_leases (wk_world (heartbeats (local_runtime me (\<lambda>params v. (Err e, v)) wt)
      (td_task_id task) (nows @ [t]) w'))) (td_task_id task) = Some l'" "ls_state l' = Active"
    "ls_expires_at l' = t + 30 * 10 ^ 9"
    using heartbeats_local [OF w'(3) l(1), where nows = "nows @ [t]" and me = me and wt = wt
        and ex = "\<lambda>params v. (Err e, v)"] l(2) by auto
  then show ?thesis using w'(1,2) by (intro conjI exI [of _ l']) (simp_all add: lease_is_expired_def)
qed

subsection \<open>The reaper\<close>

lemma inner_requeue_states:
  "fmlookup (dag_states (snd (inner_requeue now t a s))) u
     = (if u = t \<and> fmlookup (dag_states s) t = Some Running then Some Ready else fmlookup (dag_states s) u)"
  by (auto simp: inner_requeue_def Let_def split: option.split)

lemma inner_requeue_Ok: "fst (inner_requeue now t a s) = Ok ()"
  by (simp add: inner_requeue_def Let_def)

abbreviation dag_state :: "World Worker \<Rightarrow> TaskId \<Rightarrow> TaskState option" where
  "dag_state w t \<equiv> fmlookup (dag_states (dag_inner (w_dag (wk_world w)))) t"

lemma reap_all_local:
  assumes "\<not> dag_poisoned (w_dag (wk_world w))"
  shows "\<exists>w'. reap_all (local_runtime me ex wt) ls w = (Ok (), w')
    \<and> w_leases (wk_world w') = w_leases (wk_world w)
    \<and> fake_resource_behavior (w_fake (wk_world w')) = fake_resource_behavior (w_fake (wk_world w))
    \<and> fake_events (w_fake (wk_world w')) = fake_events (w_fake (wk_world w)) @ map (EvLeaseExpired \<circ> ls_task_id) ls
    \<and> (\<forall>t. dag_state w' t = (if t \<in> ls_task_id ` set ls \<and> dag_state w t = Some Running then Some Ready else dag_state w t))"
  using assms
proof (induction ls arbitrary: w)
  case (Cons l ls)
  let ?s = "wk_world w"
  obtain d where q: "inner_requeue (w_now ?s) (ls_task_id l) (ls_attempt l + 1) (dag_inner (w_dag ?s)) = (Ok (), d)"
    using inner_requeue_Ok [of "w_now ?s" "ls_task_id l" "ls_attempt l + 1" "dag_inner (w_dag ?s)"] by (metis prod.collapse)
  let ?w = "w\<lparr>wk_world := ?s\<lparr>w_fake := (w_fake ?s)\<lparr>fake_events := fake_events (w_fake ?s) @
     [EvLeaseExpired (ls_task_id l)]\<rparr>, w_dag := (w_dag ?s)\<lparr>dag_inner := d\<rparr>\<rparr>\<rparr>"
  have step: "reap_all (local_runtime me ex wt) (l # ls) w = reap_all (local_runtime me ex wt) ls ?w"
    using Cons.prems q by (simp add: try_bind_def core_def on_fake_def fake_emit_event_def on_dag_def with_lock_def)
  have d: "fmlookup (dag_states d) u = (if u = ls_task_id l \<and> dag_state w (ls_task_id l) = Some Running
      then Some Ready else dag_state w u)" for u
    using inner_requeue_states [of "w_now ?s" "ls_task_id l" "ls_attempt l + 1" "dag_inner (w_dag ?s)" u] q by simp
  have "\<not> dag_poisoned (w_dag (wk_world ?w))" using Cons.prems by simp
  from Cons.IH [OF this] obtain w' where w': "reap_all (local_runtime me ex wt) ls ?w = (Ok (), w')"
    "w_leases (wk_world w') = w_leases ?s"
    "fake_resource_behavior (w_fake (wk_world w')) = fake_resource_behavior (w_fake ?s)"
    "fake_events (w_fake (wk_world w')) = fake_events (w_fake ?s) @ [EvLeaseExpired (ls_task_id l)]
       @ map (EvLeaseExpired \<circ> ls_task_id) ls"
    "\<And>t. dag_state w' t = (if t \<in> ls_task_id ` set ls \<and> fmlookup (dag_states d) t = Some Running
       then Some Ready else fmlookup (dag_states d) t)"
    by auto
  have "dag_state w' t = (if t \<in> ls_task_id ` set (l # ls) \<and> dag_state w t = Some Running
      then Some Ready else dag_state w t)" for t
    by (auto simp: w'(5) d)
  then show ?case using w'(1-4) step by (intro exI [of _ w']) simp
qed simp

text \<open>
  A reaper tick succeeds, reports every task whose active lease has expired, leaves no
  such lease active and makes each of these tasks that was running ready again; but their
  expired leases remain, so executing any of them again does nothing.
\<close>

lemma reaped_task_never_executed:
  assumes key: "keyed (w_leases (wk_world w))" and lock: "\<not> dag_poisoned (w_dag (wk_world w))"
    and allow: "fake_resource_behavior (w_fake (wk_world w)) = AlwaysAllow"
    and l: "fmlookup (w_leases (wk_world w)) t = Some l" "ls_state l = Active" "now > ls_expires_at l"
    and run: "dag_state w t = Some Running"
    and tick: "reaper_tick (local_runtime me ex wt) now w = (r, w')"
  shows "r = Ok () \<and> EvLeaseExpired t \<in> set (fake_events (w_fake (wk_world w')))
    \<and> fmlookup (w_leases (wk_world w')) t = Some (l\<lparr>ls_state := Expired\<rparr>)
    \<and> dag_state w' t = Some Ready
    \<and> (\<forall>ex wt fresh now' task. td_task_id task = t \<longrightarrow>
         execute_task (local_runtime me ex wt) fresh now' task w' = (Ok (), w'))"
proof -
  have k: "world_keyed (wk_world w)" using key by (simp add: world_keyed_def)
  obtain ls m where c: "lm_collect_expired (mem_store sorted_list_of_set) now (w_leases (wk_world w)) = (Ok ls, m)"
    "\<forall>t. fmlookup m t = map_option (expire_lease now) (fmlookup (w_leases (wk_world w)) t)"
    "set ls = {l\<lparr>ls_state := Expired\<rparr> |l t. fmlookup (w_leases (wk_world w)) t = Some l \<and> ls_state l = Active
       \<and> lease_is_expired now l}"
    using mem.collect_expired [OF key, of now] by blast
  have lift: "lm_collect_loop world_leases now xs es s = (case lm_collect_loop (mem_store sorted_list_of_set) now xs es
      (w_leases s) of (r, m) \<Rightarrow> (r, s\<lparr>w_leases := m\<rparr>))" for xs es s
    by (induction xs arbitrary: es s)
      (auto simp: try_bind_def on_leases_def mem_get_def mem_update_def Let_def split: prod.splits option.splits)
  have "lm_collect_expired world_leases now (wk_world w) = (Ok ls, (wk_world w)\<lparr>w_leases := m\<rparr>)"
    using c(1) by (auto simp: lm_collect_expired_def try_bind_def on_leases_def mem_active_def lift)
  then have "reaper_tick (local_runtime me ex wt) now w
      = reap_all (local_runtime me ex wt) ls (w\<lparr>wk_world := (wk_world w)\<lparr>w_leases := m\<rparr>\<rparr>)"
    by (simp add: reaper_tick_def then_with_def core_def)
  then have w': "r = Ok ()" "w_leases (wk_world w') = m"
    "fake_resource_behavior (w_fake (wk_world w')) = AlwaysAllow"
    "fake_events (w_fake (wk_world w')) = fake_events (w_fake (wk_world w)) @ map (EvLeaseExpired \<circ> ls_task_id) ls"
    "\<And>t. dag_state w' t = (if t \<in> ls_task_id ` set ls \<and> dag_state w t = Some Running then Some Ready else dag_state w t)"
    using reap_all_local [of "w\<lparr>wk_world := (wk_world w)\<lparr>w_leases := m\<rparr>\<rparr>" me ex wt ls] lock allow tick by auto
  have "l\<lparr>ls_state := Expired\<rparr> \<in> set ls" unfolding c(3) using l by (auto simp: lease_is_expired_def)
  moreover have id: "ls_task_id l = t" using key l by (simp add: keyed_def)
  ultimately have t: "t \<in> ls_task_id ` set ls"
    by (intro image_eqI [where x = "l\<lparr>ls_state := Expired\<rparr>"]) simp_all
  have exp: "fmlookup (w_leases (wk_world w')) t = Some (l\<lparr>ls_state := Expired\<rparr>)"
    using c(2) l by (simp add: w'(2) expire_lease_def lease_is_expired_def)
  have "execute_task (local_runtime me ex' wt') fresh now' task w' = (Ok (), w')"
    if "td_task_id task = t" for ex' wt' fresh now' task
    by (rule leased_task_never_executed) (simp_all add: that exp w'(3))
  then show ?thesis using w'(1,4,5) t run exp by auto
qed

subsection \<open>Concrete runs\<close>

definition example_world :: World where
  "example_world = \<lparr>w_dag = \<lparr>dag_inner = inner_new\<lparr>dag_tasks := fmupd (TaskId 1) (example_task 1 [] High) fmempty,
       dag_states := fmupd (TaskId 1) Running fmempty\<rparr>, dag_poisoned = False\<rparr>,
     w_leases = fmempty, w_fake = fake_new, w_now = 0\<rparr>"

definition example_worker :: "World Worker" where
  "example_worker = \<lparr>wk_world = example_world, wk_active = fmempty, wk_heartbeats = []\<rparr>"

definition example_leased_worker :: "World Worker" where
  "example_leased_worker = example_worker\<lparr>wk_world := example_world\<lparr>w_leases :=
     fmupd (TaskId 1) (example_lease (TaskId 1) (WorkerId 1) 0) fmempty\<rparr>\<rparr>"

lemmas example_node_defs = example_leased_worker_def example_worker_def example_world_def fake_new_def
  example_lease_def lease_new_def

theorem announced_retry_never_runs_witness:
  "\<exists>w'. execute_task (local_runtime (WorkerId 1) (\<lambda>p v. (Ok TimedOut, v)) (\<lambda>d v. v)) (LeaseId 9) 5
      (example_task 1 [] High) example_worker = (Ok (), w')
    \<and> dag_state w' (TaskId 1) = Some Ready
    \<and> execute_task (local_runtime (WorkerId 1) (\<lambda>p v. (Ok Success, v)) (\<lambda>d v. v)) (LeaseId 10) 6
        ((example_task 1 [] High)\<lparr>td_attempt := 1\<rparr>) w' = (Ok (), w')"
proof -
  let ?t = "example_task 1 [] High"
  obtain d where "backoff_for default_retry_policy 0 = Some d"
    using backoff_some [OF _ _ default_cap, of 2 0] by (auto simp: default_retry_policy_def)
  then have dec: "decide TimedOut (td_policy ?t) (td_attempt ?t) = Some (Retry d)"
    by (simp add: decide_def example_task_def default_retry_policy_def word_le_nat_alt)
  obtain r w' where run: "execute_task (local_runtime (WorkerId 1) (\<lambda>p v. (Ok TimedOut, v)) (\<lambda>d v. v)) (LeaseId 9) 5
      ?t example_worker = (r, w')" by fastforce
  have "r = Ok () \<and> dag_state w' (td_task_id ?t) = Some Ready
    \<and> execute_task (local_runtime (WorkerId 1) (\<lambda>p v. (Ok Success, v)) (\<lambda>d v. v)) (LeaseId 10) 6
        (?t\<lparr>td_attempt := 1\<rparr>) w' = (Ok (), w')"
    using announced_retry_never_runs [OF _ _ _ _ _ dec run] by (simp add: example_node_defs example_task_def)
  then show ?thesis using run by (simp add: example_task_def)
qed

theorem failed_spawn_keeps_lease_witness:
  "\<exists>r w'. execute_task (local_runtime (WorkerId 1) (\<lambda>p v. (Err (SpawnFailed ''empty command''), v)) (\<lambda>d v. v))
      (LeaseId 9) 5 (example_task 1 [] High) example_worker = (r, w')
    \<and> r = Err (Failing (SpawnFailed ''empty command'')) \<and> TaskId 1 \<in> set (wk_heartbeats w')"
proof -
  obtain r w' where run: "execute_task (local_runtime (WorkerId 1) (\<lambda>p v. (Err (SpawnFailed ''empty command''), v))
      (\<lambda>d v. v)) (LeaseId 9) 5 (example_task 1 [] High) example_worker = (r, w')" by fastforce
  then show ?thesis using failed_spawn_keeps_lease [OF _ _ _ run]
    by (simp add: example_node_defs keyed_def example_task_def)
qed

end
