(* ===== verification/Backpressure.thy ===== *)
theory Backpressure
  imports CoreTypes
begin

text \<open>
  Queue backpressure: \<open>crates/core/src/queue_backpressure.rs\<close> and the execution filter of
  \<open>backpressure_integration.rs\<close>. The depth counter is an atomic word shared by all handles;
  \<open>try_enqueue\<close> reads it and increments it in two separate atomic accesses.
\<close>

subsection \<open>Degradation modes\<close>

datatype DegradationMode = ModeNormal | ModeModerate | ModeHigh | ModeCritical

primrec timeout_multiplier :: "DegradationMode \<Rightarrow> fp" where
  "timeout_multiplier ModeNormal = Fin 1"
| "timeout_multiplier ModeModerate = Fin (3/2)"
| "timeout_multiplier ModeHigh = Fin (5/2)"
| "timeout_multiplier ModeCritical = Fin 5"

primrec parallelism_factor :: "DegradationMode \<Rightarrow> fp" where
  "parallelism_factor ModeNormal = Fin 1"
| "parallelism_factor ModeModerate = Fin (3/4)"
| "parallelism_factor ModeHigh = Fin (1/4)"
| "parallelism_factor ModeCritical = Fin 0"

fun allows_non_critical :: "DegradationMode \<Rightarrow> bool" where
  "allows_non_critical ModeCritical = False"
| "allows_non_critical _ = True"

instantiation DegradationMode :: linorder
begin

primrec severity :: "DegradationMode \<Rightarrow> nat" where
  "severity ModeNormal = 0"
| "severity ModeModerate = 1"
| "severity ModeHigh = 2"
| "severity ModeCritical = 3"

definition less_eq_DegradationMode :: "DegradationMode \<Rightarrow> DegradationMode \<Rightarrow> bool" where
  "less_eq_DegradationMode a b \<longleftrightarrow> severity a \<le> severity b"

definition less_DegradationMode :: "DegradationMode \<Rightarrow> DegradationMode \<Rightarrow> bool" where
  "less_DegradationMode a b \<longleftrightarrow> severity a < severity b"

instance
proof
  fix a b c :: DegradationMode
  show "a < b \<longleftrightarrow> a \<le> b \<and> \<not> b \<le> a" by (auto simp: less_DegradationMode_def less_eq_DegradationMode_def)
  show "a \<le> a" by (simp add: less_eq_DegradationMode_def)
  show "a \<le> b \<Longrightarrow> b \<le> c \<Longrightarrow> a \<le> c" by (simp add: less_eq_DegradationMode_def)
  show "a \<le> b \<Longrightarrow> b \<le> a \<Longrightarrow> a = b" by (cases a; cases b) (simp_all add: less_eq_DegradationMode_def)
  show "a \<le> b \<or> b \<le> a" by (auto simp: less_eq_DegradationMode_def)
qed

end

subsection \<open>The manager\<close>

record BackpressureConfig =
  max_queue_depth :: usize
  moderate_threshold :: fp
  high_threshold :: fp
  critical_threshold :: fp

text \<open>A decimal literal is the nearest \<open>f64\<close>.\<close>

definition f64_lit :: "rat \<Rightarrow> fp" where
  "f64_lit q = fp_round binary64 q"

definition default_backpressure :: BackpressureConfig where
  "default_backpressure = \<lparr>max_queue_depth = 10000, moderate_threshold = f64_lit (5/10),
     high_threshold = f64_lit (8/10), critical_threshold = f64_lit (95/100)\<rparr>"

definition strict_backpressure :: BackpressureConfig where
  "strict_backpressure = \<lparr>max_queue_depth = 1000, moderate_threshold = f64_lit (3/10),
     high_threshold = f64_lit (6/10), critical_threshold = f64_lit (85/100)\<rparr>"

definition permissive_backpressure :: BackpressureConfig where
  "permissive_backpressure = \<lparr>max_queue_depth = 50000, moderate_threshold = f64_lit (7/10),
     high_threshold = f64_lit (9/10), critical_threshold = f64_lit (98/100)\<rparr>"

definition threshold_depth :: "usize \<Rightarrow> fp \<Rightarrow> usize" where
  "threshold_depth max_depth threshold = fp_to_usize (fmul binary64 (f64_of_word max_depth) threshold)"

definition moderate_depth :: "BackpressureConfig \<Rightarrow> usize" where
  "moderate_depth c = threshold_depth (max_queue_depth c) (moderate_threshold c)"

definition high_depth :: "BackpressureConfig \<Rightarrow> usize" where
  "high_depth c = threshold_depth (max_queue_depth c) (high_threshold c)"

definition critical_depth :: "BackpressureConfig \<Rightarrow> usize" where
  "critical_depth c = threshold_depth (max_queue_depth c) (critical_threshold c)"

record QueueBackpressureManager =
  bp_config :: BackpressureConfig
  bp_depth :: usize

definition backpressure_new :: "BackpressureConfig \<Rightarrow> QueueBackpressureManager" where
  "backpressure_new c = \<lparr>bp_config = c, bp_depth = 0\<rparr>"

text \<open>The two accesses of \<open>try_enqueue\<close>: whether the depth read allows it, and the increment.\<close>

definition queue_has_room :: "QueueBackpressureManager \<Rightarrow> bool" where
  "queue_has_room m \<longleftrightarrow> \<not> bp_depth m \<ge> max_queue_depth (bp_config m)"

definition bp_enqueue :: "QueueBackpressureManager \<Rightarrow> QueueBackpressureManager" where
  "bp_enqueue m = m\<lparr>bp_depth := bp_depth m + 1\<rparr>"

definition try_enqueue :: "QueueBackpressureManager \<Rightarrow> (CoreError + unit) \<times> QueueBackpressureManager" where
  "try_enqueue m =
     (if queue_has_room m then (Ok (), bp_enqueue m)
      else (Err (Internal ''queue is full; backpressure limit exceeded''), m))"

definition bp_dequeue :: "QueueBackpressureManager \<Rightarrow> QueueBackpressureManager" where
  "bp_dequeue m = m\<lparr>bp_depth := bp_depth m - 1\<rparr>"

definition degradation_mode :: "QueueBackpressureManager \<Rightarrow> DegradationMode" where
  "degradation_mode m =
     (let depth = bp_depth m in
      if depth \<ge> critical_depth (bp_config m) then ModeCritical
      else if depth \<ge> high_depth (bp_config m) then ModeHigh
      else if depth \<ge> moderate_depth (bp_config m) then ModeModerate
      else ModeNormal)"

definition utilization :: "QueueBackpressureManager \<Rightarrow> fp" where
  "utilization m = fmin (fdiv binary64 (f64_of_word (bp_depth m)) (f64_of_word (max_queue_depth (bp_config m)))) (Fin 1)"

record QueueStats =
  qs_current_depth :: usize
  qs_max_depth :: usize
  qs_utilization :: fp
  qs_degradation_mode :: DegradationMode

definition bp_stats :: "QueueBackpressureManager \<Rightarrow> QueueStats" where
  "bp_stats m = \<lparr>qs_current_depth = bp_depth m, qs_max_depth = max_queue_depth (bp_config m),
     qs_utilization = utilization m, qs_degradation_mode = degradation_mode m\<rparr>"

definition bp_reset :: "QueueBackpressureManager \<Rightarrow> QueueBackpressureManager" where
  "bp_reset m = m\<lparr>bp_depth := 0\<rparr>"

subsection \<open>The execution filter\<close>

datatype TaskRejectionReason = DegradationModeRejectsNonCritical

definition rejection_text :: "TaskRejectionReason \<Rightarrow> string" where
  "rejection_text r = (case r of DegradationModeRejectsNonCritical \<Rightarrow>
     ''non-critical task rejected: system in critical degradation mode'')"

definition can_execute_task :: "QueueBackpressureManager \<Rightarrow> TaskDescriptor \<Rightarrow> TaskRejectionReason + unit" where
  "can_execute_task m task =
     (if degradation_mode m = ModeCritical \<and> \<not> td_is_critical task
      then Err DegradationModeRejectsNonCritical else Ok ())"

definition timeout_multiplier_for_task :: "QueueBackpressureManager \<Rightarrow> TaskDescriptor \<Rightarrow> fp" where
  "timeout_multiplier_for_task m task =
     (if td_is_critical task then timeout_multiplier (degradation_mode m) else Fin 1)"

subsection \<open>Modes and thresholds\<close>

lemma threshold_depth_mono: "0 \<le> a \<Longrightarrow> a \<le> b \<Longrightarrow> threshold_depth n (Fin a) \<le> threshold_depth n (Fin b)"
proof -
  assume ab: "0 \<le> a" "a \<le> b"
  show ?thesis
  proof (cases "f64_of_word n")
    case (Fin q)
    have "fle (Fin 0) (Fin q)" using f64_of_word_mono [of 0 n] Fin by (simp add: f64_of_word_def)
    then show ?thesis unfolding threshold_depth_def Fin using ab
      by (intro fp_to_usize_mono fmul_nonneg_mono) simp_all
  qed (use ab in \<open>auto simp: threshold_depth_def fp_to_usize_def signed_inf_def word_le_def f64_of_word_def\<close>)
qed

text \<open>
  With thresholds in order, the mode only gets more severe as the depth grows, the four
  modes cover consecutive ranges of depths, and the timeout multiplier of a critical task never
  shrinks with the depth.
\<close>

lemma degradation_ranges:
  assumes "moderate_threshold c = Fin a" "high_threshold c = Fin b" "critical_threshold c = Fin d"
    and "0 \<le> a" "a \<le> b" "b \<le> d"
  shows "degradation_mode \<lparr>bp_config = c, bp_depth = n\<rparr> =
      (if n < moderate_depth c then ModeNormal else if n < high_depth c then ModeModerate
       else if n < critical_depth c then ModeHigh else ModeCritical)
    \<and> (n \<le> n' \<longrightarrow> degradation_mode \<lparr>bp_config = c, bp_depth = n\<rparr> \<le> degradation_mode \<lparr>bp_config = c, bp_depth = n'\<rparr>
        \<and> fle (timeout_multiplier_for_task \<lparr>bp_config = c, bp_depth = n\<rparr> task)
              (timeout_multiplier_for_task \<lparr>bp_config = c, bp_depth = n'\<rparr> task))"
proof -
  have mh: "moderate_depth c \<le> high_depth c" and hc: "high_depth c \<le> critical_depth c"
    using assms by (auto simp: moderate_depth_def high_depth_def critical_depth_def intro!: threshold_depth_mono)
  have ranges: "degradation_mode \<lparr>bp_config = c, bp_depth = n\<rparr> =
      (if n < moderate_depth c then ModeNormal else if n < high_depth c then ModeModerate
       else if n < critical_depth c then ModeHigh else ModeCritical)" for n
  proof -
    have "critical_depth c \<le> n \<Longrightarrow> high_depth c \<le> n" "high_depth c \<le> n \<Longrightarrow> moderate_depth c \<le> n"
      by (blast intro: order.trans [OF hc] order.trans [OF mh])+
    then show ?thesis by (auto simp: degradation_mode_def Let_def not_less)
  qed
  have "degradation_mode \<lparr>bp_config = c, bp_depth = n\<rparr> \<le> degradation_mode \<lparr>bp_config = c, bp_depth = n'\<rparr>
      \<and> fle (timeout_multiplier (degradation_mode \<lparr>bp_config = c, bp_depth = n\<rparr>))
            (timeout_multiplier (degradation_mode \<lparr>bp_config = c, bp_depth = n'\<rparr>))" if "n \<le> n'"
    using that unfolding ranges by (auto simp: less_eq_DegradationMode_def)
  then show ?thesis using ranges by (simp add: timeout_multiplier_for_task_def fle_refl)
qed

text \<open>
  With a critical threshold of at most one and a maximum below \<open>2 ^ 53\<close>, a queue that
  refuses a task is in critical mode, so the execution filter rejects every non-critical task
  as well.
\<close>

lemma full_queue_is_critical:
  assumes c: "critical_threshold (bp_config m) = Fin d" "0 \<le> d" "d \<le> 1"
    and small: "unat (max_queue_depth (bp_config m)) < 2 ^ 53"
    and full: "fst (try_enqueue m) \<noteq> Ok ()"
  shows "degradation_mode m = ModeCritical
    \<and> (can_execute_task m task = Ok () \<longleftrightarrow> td_is_critical task)"
proof -
  let ?n = "max_queue_depth (bp_config m)" and ?q = "rat_of_nat (unat (max_queue_depth (bp_config m)))"
  have exact: "f64_of_word ?n = Fin ?q" by (rule f64_of_word_exact [OF small])
  have "fle (fp_round binary64 (?q * d)) (fp_round binary64 ?q)"
    using c by (intro fp_round_mono mult_left_le) (simp_all only: of_nat_0_le_iff prec_pos)
  moreover have "fp_round binary64 ?q = Fin ?q" using exact by (simp add: f64_of_word_def)
  ultimately have "fle (fmul binary64 (f64_of_word ?n) (Fin d)) (Fin ?q)" by (simp add: exact)
  then have "fp_to_usize (fmul binary64 (f64_of_word ?n) (Fin d)) \<le> fp_to_usize (Fin ?q)"
    by (rule fp_to_usize_mono)
  moreover have "fp_to_usize (Fin ?q) = ?n"
  proof -
    have "fp_trunc (Fin ?q) = int (unat ?n)"
    proof -
      have "\<lfloor>?q\<rfloor> = int (unat ?n)" by (simp only: floor_of_nat)
      moreover have "int (unat ?n) \<le> 2 ^ 64 - 1"
      proof -
        have "int (unat ?n) < 2 ^ 53" using small by (metis of_nat_less_iff of_nat_numeral of_nat_power)
        moreover have "(2::int) ^ 53 \<le> 2 ^ 64 - 1" by simp
        ultimately show ?thesis by linarith
      qed
      ultimately show ?thesis by simp
    qed
    then show ?thesis by (simp add: fp_to_usize_def)
  qed
  ultimately have "critical_depth (bp_config m) \<le> ?n" by (simp add: critical_depth_def threshold_depth_def c)
  moreover have "?n \<le> bp_depth m" using full by (simp add: try_enqueue_def queue_has_room_def split: if_splits)
  ultimately have "degradation_mode m = ModeCritical" by (simp add: degradation_mode_def Let_def)
  then show ?thesis by (simp add: can_execute_task_def)
qed

subsection \<open>Concurrent callers\<close>

text \<open>
  Any number of threads run \<open>try_enqueue\<close> and \<open>dequeue\<close>; \<open>pending\<close> counts those between the
  read that found room and the increment, out of \<open>threads\<close>.
\<close>

inductive bp_step :: "nat \<Rightarrow> QueueBackpressureManager \<times> nat \<Rightarrow> QueueBackpressureManager \<times> nat \<Rightarrow> bool" for threads where
  read: "queue_has_room m \<Longrightarrow> pending < threads \<Longrightarrow> bp_step threads (m, pending) (m, Suc pending)"
| increment: "bp_step threads (m, Suc pending) (bp_enqueue m, pending)"
| remove: "bp_depth m \<noteq> 0 \<Longrightarrow> bp_step threads (m, pending) (bp_dequeue m, pending)"

inductive_cases bp_stepE: "bp_step threads (m, p) (m', p')"

inductive bp_reachable :: "nat \<Rightarrow> BackpressureConfig \<Rightarrow> QueueBackpressureManager \<times> nat \<Rightarrow> bool" for threads c where
  start: "bp_reachable threads c (backpressure_new c, 0)"
| step: "bp_reachable threads c s \<Longrightarrow> bp_step threads s s' \<Longrightarrow> bp_reachable threads c s'"

lemma bp_reachable_bound:
  assumes "bp_reachable threads c s" and "unat (max_queue_depth c) + threads < 2 ^ 64"
  shows "bp_config (fst s) = c \<and> snd s \<le> threads
    \<and> unat (bp_depth (fst s)) + snd s \<le> unat (max_queue_depth c) + threads - (if threads = 0 then 0 else 1)"
  using assms(1)
proof (induction rule: bp_reachable.induct)
  case (step s s')
  obtain m p m' p' where s: "s = (m, p)" "s' = (m', p')" by fastforce
  have IH: "bp_config m = c" "p \<le> threads"
    "unat (bp_depth m) + p \<le> unat (max_queue_depth c) + threads - (if threads = 0 then 0 else 1)"
    using step.IH by (simp_all add: s)
  have "bp_step threads (m, p) (m', p')" using step.hyps(2) by (simp only: s)
  then show ?case
  proof (rule bp_stepE)
    assume 1: "m' = m" "p' = Suc p" "queue_has_room m" "p < threads"
    then have "unat (bp_depth m) < unat (max_queue_depth c)"
      using IH(1) by (simp add: queue_has_room_def not_le word_less_nat_alt)
    then show ?thesis using 1 IH by (simp add: s)
  next
    assume 2: "m' = bp_enqueue m" "p = Suc p'"
    have "unat (bp_depth m) + 1 < 2 ^ 64" using assms(2) IH 2 by (auto split: if_splits)
    then have "unat (bp_depth m + 1) = unat (bp_depth m) + 1" using unat_add_no_wrap [of "bp_depth m" 1] by simp
    then show ?thesis using 2 IH by (simp add: s bp_enqueue_def)
  next
    assume 3: "m' = bp_dequeue m" "p' = p" "bp_depth m \<noteq> 0"
    have "unat (bp_depth m - 1) = unat (bp_depth m) - 1" using 3(3) by (simp add: unat_minus_one)
    then show ?thesis using 3 IH by (auto simp: s bp_dequeue_def)
  qed
qed (simp add: backpressure_new_def)

text \<open>
  C24: with \<open>n\<close> concurrent callers of \<open>try_enqueue\<close> the depth can overshoot the maximum, but
  by at most \<open>n - 1\<close>; a single caller never exceeds it.
\<close>

theorem depth_bounded:
  assumes "bp_reachable (Suc n) c (m, pending)" and "unat (max_queue_depth c) + Suc n < 2 ^ 64"
  shows "unat (bp_depth m) \<le> unat (max_queue_depth c) + n"
  using bp_reachable_bound [OF assms] by simp

theorem depth_bounded_witness:
  "unat (bp_depth (bp_enqueue (backpressure_new default_backpressure))) \<le> 10000 + 0"
proof -
  have "bp_reachable (Suc 0) default_backpressure (backpressure_new default_backpressure, Suc 0)"
    by (rule bp_reachable.step [OF bp_reachable.start bp_step.read])
      (simp_all add: queue_has_room_def backpressure_new_def default_backpressure_def)
  then have "bp_reachable (Suc 0) default_backpressure (bp_enqueue (backpressure_new default_backpressure), 0)"
    by (rule bp_reachable.step) (rule bp_step.increment)
  from depth_bounded [OF this] show ?thesis by (simp add: default_backpressure_def)
qed

definition example_backpressure :: BackpressureConfig where
  "example_backpressure = \<lparr>max_queue_depth = 8, moderate_threshold = Fin (1/4), high_threshold = Fin (1/2),
     critical_threshold = Fin (3/4)\<rparr>"

end
