(* ===== verification/PriorityQueue.thy ===== *)
theory PriorityQueue
  imports Backpressure
begin

text \<open>
  The four-level task queue of \<open>crates/core/src/priority_queue.rs\<close>, and its refinement of one
  list of tasks in arrival order. Each level has its own mutex; an operation that locks a
  poisoned one fails.
\<close>

record PriorityQueueManager =
  critical_queue :: "TaskDescriptor list"
  high_queue :: "TaskDescriptor list"
  normal_queue :: "TaskDescriptor list"
  low_queue :: "TaskDescriptor list"
  total_depth :: usize
  poisoned_queues :: "Priority set"

record PriorityQueueStats =
  critical_count :: nat
  high_count :: nat
  normal_count :: nat
  low_count :: nat
  total_count :: nat
  highest_priority :: "Priority option"

definition pq_new :: PriorityQueueManager where
  "pq_new = \<lparr>critical_queue = [], high_queue = [], normal_queue = [], low_queue = [],
     total_depth = 0, poisoned_queues = {}\<rparr>"

fun queue_at :: "Priority \<Rightarrow> PriorityQueueManager \<Rightarrow> TaskDescriptor list" where
  "queue_at Critical s = critical_queue s"
| "queue_at High s = high_queue s"
| "queue_at Normal s = normal_queue s"
| "queue_at Low s = low_queue s"

fun set_queue :: "Priority \<Rightarrow> TaskDescriptor list \<Rightarrow> PriorityQueueManager \<Rightarrow> PriorityQueueManager" where
  "set_queue Critical q s = s\<lparr>critical_queue := q\<rparr>"
| "set_queue High q s = s\<lparr>high_queue := q\<rparr>"
| "set_queue Normal q s = s\<lparr>normal_queue := q\<rparr>"
| "set_queue Low q s = s\<lparr>low_queue := q\<rparr>"

definition pq_lock_error :: CoreError where
  "pq_lock_error = Internal ''queue lock poisoned''"

definition enqueue_task :: "TaskDescriptor \<Rightarrow> PriorityQueueManager \<Rightarrow> (CoreError + unit) \<times> PriorityQueueManager" where
  "enqueue_task task s =
     (let p = td_priority task in
      if p \<in> poisoned_queues s then (Err pq_lock_error, s)
      else let s' = set_queue p (queue_at p s @ [task]) s in
        (Ok (), s'\<lparr>total_depth := total_depth s' + 1\<rparr>))"

primrec queues_to_check :: "DegradationMode \<Rightarrow> Priority list" where
  "queues_to_check ModeNormal = [Critical, High, Normal, Low]"
| "queues_to_check ModeModerate = [Critical, High, Normal, Low]"
| "queues_to_check ModeHigh = [Critical, High, Normal]"
| "queues_to_check ModeCritical = [Critical]"

fun dequeue_from :: "Priority list \<Rightarrow> PriorityQueueManager
    \<Rightarrow> (CoreError + TaskDescriptor option) \<times> PriorityQueueManager" where
  "dequeue_from [] s = (Ok None, s)"
| "dequeue_from (p # ps) s =
     (if p \<in> poisoned_queues s then (Err pq_lock_error, s)
      else case queue_at p s of
        [] \<Rightarrow> dequeue_from ps s
      | task # q \<Rightarrow> let s' = set_queue p q s in (Ok (Some task), s'\<lparr>total_depth := total_depth s' - 1\<rparr>))"

definition dequeue_task :: "DegradationMode \<Rightarrow> PriorityQueueManager
    \<Rightarrow> (CoreError + TaskDescriptor option) \<times> PriorityQueueManager" where
  "dequeue_task mode s = dequeue_from (queues_to_check mode) s"

definition pending_at_priority :: "Priority \<Rightarrow> PriorityQueueManager \<Rightarrow> CoreError + nat" where
  "pending_at_priority p s = (if p \<in> poisoned_queues s then Err pq_lock_error else Ok (length (queue_at p s)))"

definition pq_stats :: "PriorityQueueManager \<Rightarrow> CoreError + PriorityQueueStats" where
  "pq_stats s =
     (case pending_at_priority Critical s of Inl e \<Rightarrow> Err e | Inr critical \<Rightarrow>
      case pending_at_priority High s of Inl e \<Rightarrow> Err e | Inr high \<Rightarrow>
      case pending_at_priority Normal s of Inl e \<Rightarrow> Err e | Inr normal \<Rightarrow>
      case pending_at_priority Low s of Inl e \<Rightarrow> Err e | Inr low \<Rightarrow>
        Ok \<lparr>critical_count = critical, high_count = high, normal_count = normal, low_count = low,
            total_count = critical + high + normal + low,
            highest_priority = (if critical > 0 then Some Critical else if high > 0 then Some High
              else if normal > 0 then Some Normal else if low > 0 then Some Low else None)\<rparr>)"

definition pq_clear :: "PriorityQueueManager \<Rightarrow> (CoreError + unit) \<times> PriorityQueueManager" where
  "pq_clear s =
     (if poisoned_queues s \<noteq> {} then (Err pq_lock_error, s)
      else (Ok (), s\<lparr>critical_queue := [], high_queue := [], normal_queue := [], low_queue := [],
        total_depth := 0\<rparr>))"

subsection \<open>Lookups and updates\<close>

lemma queue_at_set [simp]: "queue_at p (set_queue p' q s) = (if p = p' then q else queue_at p s)"
  by (cases p; cases p') simp_all

lemma set_queue_frame [simp]:
  "total_depth (set_queue p q s) = total_depth s" "poisoned_queues (set_queue p q s) = poisoned_queues s"
  by (cases p; simp)+

lemma queue_at_depth [simp]: "queue_at p (s\<lparr>total_depth := n\<rparr>) = queue_at p s"
  by (cases p) simp_all

subsection \<open>The specification\<close>

text \<open>
  The abstract queue is the list of the waiting tasks in arrival order. A mode admits the
  priorities of \<open>queues_to_check\<close>; \<open>dequeue\<close> takes, of the admitted tasks with the highest
  priority, the one that arrived first.
\<close>

definition admits :: "DegradationMode \<Rightarrow> Priority \<Rightarrow> bool" where
  "admits mode p \<longleftrightarrow> (case mode of ModeCritical \<Rightarrow> p = Critical | ModeHigh \<Rightarrow> p \<noteq> Low | _ \<Rightarrow> True)"

definition next_task :: "DegradationMode \<Rightarrow> TaskDescriptor list \<Rightarrow> TaskDescriptor option" where
  "next_task mode xs =
     find (\<lambda>t. admits mode (td_priority t)
       \<and> (\<forall>u \<in> set xs. admits mode (td_priority u) \<longrightarrow> td_priority u \<le> td_priority t)) xs"

definition spec_dequeue :: "DegradationMode \<Rightarrow> TaskDescriptor list \<Rightarrow> TaskDescriptor option \<times> TaskDescriptor list" where
  "spec_dequeue mode xs =
     (case next_task mode xs of None \<Rightarrow> (None, xs) | Some t \<Rightarrow> (Some t, remove1 t xs))"

definition represents :: "PriorityQueueManager \<Rightarrow> TaskDescriptor list \<Rightarrow> bool" where
  "represents s xs \<longleftrightarrow> poisoned_queues s = {} \<and> total_depth s = of_nat (length xs)
     \<and> (\<forall>p. queue_at p s = filter (\<lambda>t. td_priority t = p) xs)"

lemma representsD:
  "represents s xs \<Longrightarrow> queue_at p s = filter (\<lambda>t. td_priority t = p) xs"
  "represents s xs \<Longrightarrow> poisoned_queues s = {}" "represents s xs \<Longrightarrow> total_depth s = of_nat (length xs)"
  by (simp_all add: represents_def)

lemma find_filter: "find P xs = (case filter P xs of [] \<Rightarrow> None | x # _ \<Rightarrow> Some x)"
  by (induction xs) simp_all

lemma filter_remove1_hd:
  "filter P xs = t # q \<Longrightarrow> filter P (remove1 t xs) = q \<and> (\<forall>P'. \<not> P' t \<longrightarrow> filter P' (remove1 t xs) = filter P' xs)
    \<and> length xs = Suc (length (remove1 t xs))"
proof -
  assume f: "filter P xs = t # q"
  then have "t \<in> set (filter P xs)" by simp
  then have t: "t \<in> set xs" "P t" by simp_all
  have "filter P (remove1 t xs) = remove1 t (filter P xs)" by (rule filter_remove1)
  moreover have "filter P' (remove1 t xs) = filter P' xs" if "\<not> P' t" for P'
    using that by (simp add: filter_remove1 remove1_idem)
  moreover have "length xs = Suc (length (remove1 t xs))"
    using t length_pos_if_in_set [OF t(1)] by (simp add: length_remove1)
  ultimately show ?thesis using f by simp
qed

text \<open>\<open>dequeue_from\<close> finds the first non-empty level.\<close>

lemma dequeue_from_spec:
  assumes r: "represents s xs" and sorted: "sorted_wrt (>) ps"
  shows "(\<exists>s'. dequeue_from ps s = (Ok (find (\<lambda>t. td_priority t \<in> set ps
            \<and> (\<forall>u \<in> set xs. td_priority u \<in> set ps \<longrightarrow> td_priority u \<le> td_priority t)) xs), s')
      \<and> represents s' (case find (\<lambda>t. td_priority t \<in> set ps
            \<and> (\<forall>u \<in> set xs. td_priority u \<in> set ps \<longrightarrow> td_priority u \<le> td_priority t)) xs of
          None \<Rightarrow> xs | Some t \<Rightarrow> remove1 t xs))"
  using sorted
proof (induction ps)
  case Nil
  have "find (\<lambda>t. False) xs = None" by (induction xs) simp_all
  then show ?case using r by simp
next
  case (Cons p ps)
  show ?case
  proof (cases "queue_at p s")
    case Nil
    then have none: "td_priority u \<noteq> p" if "u \<in> set xs" for u
      using that representsD(1) [OF r, of p] by (auto simp: filter_empty_conv)
    have "find (\<lambda>t. td_priority t \<in> set (p # ps)
          \<and> (\<forall>u \<in> set xs. td_priority u \<in> set (p # ps) \<longrightarrow> td_priority u \<le> td_priority t)) xs
        = find (\<lambda>t. td_priority t \<in> set ps
          \<and> (\<forall>u \<in> set xs. td_priority u \<in> set ps \<longrightarrow> td_priority u \<le> td_priority t)) xs"
      using none by (intro find_cong refl) auto
    then show ?thesis using Cons Nil representsD(2) [OF r] by simp
  next
    case q: (Cons t q)
    then have ft: "filter (\<lambda>t. td_priority t = p) xs = t # q" using representsD(1) [OF r, of p] by simp
    then have "t \<in> set (filter (\<lambda>t. td_priority t = p) xs)" by simp
    then have t: "td_priority t = p" "t \<in> set xs" by simp_all
    have le: "x \<le> p" if "x \<in> set (p # ps)" for x using that Cons.prems by auto
    have "find (\<lambda>t. td_priority t \<in> set (p # ps)
          \<and> (\<forall>u \<in> set xs. td_priority u \<in> set (p # ps) \<longrightarrow> td_priority u \<le> td_priority t)) xs
        = find (\<lambda>t. td_priority t = p) xs"
    proof (intro find_cong refl)
      fix u assume "u \<in> set xs"
      then show "(td_priority u \<in> set (p # ps)
          \<and> (\<forall>v \<in> set xs. td_priority v \<in> set (p # ps) \<longrightarrow> td_priority v \<le> td_priority u)) = (td_priority u = p)"
      proof (cases "td_priority u = p")
        case True
        then show ?thesis using le by simp
      next
        case False
        have "\<not> (td_priority u \<in> set (p # ps) \<and> p \<le> td_priority u)"
          using le [of "td_priority u"] False by (blast intro: order_antisym)
        then show ?thesis using False t by auto
      qed
    qed
    also have "\<dots> = Some t" by (simp add: find_filter ft)
    finally have f: "find (\<lambda>t. td_priority t \<in> set (p # ps)
          \<and> (\<forall>u \<in> set xs. td_priority u \<in> set (p # ps) \<longrightarrow> td_priority u \<le> td_priority t)) xs = Some t" .
    have rem: "filter (\<lambda>u. td_priority u = p) (remove1 t xs) = q"
      "p' \<noteq> p \<Longrightarrow> filter (\<lambda>u. td_priority u = p') (remove1 t xs) = filter (\<lambda>u. td_priority u = p') xs"
      "length xs = Suc (length (remove1 t xs))" for p'
      using filter_remove1_hd [OF ft] t(1) by auto
    have "represents ((set_queue p q s)\<lparr>total_depth := total_depth s - 1\<rparr>) (remove1 t xs)"
      using r rem by (auto simp: represents_def)
    then show ?thesis using q representsD(2) [OF r] unfolding f by (auto simp: Let_def)
  qed
qed

lemma highest_of:
  "(if Critical \<in> S then Some Critical else if High \<in> S then Some High
    else if Normal \<in> S then Some Normal else if Low \<in> S then Some Low else None) = Some p
   \<longleftrightarrow> p \<in> S \<and> (\<forall>q \<in> S. q \<le> p)"
proof -
  have all: "(\<forall>q \<in> S. q \<le> p) \<longleftrightarrow> (Critical \<in> S \<longrightarrow> Critical \<le> p) \<and> (High \<in> S \<longrightarrow> High \<le> p)
      \<and> (Normal \<in> S \<longrightarrow> Normal \<le> p) \<and> (Low \<in> S \<longrightarrow> Low \<le> p)"
    (is "?L \<longleftrightarrow> ?R")
  proof
    assume R: ?R
    show ?L
    proof
      fix q assume "q \<in> S"
      then show "q \<le> p" using R by (cases q) simp_all
    qed
  qed blast
  show ?thesis unfolding all by (cases p) (auto split: if_splits)
qed

lemma admits_queues: "p \<in> set (queues_to_check mode) \<longleftrightarrow> admits mode p"
  by (cases mode; cases p) (simp_all add: admits_def)

lemma queues_to_check_sorted: "sorted_wrt (>) (queues_to_check mode)"
  by (cases mode) simp_all

lemma dequeue_task_spec:
  assumes "represents s xs"
  shows "\<exists>s'. dequeue_task mode s = (Ok (fst (spec_dequeue mode xs)), s') \<and> represents s' (snd (spec_dequeue mode xs))"
  using dequeue_from_spec [OF assms queues_to_check_sorted, of mode]
  unfolding admits_queues dequeue_task_def spec_dequeue_def next_task_def by (auto split: option.splits)

lemma represents_new: "represents pq_new []"
proof -
  have "queue_at p pq_new = []" for p by (cases p) (simp_all add: pq_new_def)
  then show ?thesis by (simp add: represents_def) (simp add: pq_new_def)
qed

lemma represents_enqueue:
  assumes "represents s xs"
  shows "\<exists>s'. enqueue_task task s = (Ok (), s') \<and> represents s' (xs @ [task])"
  using assms by (auto simp: enqueue_task_def represents_def Let_def)

lemma length_by_priority:
  "length xs = length (filter (\<lambda>t. td_priority t = Critical) xs) + length (filter (\<lambda>t. td_priority t = High) xs)
      + length (filter (\<lambda>t. td_priority t = Normal) xs) + length (filter (\<lambda>t. td_priority t = Low) xs)"
proof (induction xs)
  case (Cons x xs)
  then show ?case by (cases "td_priority x") simp_all
qed simp

text \<open>
  C23: the four queues and the depth counter implement one list of tasks in arrival order:
  \<open>enqueue_task\<close> appends, \<open>dequeue_task\<close> removes the first of the tasks with the highest
  priority that the mode admits, and the counter is the number of waiting tasks.
\<close>

theorem priority_queue_refines_list:
  assumes "represents s xs"
  shows "(\<exists>s'. enqueue_task task s = (Ok (), s') \<and> represents s' (xs @ [task]))
    \<and> (\<exists>s'. dequeue_task mode s = (Ok (fst (spec_dequeue mode xs)), s') \<and> represents s' (snd (spec_dequeue mode xs)))
    \<and> (\<exists>st. pq_stats s = Ok st \<and> total_count st = length xs
         \<and> (\<forall>p. highest_priority st = Some p \<longleftrightarrow> p \<in> td_priority ` set xs \<and> (\<forall>u \<in> set xs. td_priority u \<le> p)))"
proof (intro conjI)
  show "\<exists>s'. enqueue_task task s = (Ok (), s') \<and> represents s' (xs @ [task])"
    by (rule represents_enqueue [OF assms])
  show "\<exists>s'. dequeue_task mode s = (Ok (fst (spec_dequeue mode xs)), s') \<and> represents s' (snd (spec_dequeue mode xs))"
    by (rule dequeue_task_spec [OF assms])
  have pending: "pending_at_priority p s = Ok (length (queue_at p s))" for p
    using representsD(2) [OF assms] by (simp add: pending_at_priority_def)
  have pos: "0 < length (queue_at p s) \<longleftrightarrow> p \<in> td_priority ` set xs" for p
    using representsD(1) [OF assms, of p] by (auto simp: filter_empty_conv)
  have tot: "length (queue_at Critical s) + length (queue_at High s) + length (queue_at Normal s)
      + length (queue_at Low s) = length xs"
    unfolding representsD(1) [OF assms] by (rule length_by_priority [symmetric])
  let ?h = "if Critical \<in> td_priority ` set xs then Some Critical else if High \<in> td_priority ` set xs then Some High
    else if Normal \<in> td_priority ` set xs then Some Normal else if Low \<in> td_priority ` set xs then Some Low else None"
  have h: "?h = Some p \<longleftrightarrow> p \<in> td_priority ` set xs \<and> (\<forall>u \<in> set xs. td_priority u \<le> p)" for p
    using highest_of [of "td_priority ` set xs" p] by simp
  have st: "pq_stats s = Ok \<lparr>critical_count = length (queue_at Critical s), high_count = length (queue_at High s),
      normal_count = length (queue_at Normal s), low_count = length (queue_at Low s),
      total_count = length xs, highest_priority = ?h\<rparr>"
    by (simp only: pq_stats_def pending sum.case pos tot)
  show "\<exists>st. pq_stats s = Ok st \<and> total_count st = length xs
         \<and> (\<forall>p. highest_priority st = Some p \<longleftrightarrow> p \<in> td_priority ` set xs \<and> (\<forall>u \<in> set xs. td_priority u \<le> p))"
    unfolding st h [symmetric] by simp
qed

theorem priority_queue_refines_list_witness:
  "\<exists>s'. dequeue_task ModeHigh (snd (enqueue_task (example_task 2 [] Normal)
      (snd (enqueue_task (example_task 1 [] Low) pq_new)))) = (Ok (Some (example_task 2 [] Normal)), s')"
proof -
  obtain s1 where s1: "enqueue_task (example_task 1 [] Low) pq_new = (Ok (), s1)" "represents s1 [example_task 1 [] Low]"
    using priority_queue_refines_list [OF represents_new, of "example_task 1 [] Low"] by auto
  obtain s2 where s2: "enqueue_task (example_task 2 [] Normal) s1 = (Ok (), s2)"
    "represents s2 [example_task 1 [] Low, example_task 2 [] Normal]"
    using priority_queue_refines_list [OF s1(2), of "example_task 2 [] Normal"] by auto
  have "fst (spec_dequeue ModeHigh [example_task 1 [] Low, example_task 2 [] Normal]) = Some (example_task 2 [] Normal)"
    by (simp add: spec_dequeue_def next_task_def admits_def example_task_def)
  then show ?thesis using priority_queue_refines_list [OF s2(2), of undefined ModeHigh] s1(1) s2(1) by auto
qed

text \<open>
  In critical mode \<open>dequeue_task\<close> hands out only tasks of priority \<open>Critical\<close>, but the execution
  filter decides by the flag \<open>is_critical\<close>: it rejects exactly those whose flag is not set.
\<close>

lemma critical_mode_filter:
  assumes "represents s xs" and "dequeue_task ModeCritical s = (Ok (Some task), s')"
    and "degradation_mode m = ModeCritical"
  shows "td_priority task = Critical
    \<and> (can_execute_task m task = Ok () \<longleftrightarrow> td_is_critical task)"
proof -
  have "next_task ModeCritical xs = Some task"
    using dequeue_task_spec [OF assms(1), of ModeCritical] assms(2)
    by (auto simp: spec_dequeue_def split: option.splits)
  then have "td_priority task = Critical" by (auto simp: next_task_def find_Some_iff admits_def)
  then show ?thesis using assms(3) by (simp add: can_execute_task_def)
qed

text \<open>
  A manager in critical mode: \<open>dequeue\<close> on an empty queue wraps the depth around to the largest
  value. Then a task of priority \<open>Critical\<close> whose flag is not set.
\<close>

definition bp_in_critical :: QueueBackpressureManager where
  "bp_in_critical = bp_dequeue (backpressure_new default_backpressure)"

lemma bp_in_critical_mode: "degradation_mode bp_in_critical = ModeCritical"
  by (simp add: bp_in_critical_def bp_dequeue_def backpressure_new_def degradation_mode_def Let_def)

end
