(* ===== verification/CircuitBreaker.thy ===== *)
theory CircuitBreaker
  imports CoreTypes
begin

text \<open>
  The circuit breaker of \<open>crates/core/src/circuit_breaker.rs\<close>. \<open>call\<close> awaits the caller's
  future between its admission check and the recording of the outcome, so it is the two steps
  \<open>call_begin\<close> and \<open>call_finish\<close>; other calls may run in between. A clock reading is the
  milliseconds since the epoch, \<open>None\<close> when the system clock is before it. An operation that
  panics has the result \<open>None\<close> and keeps the state it had reached.
\<close>

datatype CircuitState = Closed | Open | HalfOpen

record CircuitBreakerConfig =
  failure_threshold :: u32
  cb_timeout :: duration
  half_open_max_calls :: u32
  half_open_success_threshold :: u32

definition default_circuit_config :: CircuitBreakerConfig where
  "default_circuit_config = \<lparr>failure_threshold = 5, cb_timeout = from_secs 60, half_open_max_calls = 3,
     half_open_success_threshold = 67\<rparr>"

record CircuitBreaker =
  cb_config :: CircuitBreakerConfig
  cb_state :: CircuitState
  consecutive_failures :: u32
  consecutive_successes :: u32
  last_failure_time :: u64
  half_open_calls :: u32
  half_open_successes :: u32

definition breaker_with_config :: "CircuitBreakerConfig \<Rightarrow> CircuitBreaker" where
  "breaker_with_config c = \<lparr>cb_config = c, cb_state = Closed, consecutive_failures = 0,
     consecutive_successes = 0, last_failure_time = 0, half_open_calls = 0, half_open_successes = 0\<rparr>"

definition breaker_new :: CircuitBreaker where
  "breaker_new = breaker_with_config default_circuit_config"

definition record_last_failure :: "u64 option \<Rightarrow> CircuitBreaker \<Rightarrow> CircuitBreaker" where
  "record_last_failure now s = (case now of Some millis \<Rightarrow> s\<lparr>last_failure_time := millis\<rparr> | None \<Rightarrow> s)"

definition time_since_last_failure :: "u64 option \<Rightarrow> CircuitBreaker \<Rightarrow> CoreError + duration" where
  "time_since_last_failure now s =
     (if last_failure_time s = 0 then Ok (from_secs 0)
      else case now of
        None \<Rightarrow> Err (Internal ''system time error'')
      | Some now_millis \<Rightarrow> Ok (from_millis (saturating_sub now_millis (last_failure_time s))))"

text \<open>\<open>state()\<close>, which also moves an open circuit to half-open once the timeout has passed.\<close>

definition breaker_state :: "u64 option \<Rightarrow> CircuitBreaker \<Rightarrow> CircuitState \<times> CircuitBreaker" where
  "breaker_state now s =
     (if cb_state s = Open then
        case time_since_last_failure now s of
          Inl _ \<Rightarrow> (Open, s)
        | Inr elapsed \<Rightarrow>
            if elapsed \<ge> cb_timeout (cb_config s)
            then (HalfOpen, s\<lparr>cb_state := HalfOpen, half_open_calls := 0, half_open_successes := 0\<rparr>)
            else (Open, s)
      else (cb_state s, s))"

definition is_open :: "u64 option \<Rightarrow> CircuitBreaker \<Rightarrow> bool \<times> CircuitBreaker" where
  "is_open now s = (case breaker_state now s of (st, s') \<Rightarrow> (st = Open, s'))"

definition record_success :: "u64 option \<Rightarrow> CircuitBreaker \<Rightarrow> unit option \<times> CircuitBreaker" where
  "record_success now s =
     (case cb_state s of
        Closed \<Rightarrow> (Some (), s\<lparr>consecutive_failures := 0\<rparr>)
      | HalfOpen \<Rightarrow>
          (let s1 = s\<lparr>half_open_successes := half_open_successes s + 1\<rparr>;
               successes = half_open_successes s1;
               calls = half_open_calls s1 in
           if calls \<ge> half_open_max_calls (cb_config s1) then
             (if calls = 0 then (None, s1)
              else let success_pct = (successes * 100) div calls in
                if success_pct \<ge> half_open_success_threshold (cb_config s1)
                then (Some (), s1\<lparr>cb_state := Closed, consecutive_failures := 0\<rparr>)
                else (Some (), record_last_failure now (s1\<lparr>cb_state := Open\<rparr>)))
           else (Some (), s1))
      | Open \<Rightarrow> (Some (), s))"

definition record_failure :: "u64 option \<Rightarrow> CircuitBreaker \<Rightarrow> CircuitBreaker" where
  "record_failure now s =
     (let s1 = record_last_failure now s in
      case cb_state s1 of
        Closed \<Rightarrow>
          (let failures = consecutive_failures s1 + 1; s2 = s1\<lparr>consecutive_failures := failures\<rparr> in
           if failures \<ge> failure_threshold (cb_config s2) then s2\<lparr>cb_state := Open\<rparr> else s2)
      | HalfOpen \<Rightarrow> s1\<lparr>cb_state := Open, half_open_calls := 0, half_open_successes := 0\<rparr>
      | Open \<Rightarrow> s1)"

definition call_begin :: "u64 option \<Rightarrow> CircuitBreaker \<Rightarrow> (CoreError + unit) \<times> CircuitBreaker" where
  "call_begin now s =
     (case breaker_state now s of
        (Closed, s1) \<Rightarrow> (Ok (), s1)
      | (Open, s1) \<Rightarrow> (Err (Internal ''circuit breaker is open; service is unavailable''), s1)
      | (HalfOpen, s1) \<Rightarrow>
          (let calls = half_open_calls s1 + 1; s2 = s1\<lparr>half_open_calls := calls\<rparr> in
           if calls > half_open_max_calls (cb_config s2)
           then (Err (Internal ''circuit breaker half-open capacity exceeded''),
                 s2\<lparr>half_open_calls := half_open_calls s2 - 1\<rparr>)
           else (Ok (), s2)))"

definition call_finish :: "u64 option \<Rightarrow> CoreError + 'a \<Rightarrow> CircuitBreaker \<Rightarrow> (CoreError + 'a) option \<times> CircuitBreaker" where
  "call_finish now result s =
     (case result of
        Inr x \<Rightarrow> (case record_success now s of (Some _, s') \<Rightarrow> (Some (Ok x), s') | (None, s') \<Rightarrow> (None, s'))
      | Inl err \<Rightarrow> (Some (Err err), record_failure now s))"

text \<open>\<open>call\<close> with nothing in between; \<open>result\<close> is the outcome of the future, if it is run at all.\<close>

definition breaker_call :: "u64 option \<Rightarrow> u64 option \<Rightarrow> CoreError + 'a \<Rightarrow> CircuitBreaker
    \<Rightarrow> (CoreError + 'a) option \<times> CircuitBreaker" where
  "breaker_call before after result s =
     (case call_begin before s of
        (Inl e, s') \<Rightarrow> (Some (Err e), s')
      | (Inr _, s') \<Rightarrow> call_finish after result s')"

definition breaker_reset :: "CircuitBreaker \<Rightarrow> CircuitBreaker" where
  "breaker_reset s = s\<lparr>cb_state := Closed, consecutive_failures := 0, consecutive_successes := 0,
     half_open_calls := 0, half_open_successes := 0\<rparr>"

record CircuitBreakerStats =
  cbs_state :: CircuitState
  cbs_consecutive_failures :: u32
  cbs_half_open_calls :: u32
  cbs_half_open_successes :: u32

definition breaker_stats :: "u64 option \<Rightarrow> CircuitBreaker \<Rightarrow> CircuitBreakerStats \<times> CircuitBreaker" where
  "breaker_stats now s =
     (case breaker_state now s of (st, s') \<Rightarrow>
       (\<lparr>cbs_state = st, cbs_consecutive_failures = consecutive_failures s',
         cbs_half_open_calls = half_open_calls s', cbs_half_open_successes = half_open_successes s'\<rparr>, s'))"

subsection \<open>Tripping and rejecting\<close>

text \<open>A run of sequential failing calls, each with its two clock readings.\<close>

fun failing_calls :: "(u64 \<times> u64) list \<Rightarrow> CircuitBreaker \<Rightarrow> CircuitBreaker" where
  "failing_calls [] s = s"
| "failing_calls ((t, t') # ts) s =
     failing_calls ts (snd (breaker_call (Some t) (Some t') (Err (Internal ''failed'') :: CoreError + unit) s))"

lemma failing_call_closed:
  assumes "cb_state s = Closed"
  shows "breaker_call before (Some t) (Err e) s = (Some (Err e),
    s\<lparr>last_failure_time := t, consecutive_failures := consecutive_failures s + 1,
      cb_state := (if consecutive_failures s + 1 \<ge> failure_threshold (cb_config s) then Open else Closed)\<rparr>)"
  using assms by (simp add: breaker_call_def call_begin_def breaker_state_def call_finish_def record_failure_def
      record_last_failure_def Let_def)

lemma open_rejects:
  assumes "cb_state s = Open" "last_failure_time s \<noteq> 0"
    and "from_millis (saturating_sub now (last_failure_time s)) < cb_timeout (cb_config s)"
  shows "call_begin (Some now) s = (Err (Internal ''circuit breaker is open; service is unavailable''), s)"
  using assms by (simp add: call_begin_def breaker_state_def time_since_last_failure_def)

lemma failing_calls_closed:
  assumes "cb_state s = Closed" "unat (consecutive_failures s) + length ts < unat (failure_threshold (cb_config s))"
  shows "cb_state (failing_calls ts s) = Closed
    \<and> unat (consecutive_failures (failing_calls ts s)) = unat (consecutive_failures s) + length ts
    \<and> cb_config (failing_calls ts s) = cb_config s"
  using assms
proof (induction ts arbitrary: s)
  case (Cons p ts)
  obtain t t' where p: "p = (t, t')" by (cases p)
  have bound: "unat (consecutive_failures s) + 1 < 2 ^ 32"
    using Cons.prems(2) unsigned_less [where 'a = nat, of "failure_threshold (cb_config s)"] by simp
  then have inc: "unat (consecutive_failures s + 1) = unat (consecutive_failures s) + 1"
    using unat_add_no_wrap [of "consecutive_failures s" 1] by simp
  have lt: "\<not> failure_threshold (cb_config s) \<le> consecutive_failures s + 1"
    unfolding word_le_nat_alt inc using Cons.prems(2) by simp
  let ?s = "s\<lparr>last_failure_time := t', consecutive_failures := consecutive_failures s + 1, cb_state := Closed\<rparr>"
  have step: "failing_calls (p # ts) s = failing_calls ts ?s"
    using lt by (simp add: p failing_call_closed [OF Cons.prems(1)])
  have "cb_state (failing_calls ts ?s) = Closed
    \<and> unat (consecutive_failures (failing_calls ts ?s)) = unat (consecutive_failures ?s) + length ts
    \<and> cb_config (failing_calls ts ?s) = cb_config ?s"
    by (rule Cons.IH) (use Cons.prems(2) inc in simp_all)
  then show ?case unfolding step using inc by simp
qed simp

lemma failing_calls_append: "failing_calls (ts @ us) s = failing_calls us (failing_calls ts s)"
  by (induction ts s rule: failing_calls.induct) simp_all

text \<open>
  C22: from a fresh breaker, fewer than \<open>failure_threshold\<close> consecutive failing calls leave it
  closed, and the failure that reaches the threshold opens it. Until the timeout has passed since
  that failure every call is rejected without running the future, and changes nothing.
\<close>

theorem breaker_trips:
  assumes "length ts + 1 = unat (failure_threshold c)" and "t' \<noteq> 0"
    and s: "s = failing_calls (ts @ [(t, t')]) (breaker_with_config c)"
  shows "cb_state (failing_calls ts (breaker_with_config c)) = Closed
    \<and> cb_state s = Open
    \<and> (from_millis (saturating_sub now t') < cb_timeout c \<longrightarrow>
        breaker_call (Some now) after result s
          = (Some (Err (Internal ''circuit breaker is open; service is unavailable'')), s))"
proof -
  let ?n = "breaker_with_config c" and ?m = "failing_calls ts (breaker_with_config c)"
  have n: "cb_state ?n = Closed" "cb_config ?n = c" "consecutive_failures ?n = 0"
    by (simp_all add: breaker_with_config_def)
  have m: "cb_state ?m = Closed" "unat (consecutive_failures ?m) = length ts" "cb_config ?m = c"
    using failing_calls_closed [of ?n ts] assms(1) n by simp_all
  have "unat (consecutive_failures ?m + 1) = unat (failure_threshold c)"
    using unat_add_no_wrap [of "consecutive_failures ?m" 1] m(2) assms(1) unsigned_less [where 'a = nat, of "failure_threshold c"] by simp
  then have ge: "failure_threshold c \<le> consecutive_failures ?m + 1" by (simp add: word_le_nat_alt)
  have "s = ?m\<lparr>last_failure_time := t', consecutive_failures := consecutive_failures ?m + 1, cb_state := Open\<rparr>"
    using ge by (simp add: s failing_calls_append failing_call_closed [OF m(1)] m(3))
  then have st: "cb_state s = Open" "last_failure_time s = t'" "cb_config s = c" by (simp_all add: m(3))
  have "breaker_call (Some now) after result s
      = (Some (Err (Internal ''circuit breaker is open; service is unavailable'')), s)"
    if "from_millis (saturating_sub now t') < cb_timeout c"
    using open_rejects [OF st(1), of now] st assms(2) that by (simp add: breaker_call_def)
  then show ?thesis using m(1) st(1) by simp
qed

theorem breaker_trips_witness:
  "cb_state (failing_calls [(1000, 1010), (1020, 1030)]
      (breaker_with_config (default_circuit_config\<lparr>failure_threshold := 2\<rparr>))) = Open"
  using breaker_trips [of "[(1000, 1010)]" "default_circuit_config\<lparr>failure_threshold := 2\<rparr>" 1030
      "failing_calls [(1000, 1010), (1020, 1030)] (breaker_with_config (default_circuit_config\<lparr>failure_threshold := 2\<rparr>))"
      1020 0 None "Ok ()"]
  by simp

subsection \<open>Recovery\<close>

text \<open>Sequential calls whose future succeeds.\<close>

fun successful_calls :: "(u64 \<times> u64) list \<Rightarrow> CircuitBreaker \<Rightarrow> CircuitBreaker" where
  "successful_calls [] s = s"
| "successful_calls ((t, t') # ts) s =
     successful_calls ts (snd (breaker_call (Some t) (Some t') (Ok () :: CoreError + unit) s))"

text \<open>\<open>n\<close> probes have been admitted and have succeeded.\<close>

definition probing :: "CircuitBreakerConfig \<Rightarrow> nat \<Rightarrow> CircuitBreaker \<Rightarrow> bool" where
  "probing c n s \<longleftrightarrow> cb_config s = c \<and> cb_state s = HalfOpen
     \<and> unat (half_open_calls s) = n \<and> unat (half_open_successes s) = n"

lemma begin_probe:
  assumes "probing c n s" and "n < unat (half_open_max_calls c)"
  shows "call_begin now s = (Ok (), s\<lparr>half_open_calls := half_open_calls s + 1\<rparr>)"
    and "unat (half_open_calls s + 1) = n + 1"
proof -
  have "unat (half_open_calls s) + 1 < 2 ^ 32"
    using assms unsigned_less [where 'a = nat, of "half_open_max_calls c"] by (simp add: probing_def)
  then show n: "unat (half_open_calls s + 1) = n + 1"
    using unat_add_no_wrap [of "half_open_calls s" 1] assms(1) by (simp add: probing_def)
  show "call_begin now s = (Ok (), s\<lparr>half_open_calls := half_open_calls s + 1\<rparr>)"
    using assms n by (simp add: probing_def call_begin_def breaker_state_def Let_def word_less_nat_alt)
qed

lemma finish_probe:
  assumes "probing c n s" and "n < unat (half_open_max_calls c)"
    and m: "unat (half_open_max_calls c) * 100 < 2 ^ 32" and t: "half_open_success_threshold c \<le> 100"
    and s'_def: "s' = snd (breaker_call before after (Ok x) s)"
  shows "fst (breaker_call before after (Ok x) s) = Some (Ok x)"
    and "n + 1 < unat (half_open_max_calls c) \<Longrightarrow> probing c (n + 1) s'"
    and "n + 1 = unat (half_open_max_calls c) \<Longrightarrow> cb_state s' = Closed \<and> consecutive_failures s' = 0"
proof -
  note st = assms(1) [unfolded probing_def]
  have b: "call_begin before s = (Ok (), s\<lparr>half_open_calls := half_open_calls s + 1\<rparr>)"
    "unat (half_open_calls s + 1) = n + 1"
    using begin_probe [OF assms(1,2)] by simp_all
  have succ: "unat (half_open_successes s + 1) = n + 1"
    using st b(2) by (metis word_unat_eq_iff)
  have nz: "half_open_calls s + 1 \<noteq> 0" using b(2) by (metis Suc_eq_plus1 nat.distinct(1) unsigned_0)
  have eq: "half_open_successes s + 1 = half_open_calls s + 1" using succ b(2) by (simp add: word_unat_eq_iff)
  have ge: "half_open_max_calls c \<le> half_open_calls s + 1 \<longleftrightarrow> unat (half_open_max_calls c) \<le> n + 1"
    unfolding word_le_nat_alt b(2) ..
  have pct: "(half_open_calls s + 1) * 100 div (half_open_calls s + 1) = 100"
  proof -
    have "(n + 1) * 100 < 2 ^ 32" using assms(2) m by simp
    then have "unat ((half_open_calls s + 1) * 100) = (n + 1) * 100"
      using b(2) unat_mult_no_wrap [of "half_open_calls s + 1" 100] by simp
    then have "unat ((half_open_calls s + 1) * 100 div (half_open_calls s + 1)) = 100"
      unfolding unat_div b(2) by (simp only: nonzero_mult_div_cancel_left add_eq_0_iff_both_eq_0 one_neq_zero simp_thms not_False_eq_True)
    then show ?thesis by (simp add: word_unat_eq_iff)
  qed
  have call: "breaker_call before after (Ok x) s =
      call_finish after (Ok x) (s\<lparr>half_open_calls := half_open_calls s + 1\<rparr>)"
    using b(1) by (simp add: breaker_call_def)
  show "fst (breaker_call before after (Ok x) s) = Some (Ok x)"
    unfolding call using st nz by (simp add: call_finish_def record_success_def Let_def)
  show "probing c (n + 1) s'" if "n + 1 < unat (half_open_max_calls c)"
    unfolding s'_def call using st that ge b(2) succ
    by (simp add: call_finish_def record_success_def Let_def probing_def)
  show "cb_state s' = Closed \<and> consecutive_failures s' = 0" if "n + 1 = unat (half_open_max_calls c)"
    unfolding s'_def call using st that ge nz pct t eq
    by (simp add: call_finish_def record_success_def Let_def)
qed

lemma successful_probes:
  assumes "probing c n s" and "n + length ts = unat (half_open_max_calls c)" and "ts \<noteq> []"
    and "unat (half_open_max_calls c) * 100 < 2 ^ 32" and "half_open_success_threshold c \<le> 100"
  shows "cb_state (successful_calls ts s) = Closed \<and> consecutive_failures (successful_calls ts s) = 0"
  using assms(1-3)
proof (induction ts arbitrary: n s)
  case (Cons p ts)
  obtain t t' where p: "p = (t, t')" by (cases p)
  let ?s = "snd (breaker_call (Some t) (Some t') (Ok () :: CoreError + unit) s)"
  have n: "n < unat (half_open_max_calls c)" using Cons.prems(2) by simp
  note probe = finish_probe [OF Cons.prems(1) n assms(4,5) refl, of "Some t" "Some t'" "()"]
  show ?case
  proof (cases "ts = []")
    case True
    then show ?thesis using probe(3) Cons.prems(2) by (simp add: p)
  next
    case False
    then have "n + 1 < unat (half_open_max_calls c)" using Cons.prems(2) by (cases ts) simp_all
    then have "probing c (n + 1) ?s" by (rule probe(2))
    from Cons.IH [OF this] show ?thesis using False Cons.prems(2) by (simp add: p)
  qed
qed simp

text \<open>
  Once the timeout has passed, the next call moves an open breaker to half-open;
  \<open>half_open_max_calls\<close> sequential successful probes close it, and a probe that fails opens it
  again at once.
\<close>

lemma breaker_recovers:
  assumes "cb_state s = Open" and "cb_config s = c" and "last_failure_time s \<noteq> 0"
    and due: "cb_timeout c \<le> from_millis (saturating_sub t (last_failure_time s))"
    and len: "length ((t, t') # ts) = unat (half_open_max_calls c)"
    and "unat (half_open_max_calls c) * 100 < 2 ^ 32" and "half_open_success_threshold c \<le> 100"
  shows "cb_state (successful_calls ((t, t') # ts) s) = Closed
    \<and> consecutive_failures (successful_calls ((t, t') # ts) s) = 0
    \<and> fst (breaker_call (Some t) after (Err e :: CoreError + 'a) s) = Some (Err e)
    \<and> cb_state (snd (breaker_call (Some t) after (Err e :: CoreError + 'a) s)) = Open"
proof -
  let ?h = "s\<lparr>cb_state := HalfOpen, half_open_calls := 0, half_open_successes := 0\<rparr>"
  have st: "breaker_state (Some t) s = (HalfOpen, ?h)"
    using assms(1-4) by (simp add: breaker_state_def time_since_last_failure_def)
  have "breaker_state (Some t) ?h = (HalfOpen, ?h)" by (simp add: breaker_state_def)
  then have probe: "call_begin (Some t) s = call_begin (Some t) ?h" by (simp add: call_begin_def st)
  have probing: "probing c 0 ?h" using assms(2) by (simp add: probing_def)
  have "successful_calls ((t, t') # ts) s = successful_calls ((t, t') # ts) ?h"
    by (simp add: breaker_call_def probe)
  then have closed: "cb_state (successful_calls ((t, t') # ts) s) = Closed
      \<and> consecutive_failures (successful_calls ((t, t') # ts) s) = 0"
    using successful_probes [OF probing _ _ assms(6,7), of "(t, t') # ts"] len by simp
  have "0 < unat (half_open_max_calls c)" using len by simp
  then have "call_begin (Some t) s = (Ok (), ?h\<lparr>half_open_calls := half_open_calls ?h + 1\<rparr>)"
    unfolding probe by (rule begin_probe(1) [OF probing])
  then have "breaker_call (Some t) after (Err e :: CoreError + 'a) s
      = (Some (Err e), record_failure after (?h\<lparr>half_open_calls := half_open_calls ?h + 1\<rparr>))"
    by (simp add: breaker_call_def call_finish_def)
  then show ?thesis using closed
    by (simp add: record_failure_def record_last_failure_def Let_def split: option.splits)
qed

definition tripped_breaker :: CircuitBreaker where
  "tripped_breaker = (breaker_with_config default_circuit_config)\<lparr>cb_state := Open, last_failure_time := 1000\<rparr>"

subsection \<open>Concurrent probes\<close>

fun begin_calls :: "nat \<Rightarrow> u64 \<Rightarrow> CircuitBreaker \<Rightarrow> CircuitBreaker" where
  "begin_calls 0 t s = s"
| "begin_calls (Suc n) t s = begin_calls n t (snd (call_begin (Some t) s))"

lemma begin_calls_half_open:
  assumes "cb_state s = HalfOpen" and "unat (half_open_calls s) + n \<le> unat (half_open_max_calls (cb_config s))"
  shows "begin_calls n t s = s\<lparr>half_open_calls := half_open_calls s + of_nat n\<rparr>"
  using assms
proof (induction n arbitrary: s)
  case (Suc n)
  have "unat (half_open_calls s) + 1 < 2 ^ 32"
    using Suc.prems unsigned_less [where 'a = nat, of "half_open_max_calls (cb_config s)"] by simp
  then have "unat (half_open_calls s + 1) = unat (half_open_calls s) + 1"
    using unat_add_no_wrap [of "half_open_calls s" 1] by simp
  then show ?case using Suc by (simp add: call_begin_def breaker_state_def Let_def word_less_nat_alt ac_simps)
qed simp

text \<open>
  Probes that overlap keep the breaker from closing. When all \<open>half_open_max_calls\<close> probes
  are admitted before the first one returns, that first success is measured against all of them:
  unless one success out of that many reaches the threshold, it opens the breaker again.
\<close>

lemma concurrent_probes_reopen:
  assumes "cb_state s = HalfOpen" and "half_open_calls s = 0" and "half_open_successes s = 0"
    and "half_open_max_calls (cb_config s) \<noteq> 0"
    and "100 div unat (half_open_max_calls (cb_config s)) < unat (half_open_success_threshold (cb_config s))"
  shows "fst (call_finish now (Ok x) (begin_calls (unat (half_open_max_calls (cb_config s))) t s)) = Some (Ok x)
    \<and> cb_state (snd (call_finish now (Ok x) (begin_calls (unat (half_open_max_calls (cb_config s))) t s))) = Open"
proof -
  let ?m = "half_open_max_calls (cb_config s)"
  have b: "begin_calls (unat ?m) t s = s\<lparr>half_open_calls := ?m\<rparr>"
    using begin_calls_half_open [OF assms(1), of "unat ?m"] assms(2) by simp
  have "\<not> half_open_success_threshold (cb_config s) \<le> 100 div ?m"
    using assms(5) by (simp add: word_le_nat_alt unat_div)
  then show ?thesis unfolding b using assms(1-4)
    by (simp add: call_finish_def record_success_def record_last_failure_def Let_def split: option.splits)
qed

end
