(* ===== verification/TimeSlice.thy ===== *)
theory TimeSlice
  imports CoreTypes
begin

text \<open>
  The weighted round-robin of \<open>crates/core/src/time_slice_scheduler.rs\<close>. The state's fields are
  private, so it only comes from \<open>new_state\<close>; \<open>next_priority\<close> indexes the queue, which would
  panic (\<open>None\<close>) out of range.
\<close>

record SchedulerState =
  ss_queue :: "Priority list"
  ss_current_index :: nat
  ss_round_counter :: u64

definition CRITICAL_WEIGHT :: nat where "CRITICAL_WEIGHT = 50"
definition HIGH_WEIGHT :: nat where "HIGH_WEIGHT = 30"
definition NORMAL_WEIGHT :: nat where "NORMAL_WEIGHT = 15"
definition LOW_WEIGHT :: nat where "LOW_WEIGHT = 5"

definition weight_for_priority :: "Priority \<Rightarrow> fp" where
  "weight_for_priority p = weight_percentage p"

definition new_state :: SchedulerState where
  "new_state =
     \<lparr>ss_queue = replicate CRITICAL_WEIGHT Critical @ replicate HIGH_WEIGHT High
        @ replicate NORMAL_WEIGHT Normal @ replicate LOW_WEIGHT Low,
      ss_current_index = 0, ss_round_counter = 0\<rparr>"

definition next_priority :: "SchedulerState \<Rightarrow> (Priority \<times> SchedulerState) option" where
  "next_priority s =
     (if ss_queue s = [] then Some (Normal, s)
      else if ss_current_index s < length (ss_queue s) then
        let p = ss_queue s ! ss_current_index s;
            s' = s\<lparr>ss_current_index := (ss_current_index s + 1) mod length (ss_queue s)\<rparr>
        in Some (p, if ss_current_index s' = 0 then s'\<lparr>ss_round_counter := ss_round_counter s' + 1\<rparr> else s')
      else None)"

definition reset_state :: "SchedulerState \<Rightarrow> SchedulerState" where
  "reset_state s = s\<lparr>ss_current_index := 0, ss_round_counter := ss_round_counter s + 1\<rparr>"

record SchedulerStats =
  st_round_number :: u64
  st_current_position :: nat
  st_total_positions :: nat
  st_critical_count :: nat
  st_high_count :: nat
  st_normal_count :: nat
  st_low_count :: nat

definition time_slice_stats :: "SchedulerState \<Rightarrow> SchedulerStats" where
  "time_slice_stats s =
     \<lparr>st_round_number = ss_round_counter s, st_current_position = ss_current_index s,
      st_total_positions = length (ss_queue s), st_critical_count = CRITICAL_WEIGHT,
      st_high_count = HIGH_WEIGHT, st_normal_count = NORMAL_WEIGHT, st_low_count = LOW_WEIGHT\<rparr>"

text \<open>The priorities of \<open>n\<close> successive calls of \<open>next_priority\<close>.\<close>

fun next_priorities :: "nat \<Rightarrow> SchedulerState \<Rightarrow> (Priority list \<times> SchedulerState) option" where
  "next_priorities 0 s = Some ([], s)"
| "next_priorities (Suc n) s =
     (case next_priority s of None \<Rightarrow> None
      | Some (p, s') \<Rightarrow> map_option (\<lambda>(ps, s''). (p # ps, s'')) (next_priorities n s'))"

inductive slice_reachable :: "SchedulerState \<Rightarrow> bool" where
  new: "slice_reachable new_state"
| step: "slice_reachable s \<Longrightarrow> next_priority s = Some (p, s') \<Longrightarrow> slice_reachable s'"
| reset: "slice_reachable s \<Longrightarrow> slice_reachable (reset_state s)"

lemmas weights = CRITICAL_WEIGHT_def HIGH_WEIGHT_def NORMAL_WEIGHT_def LOW_WEIGHT_def

lemma slice_reachable_inv:
  "slice_reachable s \<Longrightarrow> ss_queue s = ss_queue new_state \<and> ss_current_index s < 100"
proof (induction rule: slice_reachable.induct)
  case (step s p s')
  have "length (ss_queue new_state) = 100" by (simp add: new_state_def weights)
  then show ?case using step by (auto simp: next_priority_def Let_def split: if_splits)
qed (simp_all add: new_state_def reset_state_def)

lemma next_priority_at:
  assumes "ss_current_index s < length (ss_queue s)"
  shows "next_priority s = Some (ss_queue s ! ss_current_index s,
    s\<lparr>ss_current_index := (ss_current_index s + 1) mod length (ss_queue s),
      ss_round_counter := ss_round_counter s + of_nat ((ss_current_index s + 1) div length (ss_queue s))\<rparr>)"
proof -
  let ?i = "ss_current_index s" and ?l = "length (ss_queue s)"
  consider "?i + 1 = ?l" | "?i + 1 < ?l" using assms by linarith
  then show ?thesis using assms by cases (auto simp: next_priority_def Let_def)
qed

lemma next_priorities_at:
  assumes "ss_current_index s < length (ss_queue s)"
  shows "next_priorities n s = Some (map (\<lambda>k. ss_queue s ! ((ss_current_index s + k) mod length (ss_queue s))) [0..<n],
    s\<lparr>ss_current_index := (ss_current_index s + n) mod length (ss_queue s),
      ss_round_counter := ss_round_counter s + of_nat ((ss_current_index s + n) div length (ss_queue s))\<rparr>)"
  using assms
proof (induction n arbitrary: s)
  case (Suc n)
  let ?i = "ss_current_index s" and ?l = "length (ss_queue s)"
  let ?s = "s\<lparr>ss_current_index := (?i + 1) mod ?l, ss_round_counter := ss_round_counter s + of_nat ((?i + 1) div ?l)\<rparr>"
  have l: "0 < ?l" using Suc.prems by linarith
  have IH: "next_priorities n ?s = Some (map (\<lambda>k. ss_queue s ! (((?i + 1) mod ?l + k) mod ?l)) [0..<n],
    s\<lparr>ss_current_index := ((?i + 1) mod ?l + n) mod ?l,
      ss_round_counter := ss_round_counter s + of_nat ((?i + 1) div ?l) + of_nat (((?i + 1) mod ?l + n) div ?l)\<rparr>)"
    using Suc.IH [of ?s] l by simp
  have m: "((?i + 1) mod ?l + k) mod ?l = (?i + Suc k) mod ?l" for k
    by (simp add: mod_add_left_eq)
  have d: "(?i + 1) div ?l + ((?i + 1) mod ?l + n) div ?l = (?i + Suc n) div ?l"
  proof -
    have "?i + Suc n = (?i + 1) mod ?l + n + (?i + 1) div ?l * ?l" by simp
    then have "(?i + Suc n) div ?l = ((?i + 1) mod ?l + n + (?i + 1) div ?l * ?l) div ?l" by (simp only:)
    then show ?thesis using div_mult_self1 [of ?l "(?i + 1) mod ?l + n" "(?i + 1) div ?l"] l by linarith
  qed
  have "map (\<lambda>k. ss_queue s ! ((?i + k) mod ?l)) [0..<Suc n]
      = ss_queue s ! ?i # map (\<lambda>k. ss_queue s ! ((?i + Suc k) mod ?l)) [0..<n]"
    using Suc.prems by (simp add: upt_conv_Cons map_Suc_upt [symmetric] comp_def del: upt_Suc map_Suc_upt)
  then show ?case unfolding next_priorities.simps next_priority_at [OF Suc.prems] option.case prod.case IH m
    by (simp add: d [simplified] add.assoc flip: of_nat_add)
qed simp

lemma mset_rotate: "mset (rotate n xs) = mset xs"
proof (induction n)
  case (Suc n)
  have "mset (rotate1 ys) = mset ys" for ys :: "'a list" by (cases ys) simp_all
  then show ?case using Suc by (simp add: rotate_Suc)
qed simp

text \<open>
  C25: from every reachable state, \<open>next_priority\<close> never panics, and each hundred consecutive
  calls return \<open>Critical\<close> 50 times, \<open>High\<close> 30, \<open>Normal\<close> 15 and \<open>Low\<close> 5 times and end at the
  position where they began, one round later. Any 96 consecutive calls serve every level.
\<close>

theorem time_slice_shares:
  assumes "slice_reachable s"
  shows "(\<exists>ps. next_priorities 100 s = Some (ps, s\<lparr>ss_round_counter := ss_round_counter s + 1\<rparr>)
      \<and> count (mset ps) Critical = 50 \<and> count (mset ps) High = 30
      \<and> count (mset ps) Normal = 15 \<and> count (mset ps) Low = 5)
    \<and> (\<exists>ps s'. next_priorities 96 s = Some (ps, s') \<and> set ps = UNIV)"
proof -
  let ?q = "ss_queue s" and ?i = "ss_current_index s"
  have q: "?q = ss_queue new_state" and i: "?i < 100" using slice_reachable_inv [OF assms] by simp_all
  have l: "length ?q = 100" by (simp add: q new_state_def weights)
  have rot: "map (\<lambda>k. ?q ! ((?i + k) mod length ?q)) [0..<100] = rotate ?i ?q"
    by (rule nth_equalityI) (simp_all add: l nth_rotate)
  have run: "next_priorities 100 s = Some (rotate ?i ?q,
      s\<lparr>ss_current_index := (?i + 100) mod 100, ss_round_counter := ss_round_counter s + of_nat ((?i + 100) div 100)\<rparr>)"
    using next_priorities_at [of s 100] i rot by (simp add: l)
  have c: "count (mset (rotate ?i ?q)) p = count (mset (ss_queue new_state)) p" for p
    by (simp add: q mset_rotate)
  have counts: "count (mset (rotate ?i ?q)) Critical = 50" "count (mset (rotate ?i ?q)) High = 30"
    "count (mset (rotate ?i ?q)) Normal = 15" "count (mset (rotate ?i ?q)) Low = 5"
    unfolding c by (simp_all add: new_state_def weights)
  have "s\<lparr>ss_current_index := (?i + 100) mod 100, ss_round_counter := ss_round_counter s + of_nat ((?i + 100) div 100)\<rparr>
      = s\<lparr>ss_round_counter := ss_round_counter s + 1\<rparr>"
    using i by simp
  then have hundred: "\<exists>ps. next_priorities 100 s = Some (ps, s\<lparr>ss_round_counter := ss_round_counter s + 1\<rparr>)
      \<and> count (mset ps) Critical = 50 \<and> count (mset ps) High = 30
      \<and> count (mset ps) Normal = 15 \<and> count (mset ps) Low = 5"
    using run counts by auto
  let ?w = "take 96 (rotate ?i ?q)"
  have "map (\<lambda>k. ?q ! ((?i + k) mod length ?q)) [0..<96] = ?w"
    unfolding rot [symmetric] by (simp add: take_map)
  then have w: "\<exists>s'. next_priorities 96 s = Some (?w, s')"
    using next_priorities_at [of s 96] i by (simp add: l)
  have "p \<in> set ?w" for p
  proof -
    have "mset (rotate ?i ?q) = mset ?w + mset (drop 96 (rotate ?i ?q))"
      by (simp flip: mset_append)
    moreover have "count (mset (drop 96 (rotate ?i ?q))) p \<le> 4"
      using count_le_size [of "mset (drop 96 (rotate ?i ?q))" p] by (simp add: l)
    moreover have "5 \<le> count (mset (rotate ?i ?q)) p" using counts by (cases p) simp_all
    ultimately have "0 < count (mset ?w) p" by (simp only: count_union)
    then show ?thesis by (simp only: count_greater_zero_iff set_mset_mset)
  qed
  then have "\<exists>ps s'. next_priorities 96 s = Some (ps, s') \<and> set ps = UNIV" using w by blast
  with hundred show ?thesis by (rule conjI)
qed

theorem time_slice_shares_witness:
  "\<exists>ps s'. next_priorities 96 (reset_state new_state) = Some (ps, s') \<and> set ps = UNIV"
  using time_slice_shares [OF slice_reachable.reset [OF slice_reachable.new]] by (rule conjunct2)

end
