(* ===== verification/TaskAging.thy ===== *)
theory TaskAging
  imports CoreTypes
begin

text \<open>
  The aging policies of \<open>crates/core/src/task_aging.rs\<close>: the effective priority of a task that
  has waited. A monotonic \<open>Instant\<close> is a number of nanoseconds; \<open>elapsed\<close> saturates at zero.
\<close>

datatype AgingPolicy = NoAging | Linear u64 | Exponential u64

fun threshold_ms :: "AgingPolicy \<Rightarrow> Priority \<Rightarrow> u64 option" where
  "threshold_ms NoAging _ = None"
| "threshold_ms (Linear base_ms) from = (if from = Critical then None else Some base_ms)"
| "threshold_ms (Exponential base_ms) from =
     (case from of
        Critical \<Rightarrow> None
      | High \<Rightarrow> Some (base_ms * 2)
      | Normal \<Rightarrow> Some base_ms
      | Low \<Rightarrow> Some (base_ms div 2))"

record TaskAge =
  ta_enqueued_at :: nat
  ta_original_priority :: Priority

definition task_age_new :: "nat \<Rightarrow> Priority \<Rightarrow> TaskAge" where
  "task_age_new now p = \<lparr>ta_enqueued_at = now, ta_original_priority = p\<rparr>"

definition task_age :: "nat \<Rightarrow> TaskAge \<Rightarrow> duration" where
  "task_age now a = now - ta_enqueued_at a"

definition age_ms :: "nat \<Rightarrow> TaskAge \<Rightarrow> u64" where
  "age_ms now a = of_nat (as_millis (task_age now a))"

fun promote_priority :: "Priority \<Rightarrow> Priority" where
  "promote_priority Low = Normal"
| "promote_priority Normal = High"
| "promote_priority High = Critical"
| "promote_priority Critical = Critical"

definition compute_promoted_priority :: "nat \<Rightarrow> AgingPolicy \<Rightarrow> TaskAge \<Rightarrow> Priority" where
  "compute_promoted_priority now policy a =
     (case threshold_ms policy (ta_original_priority a) of
        None \<Rightarrow> ta_original_priority a
      | Some threshold \<Rightarrow>
          if age_ms now a \<ge> threshold then promote_priority (ta_original_priority a)
          else ta_original_priority a)"

lemma promote_priority_ge: "p \<le> promote_priority p"
  by (cases p) simp_all

lemma promote_priority_step: "as_u8 (promote_priority p) \<le> as_u8 p + 1"
  by (cases p) (simp_all add: word_le_nat_alt)

lemma unat_age_ms:
  "as_millis (now - ta_enqueued_at a) < 2 ^ 64 \<Longrightarrow> unat (age_ms now a) = as_millis (now - ta_enqueued_at a)"
  by (simp add: age_ms_def task_age_def unat_of_nat)

lemma age_ms_mono:
  assumes "now \<le> now'" and "as_millis (now' - ta_enqueued_at a) < 2 ^ 64"
  shows "age_ms now a \<le> age_ms now' a"
proof -
  have "as_millis (now - ta_enqueued_at a) \<le> as_millis (now' - ta_enqueued_at a)"
    using assms(1) by (simp add: as_millis_def div_le_mono)
  then show ?thesis using assms(2) by (simp add: word_le_nat_alt unat_age_ms)
qed

text \<open>
  The effective priority never falls as a task waits, is never below the original priority and
  at most one level above it, however long the wait: a \<open>Low\<close> task never gets past \<open>Normal\<close>. A
  policy other than \<open>NoAging\<close> does promote every non-critical task once the age reaches its
  threshold.
\<close>

lemma aging_bounded:
  assumes "now \<le> now'" and "as_millis (now' - ta_enqueued_at a) < 2 ^ 64"
  shows "compute_promoted_priority now policy a \<le> compute_promoted_priority now' policy a
    \<and> ta_original_priority a \<le> compute_promoted_priority now policy a
    \<and> compute_promoted_priority now' policy a \<le> promote_priority (ta_original_priority a)
    \<and> (\<forall>t. threshold_ms policy (ta_original_priority a) = Some t \<and> unat t \<le> as_millis (now' - ta_enqueued_at a)
        \<longrightarrow> compute_promoted_priority now' policy a = promote_priority (ta_original_priority a))"
proof -
  have "t \<le> age_ms now' a" if "t \<le> age_ms now a" for t
    using that age_ms_mono [OF assms] by (rule order_trans)
  then have "compute_promoted_priority now policy a \<le> compute_promoted_priority now' policy a"
    by (auto simp: compute_promoted_priority_def promote_priority_ge split: option.splits)
  moreover have "compute_promoted_priority now' policy a = promote_priority (ta_original_priority a)"
    if "threshold_ms policy (ta_original_priority a) = Some t" "unat t \<le> as_millis (now' - ta_enqueued_at a)" for t
    using that unat_age_ms [OF assms(2)] by (simp add: compute_promoted_priority_def word_le_nat_alt)
  ultimately show ?thesis
    by (auto simp: compute_promoted_priority_def promote_priority_ge split: option.splits)
qed

text \<open>
  Under the exponential policy with a base below \<open>2 ^ 63\<close> the thresholds grow with the
  priority, as documented; from \<open>2 ^ 63\<close> on the doubled threshold wraps around, and for exactly
  \<open>2 ^ 63\<close> every \<open>High\<close> task is promoted to \<open>Critical\<close> at once.
\<close>

lemma exponential_thresholds:
  "(unat base < 2 ^ 63 \<longrightarrow> (\<exists>l n h. threshold_ms (Exponential base) Low = Some l
      \<and> threshold_ms (Exponential base) Normal = Some n \<and> threshold_ms (Exponential base) High = Some h
      \<and> l \<le> n \<and> n \<le> h \<and> unat h = 2 * unat base))
   \<and> (base = 2 ^ 63 \<longrightarrow> compute_promoted_priority now (Exponential base) (task_age_new now High) = Critical)"
proof (intro conjI impI)
  assume b: "unat base < 2 ^ 63"
  have h: "unat (base * 2) = unat base * 2" using b unat_mult_no_wrap [of base 2] by simp
  have "base div 2 \<le> base" by (simp add: word_le_nat_alt unat_div)
  moreover have "base \<le> base * 2" by (simp add: word_le_nat_alt h)
  ultimately show "\<exists>l n h. threshold_ms (Exponential base) Low = Some l
      \<and> threshold_ms (Exponential base) Normal = Some n \<and> threshold_ms (Exponential base) High = Some h
      \<and> l \<le> n \<and> n \<le> h \<and> unat h = 2 * unat base" using h by simp
next
  assume b: "base = 2 ^ 63"
  have "base * 2 = 0" by (simp add: b)
  then show "compute_promoted_priority now (Exponential base) (task_age_new now High) = Critical"
    by (simp add: compute_promoted_priority_def task_age_new_def)
qed

end
