(* ===== verification/TaskTimeout.thy ===== *)
theory TaskTimeout
  imports CoreTypes
begin

text \<open>
  Timeout enforcement, \<open>crates/core/src/task_timeout.rs\<close>. The two flags of a handle are shared
  atomics, so a handle's clones are one value. \<open>start\<close> sleeps, triggers the soft timeout, sleeps
  again and cancels: \<open>start_steps\<close> lists these effects with the time since the start at which
  each runs, and \<open>handle_after\<close> is the handle once the effects up to a given time have run.
  A sleep of tokio ends no earlier than its duration.
\<close>

record TimeoutPolicy =
  hard_timeout :: duration
  soft_timeout :: "duration option"

definition policy_hard :: "duration \<Rightarrow> TimeoutPolicy" where
  "policy_hard d = \<lparr>hard_timeout = d, soft_timeout = None\<rparr>"

definition policy_soft_and_hard :: "duration \<Rightarrow> duration \<Rightarrow> TimeoutPolicy" where
  "policy_soft_and_hard soft hard = \<lparr>hard_timeout = hard, soft_timeout = Some soft\<rparr>"

definition effective_timeout :: "TimeoutPolicy \<Rightarrow> duration" where
  "effective_timeout p =
     (case soft_timeout p of
        Some soft \<Rightarrow> if soft < hard_timeout p then soft else hard_timeout p
      | None \<Rightarrow> hard_timeout p)"

definition default_timeout_policy :: TimeoutPolicy where
  "default_timeout_policy = \<lparr>hard_timeout = from_secs 300, soft_timeout = None\<rparr>"

record TimeoutHandle =
  th_task_id :: TaskId
  th_cancelled :: bool
  th_soft_timeout_triggered :: bool

definition handle_new :: "TaskId \<Rightarrow> TimeoutHandle" where
  "handle_new task_id = \<lparr>th_task_id = task_id, th_cancelled = False, th_soft_timeout_triggered = False\<rparr>"

definition handle_cancel :: "TimeoutHandle \<Rightarrow> TimeoutHandle" where
  "handle_cancel h = h\<lparr>th_cancelled := True\<rparr>"

definition trigger_soft_timeout :: "TimeoutHandle \<Rightarrow> TimeoutHandle" where
  "trigger_soft_timeout h = h\<lparr>th_soft_timeout_triggered := True\<rparr>"

definition handle_reset :: "TimeoutHandle \<Rightarrow> TimeoutHandle" where
  "handle_reset h = h\<lparr>th_cancelled := False, th_soft_timeout_triggered := False\<rparr>"

record TaskTimeoutManager =
  tm_policy :: TimeoutPolicy
  tm_handle :: TimeoutHandle

definition timeout_manager_new :: "TaskId \<Rightarrow> TimeoutPolicy \<Rightarrow> TaskTimeoutManager" where
  "timeout_manager_new task_id p = \<lparr>tm_policy = p, tm_handle = handle_new task_id\<rparr>"

definition soft_step :: "TimeoutHandle \<Rightarrow> TimeoutHandle" where
  "soft_step h = (if \<not> th_cancelled h then trigger_soft_timeout h else h)"

definition hard_step :: "TimeoutHandle \<Rightarrow> TimeoutHandle" where
  "hard_step h = (if \<not> th_cancelled h then handle_cancel h else h)"

definition start_steps :: "TimeoutPolicy \<Rightarrow> (duration \<times> (TimeoutHandle \<Rightarrow> TimeoutHandle)) list" where
  "start_steps p =
     (case soft_timeout p of
        Some soft \<Rightarrow>
          (let remaining = hard_timeout p - soft;
               second = if remaining > 0 then soft + remaining else soft
           in [(soft, soft_step), (second, hard_step)])
      | None \<Rightarrow> [(hard_timeout p, hard_step)])"

definition handle_after :: "duration \<Rightarrow> TaskTimeoutManager \<Rightarrow> TimeoutHandle" where
  "handle_after elapsed m =
     fold (\<lambda>(due, f) h. if due \<le> elapsed then f h else h) (start_steps (tm_policy m)) (tm_handle m)"

definition timeout_check :: "TimeoutHandle \<Rightarrow> CoreError + unit" where
  "timeout_check h =
     (if th_cancelled h then Err (Internal ''task exceeded hard timeout'')
      else if th_soft_timeout_triggered h then Ok ()
      else Ok ())"

datatype TimeoutStatus = StCompleted | StSoftTimeout | StHardTimeout | StCancelled

definition status_is_timeout :: "TimeoutStatus \<Rightarrow> bool" where
  "status_is_timeout s \<longleftrightarrow> s = StSoftTimeout \<or> s = StHardTimeout"

definition status_is_retryable :: "TimeoutStatus \<Rightarrow> bool" where
  "status_is_retryable s \<longleftrightarrow> s = StHardTimeout \<or> s = StSoftTimeout"

text \<open>
  A task that nobody else cancels fails its check from \<open>max soft hard\<close> on and not before, and
  its soft flag is set from the soft timeout on. So the hard limit is kept when the soft timeout is
  not larger; a larger soft timeout delays the cancellation past the hard timeout, although
  \<open>effective_timeout\<close> then reports the hard timeout.
\<close>

lemma timeout_fires:
  "(timeout_check (handle_after elapsed (timeout_manager_new t p)) \<noteq> Ok ()
      \<longleftrightarrow> (case soft_timeout p of None \<Rightarrow> hard_timeout p | Some soft \<Rightarrow> max soft (hard_timeout p)) \<le> elapsed)
   \<and> (th_soft_timeout_triggered (handle_after elapsed (timeout_manager_new t p))
      \<longleftrightarrow> (case soft_timeout p of None \<Rightarrow> False | Some soft \<Rightarrow> soft \<le> elapsed))
   \<and> (soft_timeout p = Some soft \<and> hard_timeout p < soft \<longrightarrow>
        effective_timeout p = hard_timeout p
        \<and> timeout_check (handle_after (hard_timeout p) (timeout_manager_new t p)) = Ok ())"
  by (auto simp: handle_after_def start_steps_def timeout_manager_new_def handle_new_def soft_step_def hard_step_def
      trigger_soft_timeout_def handle_cancel_def timeout_check_def effective_timeout_def Let_def
      split: option.splits if_splits)

end
