(* ===== verification/PriorityInversion.thy ===== *)
theory PriorityInversion
  imports CoreTypes
begin

text \<open>
  The inversion detector of \<open>crates/core/src/priority_inversion.rs\<close>. A poisoned \<open>RwLock\<close> makes
  its operations fail. Dates outside \<open>chrono\<close>'s range are the parameter \<open>in_range\<close>: subtracting a
  duration that leaves it panics (\<open>None\<close>).
\<close>

record InversionRecord =
  waiter_id :: TaskId
  waiter_priority :: Priority
  blocker_id :: TaskId
  blocker_priority :: Priority
  ir_lock_id :: string
  detected_at :: instant
  duration_ms :: u64

record LockOwnership =
  holder_id :: TaskId
  holder_priority :: Priority
  lo_acquired_at :: instant

record PriorityInversionDetector =
  lock_ownership :: "(string, LockOwnership) fmap"
  inversion_history :: "InversionRecord list"
  ownership_poisoned :: bool
  history_poisoned :: bool

definition detector_new :: PriorityInversionDetector where
  "detector_new = \<lparr>lock_ownership = fmempty, inversion_history = [], ownership_poisoned = False,
     history_poisoned = False\<rparr>"

definition ownership_error :: CoreError where
  "ownership_error = Internal ''lock ownership map poisoned''"

definition history_error :: CoreError where
  "history_error = Internal ''inversion history poisoned''"

definition record_lock_acquire :: "instant \<Rightarrow> string \<Rightarrow> TaskId \<Rightarrow> Priority \<Rightarrow> PriorityInversionDetector
    \<Rightarrow> (CoreError + unit) \<times> PriorityInversionDetector" where
  "record_lock_acquire now lock_id task_id priority d =
     (if ownership_poisoned d then (Err ownership_error, d)
      else (Ok (), d\<lparr>lock_ownership := fmupd lock_id
        \<lparr>holder_id = task_id, holder_priority = priority, lo_acquired_at = now\<rparr> (lock_ownership d)\<rparr>))"

definition record_lock_release :: "string \<Rightarrow> PriorityInversionDetector
    \<Rightarrow> (CoreError + TaskId option) \<times> PriorityInversionDetector" where
  "record_lock_release lock_id d =
     (if ownership_poisoned d then (Err ownership_error, d)
      else (Ok (map_option holder_id (fmlookup (lock_ownership d) lock_id)),
        d\<lparr>lock_ownership := fmdrop lock_id (lock_ownership d)\<rparr>))"

definition record_task_blocks :: "instant \<Rightarrow> TaskId \<Rightarrow> Priority \<Rightarrow> string \<Rightarrow> PriorityInversionDetector
    \<Rightarrow> (CoreError + InversionRecord option) \<times> PriorityInversionDetector" where
  "record_task_blocks now waiter prio lock_id d =
     (if ownership_poisoned d then (Err ownership_error, d)
      else case fmlookup (lock_ownership d) lock_id of
        Some owner \<Rightarrow>
          if prio > holder_priority owner then
            (let inversion = \<lparr>waiter_id = waiter, waiter_priority = prio, blocker_id = holder_id owner,
                   blocker_priority = holder_priority owner, ir_lock_id = lock_id, detected_at = now,
                   duration_ms = 0\<rparr> in
             if history_poisoned d then (Err history_error, d)
             else (Ok (Some inversion), d\<lparr>inversion_history := inversion_history d @ [inversion]\<rparr>))
          else (Ok None, d)
      | None \<Rightarrow> (Ok None, d))"

definition recent_inversions :: "(instant \<Rightarrow> bool) \<Rightarrow> instant \<Rightarrow> u64 \<Rightarrow> PriorityInversionDetector
    \<Rightarrow> (CoreError + InversionRecord list) option" where
  "recent_inversions in_range now since_ms d =
     (if history_poisoned d then Some (Err history_error)
      else let cutoff = now - sint since_ms * 10 ^ 6 in
        if in_range cutoff then Some (Ok (filter (\<lambda>r. detected_at r > cutoff) (inversion_history d)))
        else None)"

definition inversion_count :: "PriorityInversionDetector \<Rightarrow> CoreError + nat" where
  "inversion_count d = (if history_poisoned d then Err history_error else Ok (length (inversion_history d)))"

definition clear_history :: "PriorityInversionDetector \<Rightarrow> (CoreError + unit) \<times> PriorityInversionDetector" where
  "clear_history d = (if history_poisoned d then (Err history_error, d) else (Ok (), d\<lparr>inversion_history := []\<rparr>))"

definition clear_locks :: "PriorityInversionDetector \<Rightarrow> (CoreError + unit) \<times> PriorityInversionDetector" where
  "clear_locks d = (if ownership_poisoned d then (Err ownership_error, d) else (Ok (), d\<lparr>lock_ownership := fmempty\<rparr>))"

subsection \<open>Traces of lock events\<close>

datatype lock_event = Acquire string TaskId Priority | Release string | Block TaskId Priority string

definition lock_step :: "instant \<Rightarrow> lock_event \<Rightarrow> PriorityInversionDetector \<Rightarrow> PriorityInversionDetector" where
  "lock_step now e d =
     (case e of
        Acquire l t p \<Rightarrow> snd (record_lock_acquire now l t p d)
      | Release l \<Rightarrow> snd (record_lock_release l d)
      | Block t p l \<Rightarrow> snd (record_task_blocks now t p l d))"

fun run_locks :: "(instant \<times> lock_event) list \<Rightarrow> PriorityInversionDetector \<Rightarrow> PriorityInversionDetector" where
  "run_locks [] d = d"
| "run_locks ((now, e) # es) d = run_locks es (lock_step now e d)"

text \<open>The holder of a lock after a trace, latest event first: the last acquisition not released since.\<close>

fun holder :: "lock_event list \<Rightarrow> string \<Rightarrow> (TaskId \<times> Priority) option" where
  "holder [] l = None"
| "holder (Acquire l' t p # es) l = (if l' = l then Some (t, p) else holder es l)"
| "holder (Release l' # es) l = (if l' = l then None else holder es l)"
| "holder (Block _ _ _ # es) l = holder es l"

definition owner_of :: "PriorityInversionDetector \<Rightarrow> string \<Rightarrow> (TaskId \<times> Priority) option" where
  "owner_of d l = map_option (\<lambda>x. (holder_id x, holder_priority x)) (fmlookup (lock_ownership d) l)"

definition detector_ok :: "PriorityInversionDetector \<Rightarrow> bool" where
  "detector_ok d \<longleftrightarrow> \<not> ownership_poisoned d \<and> \<not> history_poisoned d"

lemma lock_step_ok: "detector_ok d \<Longrightarrow> detector_ok (lock_step now e d)"
  by (cases e) (auto simp: lock_step_def detector_ok_def record_lock_acquire_def record_lock_release_def
      record_task_blocks_def Let_def split: option.splits)

lemma lock_step_owner:
  assumes "detector_ok d" and "\<And>l. owner_of d l = holder es l"
  shows "owner_of (lock_step now e d) l = holder (e # es) l"
  using assms(1) assms(2) [of l]
  by (cases e) (auto simp: lock_step_def detector_ok_def owner_of_def record_lock_acquire_def record_lock_release_def
      record_task_blocks_def Let_def split: option.splits)

lemma run_locks_owner:
  assumes "detector_ok d" and "\<And>l. owner_of d l = holder es l"
  shows "detector_ok (run_locks tr d) \<and> owner_of (run_locks tr d) l = holder (rev (map snd tr) @ es) l"
  using assms
proof (induction tr arbitrary: d es)
  case (Cons x tr)
  obtain now e where x: "x = (now, e)" by (cases x)
  show ?case
    using Cons.IH [OF lock_step_ok [OF Cons.prems(1)] lock_step_owner [OF Cons.prems]] by (simp add: x)
qed simp

text \<open>
  After any trace of lock events, a task that blocks on a lock is reported exactly when the
  lock is held by a task of strictly lower priority; the report names that holder, and it is
  appended to the history, which nothing else changes.
\<close>

lemma inversion_detected:
  assumes "record_task_blocks now w p l (run_locks tr detector_new) = (r, d')"
  shows "\<exists>report. r = Ok report
    \<and> report = (case holder (rev (map snd tr)) l of
          None \<Rightarrow> None
        | Some (t, q) \<Rightarrow>
            if q < p then Some \<lparr>waiter_id = w, waiter_priority = p, blocker_id = t, blocker_priority = q,
              ir_lock_id = l, detected_at = now, duration_ms = 0\<rparr>
            else None)
    \<and> inversion_history d' = inversion_history (run_locks tr detector_new)
        @ (case report of None \<Rightarrow> [] | Some x \<Rightarrow> [x])"
proof -
  let ?d = "run_locks tr detector_new"
  have "owner_of detector_new l = holder [] l" for l by (simp add: owner_of_def detector_new_def)
  then have d: "detector_ok ?d" "owner_of ?d l = holder (rev (map snd tr)) l"
    using run_locks_owner [of detector_new "[]" tr] by (simp_all add: detector_ok_def detector_new_def)
  then show ?thesis using assms unfolding d(2) [symmetric]
    by (cases "fmlookup (lock_ownership ?d) l")
      (auto simp: record_task_blocks_def detector_ok_def owner_of_def Let_def)
qed

end
