(* ===== verification/EventLog.thy ===== *)
theory EventLog
  imports CoreTypes Effects "HOL-Library.List_Lexorder" "HOL-Library.Char_ord"
begin

text \<open>
  The event sinks of \<open>crates/core/src/event_log.rs\<close>: the bounded in-memory log, the SQLite log and
  the sink that forwards to several others. The database is its two tables, rows in insertion order;
  an error it returns is the argument \<open>db_error\<close> of the operation. \<open>serde_json\<close>, the date format
  and the text form of a task id are parameters.
\<close>

subsection \<open>The in-memory log\<close>

record MemoryEventLog =
  me_events :: "(instant \<times> TaskEvent) list"
  me_logs :: "LogLine list"
  max_events :: nat
  max_logs :: nat
  events_poisoned :: bool
  logs_poisoned :: bool

definition memory_log_new :: "nat \<Rightarrow> nat \<Rightarrow> MemoryEventLog" where
  "memory_log_new me ml = \<lparr>me_events = [], me_logs = [], max_events = me, max_logs = ml,
     events_poisoned = False, logs_poisoned = False\<rparr>"

definition get_events :: "MemoryEventLog \<Rightarrow> TaskEvent list" where
  "get_events lg = map snd (me_events lg)"

definition get_logs :: "MemoryEventLog \<Rightarrow> LogLine list" where
  "get_logs lg = me_logs lg"

primrec event_task :: "TaskEvent \<Rightarrow> TaskId" where
  "event_task (EvAcquired t _ _) = t"
| "event_task (EvStarted t _) = t"
| "event_task (EvCompleted t _) = t"
| "event_task (EvCancelled t) = t"
| "event_task (EvWillRetry t _ _) = t"
| "event_task (EvAbandoned t _) = t"
| "event_task (EvLeaseExpired t) = t"

definition get_events_by_task :: "TaskId \<Rightarrow> MemoryEventLog \<Rightarrow> TaskEvent list" where
  "get_events_by_task t lg = map snd (filter (\<lambda>(_, e). event_task e = t) (me_events lg))"

definition memory_clear :: "MemoryEventLog \<Rightarrow> MemoryEventLog" where
  "memory_clear lg = lg\<lparr>me_events := [], me_logs := []\<rparr>"

text \<open>\<open>while buf.len() > max { buf.pop_front(); }\<close>\<close>

fun evict :: "nat \<Rightarrow> 'a list \<Rightarrow> 'a list" where
  "evict limit [] = []"
| "evict limit (x # xs) = (if length (x # xs) > limit then evict limit xs else x # xs)"

definition memory_emit_event :: "instant \<Rightarrow> TaskEvent \<Rightarrow> (MemoryEventLog, CoreError, unit) op" where
  "memory_emit_event now e lg =
     (if events_poisoned lg then (Err (LockPoisoned ''event buffer''), lg)
      else (Ok (), lg\<lparr>me_events := evict (max_events lg) (me_events lg @ [(now, e)])\<rparr>))"

definition memory_emit_log :: "LogLine \<Rightarrow> (MemoryEventLog, CoreError, unit) op" where
  "memory_emit_log l lg =
     (if logs_poisoned lg then (Err (LockPoisoned ''log buffer''), lg)
      else (Ok (), lg\<lparr>me_logs := evict (max_logs lg) (me_logs lg @ [l])\<rparr>))"

lemma evict_drop: "evict n xs = drop (length xs - n) xs"
  by (induction xs) (auto simp: Suc_diff_le)

lemma drop_snoc_last:
  "drop (Suc (length (drop (length xs - n) xs)) - n) (drop (length xs - n) xs @ [x])
    = drop (Suc (length xs) - n) (xs @ [x])"
  by (cases "length xs < n") (auto simp: Suc_diff_le not_less)

fun emit_all :: "(instant \<times> TaskEvent) list \<Rightarrow> MemoryEventLog \<Rightarrow> MemoryEventLog" where
  "emit_all [] lg = lg"
| "emit_all ((now, e) # es) lg = emit_all es (snd (memory_emit_event now e lg))"

lemma emit_all_snoc: "emit_all (es @ [(now, e)]) lg = snd (memory_emit_event now e (emit_all es lg))"
  by (induction es lg rule: emit_all.induct) simp_all

lemma emit_all_state:
  "\<not> events_poisoned lg \<Longrightarrow> me_events lg = [] \<Longrightarrow>
    emit_all es lg = lg\<lparr>me_events := drop (length es - max_events lg) es\<rparr>"
proof (induction es rule: rev_induct)
  case (snoc x es)
  then have "emit_all es lg = lg\<lparr>me_events := drop (length es - max_events lg) es\<rparr>" by simp
  then show ?case using snoc.prems
    by (cases x) (simp only: emit_all_snoc, simp add: memory_emit_event_def evict_drop drop_snoc_last [simplified])
qed simp

text \<open>
  After any number of events the in-memory log holds exactly the \<open>max_events\<close> latest in
  emission order, and the query by task returns those of them that belong to the task.
\<close>

lemma memory_log_keeps_latest:
  "get_events (emit_all es (memory_log_new n m)) = map snd (drop (length es - n) es)
   \<and> length (get_events (emit_all es (memory_log_new n m))) = min n (length es)
   \<and> get_events_by_task t (emit_all es (memory_log_new n m))
       = filter (\<lambda>e. event_task e = t) (get_events (emit_all es (memory_log_new n m)))"
proof -
  have "emit_all es (memory_log_new n m) = (memory_log_new n m)\<lparr>me_events := drop (length es - n) es\<rparr>"
    using emit_all_state [of "memory_log_new n m" es] by (simp add: memory_log_new_def)
  then show ?thesis by (auto simp: get_events_def get_events_by_task_def filter_map comp_def split_def)
qed

subsection \<open>The SQLite log\<close>

record event_row =
  er_task_id :: string
  er_event_type :: string
  er_event_data :: string
  er_timestamp :: string

record log_row =
  lr_task_id :: string
  lr_seq :: u64
  lr_source :: string
  lr_content :: string
  lr_timestamp :: string

record SqliteEventLog =
  task_events :: "event_row list"
  log_lines :: "log_row list"
  conn_poisoned :: bool

record text_format =
  id_text :: "TaskId \<Rightarrow> string"
  event_json :: "TaskEvent \<Rightarrow> CoreError + string"
  json_event :: "string \<Rightarrow> CoreError + TaskEvent"
  rfc3339 :: "instant \<Rightarrow> string"

primrec event_type :: "TaskEvent \<Rightarrow> string" where
  "event_type (EvAcquired _ _ _) = ''Acquired''"
| "event_type (EvStarted _ _) = ''Started''"
| "event_type (EvCompleted _ _) = ''Completed''"
| "event_type (EvCancelled _) = ''Cancelled''"
| "event_type (EvWillRetry _ _ _) = ''WillRetry''"
| "event_type (EvAbandoned _ _) = ''Abandoned''"
| "event_type (EvLeaseExpired _) = ''LeaseExpired''"

definition sqlite_emit_event :: "text_format \<Rightarrow> CoreError option \<Rightarrow> instant \<Rightarrow> TaskEvent
    \<Rightarrow> (SqliteEventLog, CoreError, unit) op" where
  "sqlite_emit_event fmt db_error now e lg =
     (if conn_poisoned lg then (Err (LockPoisoned ''event log''), lg)
      else case event_json fmt e of
        Inl err \<Rightarrow> (Err err, lg)
      | Inr event_data \<Rightarrow>
          (case db_error of
             Some err \<Rightarrow> (Err err, lg)
           | None \<Rightarrow> (Ok (), lg\<lparr>task_events := task_events lg @
               [\<lparr>er_task_id = id_text fmt (event_task e), er_event_type = event_type e,
                 er_event_data = event_data, er_timestamp = rfc3339 fmt now\<rparr>]\<rparr>)))"

definition sqlite_emit_log :: "text_format \<Rightarrow> CoreError option \<Rightarrow> LogLine \<Rightarrow> (SqliteEventLog, CoreError, unit) op" where
  "sqlite_emit_log fmt db_error l lg =
     (if conn_poisoned lg then (Err (LockPoisoned ''event log''), lg)
      else case db_error of
        Some err \<Rightarrow> (Err err, lg)
      | None \<Rightarrow> (Ok (), lg\<lparr>log_lines := log_lines lg @
          [\<lparr>lr_task_id = id_text fmt (ll_task_id l), lr_seq = ll_seq l,
            lr_source = (case ll_source l of Stdout \<Rightarrow> ''Stdout'' | Stderr \<Rightarrow> ''Stderr''),
            lr_content = ll_content l, lr_timestamp = rfc3339 fmt (ll_timestamp l)\<rparr>]\<rparr>))"

text \<open>Decoding stops at the first corrupt row.\<close>

fun decode_rows :: "text_format \<Rightarrow> string list \<Rightarrow> CoreError + TaskEvent list" where
  "decode_rows fmt [] = Ok []"
| "decode_rows fmt (json # rest) =
     (case json_event fmt json of
        Inl _ \<Rightarrow> Err (Internal ''corrupt event JSON'')
      | Inr e \<Rightarrow> (case decode_rows fmt rest of Inl err \<Rightarrow> Err err | Inr es \<Rightarrow> Ok (e # es)))"

definition sqlite_get_events_by_task :: "text_format \<Rightarrow> CoreError option \<Rightarrow> TaskId \<Rightarrow> SqliteEventLog
    \<Rightarrow> CoreError + TaskEvent list" where
  "sqlite_get_events_by_task fmt db_error t lg =
     (if conn_poisoned lg then Err (LockPoisoned ''event log'')
      else case db_error of
        Some err \<Rightarrow> Err err
      | None \<Rightarrow> decode_rows fmt (map er_event_data
          (sort_key er_timestamp (filter (\<lambda>r. er_task_id r = id_text fmt t) (task_events lg)))))"

definition sqlite_get_logs_by_task :: "text_format \<Rightarrow> CoreError option \<Rightarrow> TaskId \<Rightarrow> SqliteEventLog
    \<Rightarrow> CoreError + LogLine list" where
  "sqlite_get_logs_by_task fmt db_error t lg =
     (if conn_poisoned lg then Err (LockPoisoned ''event log'')
      else case db_error of Some err \<Rightarrow> Err err | None \<Rightarrow> Ok [])"

text \<open>
  What the log relies on of the formats, for a list of events and a task that is asked for: an
  event's text can be read back, different ids have different texts, later dates sort as later.
\<close>

definition readable :: "text_format \<Rightarrow> TaskEvent \<Rightarrow> bool" where
  "readable fmt e \<longleftrightarrow> (case event_json fmt e of Inl _ \<Rightarrow> False | Inr s \<Rightarrow> json_event fmt s = Ok e)"

definition format_ok :: "text_format \<Rightarrow> (instant \<times> TaskEvent) list \<Rightarrow> TaskId \<Rightarrow> bool" where
  "format_ok fmt es t \<longleftrightarrow> inj_on (id_text fmt) (insert t (set (map (event_task \<circ> snd) es)))
     \<and> mono_on (set (map fst es)) (rfc3339 fmt) \<and> list_all (readable fmt \<circ> snd) es"

fun sqlite_emit_all :: "text_format \<Rightarrow> (instant \<times> TaskEvent) list \<Rightarrow> SqliteEventLog \<Rightarrow> SqliteEventLog" where
  "sqlite_emit_all fmt [] lg = lg"
| "sqlite_emit_all fmt ((now, e) # es) lg = sqlite_emit_all fmt es (snd (sqlite_emit_event fmt None now e lg))"

definition event_text :: "text_format \<Rightarrow> TaskEvent \<Rightarrow> string" where
  "event_text fmt e = (case event_json fmt e of Inr s \<Rightarrow> s | Inl _ \<Rightarrow> [])"

definition row_of :: "text_format \<Rightarrow> instant \<times> TaskEvent \<Rightarrow> event_row" where
  "row_of fmt x = \<lparr>er_task_id = id_text fmt (event_task (snd x)), er_event_type = event_type (snd x),
     er_event_data = event_text fmt (snd x), er_timestamp = rfc3339 fmt (fst x)\<rparr>"

lemma readableD:
  "readable fmt e \<Longrightarrow> event_json fmt e = Ok (event_text fmt e) \<and> json_event fmt (event_text fmt e) = Ok e"
  by (auto simp: readable_def event_text_def split: sum.splits)

lemma sorted_map_mono: "sorted xs \<Longrightarrow> mono_on (set xs) f \<Longrightarrow> sorted (map f xs)"
  by (induction xs) (auto intro: mono_onD mono_on_subset)

lemma sqlite_emit_all_rows:
  "list_all (readable fmt \<circ> snd) es \<Longrightarrow> \<not> conn_poisoned lg \<Longrightarrow>
    sqlite_emit_all fmt es lg = lg\<lparr>task_events := task_events lg @ map (row_of fmt) es\<rparr>"
proof (induction es arbitrary: lg)
  case (Cons x es)
  then show ?case by (cases x) (simp add: sqlite_emit_event_def readableD row_of_def)
qed simp

lemma decode_rows_text:
  "list_all (readable fmt) es \<Longrightarrow> decode_rows fmt (map (event_text fmt) es) = Ok es"
  by (induction es) (simp_all add: readableD)

text \<open>
  C26: events written to the SQLite log in chronological order are read back complete and in that
  order, task by task. Log lines are stored but never read back: the query returns none.
\<close>

theorem sqlite_log_roundtrip:
  assumes "format_ok fmt es t" and "sorted (map fst es)"
    and "lg = \<lparr>task_events = [], log_lines = lines, conn_poisoned = False\<rparr>"
  shows "sqlite_get_events_by_task fmt None t (sqlite_emit_all fmt es lg)
      = Ok (filter (\<lambda>e. event_task e = t) (map snd es))
    \<and> sqlite_get_logs_by_task fmt None t (snd (sqlite_emit_log fmt None l lg)) = Ok []"
proof -
  let ?es = "filter (\<lambda>x. event_task (snd x) = t) es"
  have ok: "list_all (readable fmt \<circ> snd) es" using assms(1) by (simp add: format_ok_def)
  have id: "id_text fmt (event_task (snd x)) = id_text fmt t \<longleftrightarrow> event_task (snd x) = t" if "x \<in> set es" for x
  proof -
    have "inj_on (id_text fmt) (insert t (set (map (event_task \<circ> snd) es)))"
      using assms(1) by (simp only: format_ok_def)
    moreover have "event_task (snd x) \<in> insert t (set (map (event_task \<circ> snd) es))" using that by simp
    ultimately show ?thesis by (rule inj_on_eq_iff) (rule insertI1)
  qed
  have rows: "filter (\<lambda>r. er_task_id r = id_text fmt t) (map (row_of fmt) es) = map (row_of fmt) ?es"
    using id by (simp add: filter_map comp_def row_of_def cong: filter_cong)
  have "sorted (map fst ?es)" using assms(2) by (rule sorted_filter)
  moreover have "mono_on (set (map fst ?es)) (rfc3339 fmt)"
    using assms(1) by (auto simp: format_ok_def intro: mono_on_subset)
  ultimately have "sorted (map (rfc3339 fmt) (map fst ?es))"
    by (intro sorted_map_mono)
  then have "sorted (map er_timestamp (map (row_of fmt) ?es))" by (simp add: comp_def row_of_def)
  then have "sort_key er_timestamp (map (row_of fmt) ?es) = map (row_of fmt) ?es"
    by (rule sort_key_id_if_sorted)
  moreover have "list_all (readable fmt) (map snd ?es)" using ok by (auto simp: list_all_iff)
  moreover have "er_event_data \<circ> row_of fmt = event_text fmt \<circ> snd" by (simp add: fun_eq_iff row_of_def)
  moreover have "filter (\<lambda>e. event_task e = t) (map snd es) = map snd ?es" by (simp add: filter_map comp_def)
  ultimately have "sqlite_get_events_by_task fmt None t (sqlite_emit_all fmt es lg)
      = Ok (filter (\<lambda>e. event_task e = t) (map snd es))"
    using assms(3) sqlite_emit_all_rows [OF ok, of lg] decode_rows_text [of fmt "map snd ?es"]
    by (simp only: sqlite_get_events_by_task_def rows) (simp add: rows [simplified])
  then show ?thesis using assms(3) by (simp add: sqlite_get_logs_by_task_def sqlite_emit_log_def)
qed

text \<open>A format for two events of one task.\<close>

definition two_event_format :: text_format where
  "two_event_format =
     \<lparr>id_text = (\<lambda>t. if t = TaskId 1 then ''1'' else ''2''),
      event_json = (\<lambda>e. Ok (case e of EvCancelled _ \<Rightarrow> ''c'' | _ \<Rightarrow> ''e'')),
      json_event = (\<lambda>s. Ok (if s = ''c'' then EvCancelled (TaskId 1) else EvLeaseExpired (TaskId 2))),
      rfc3339 = (\<lambda>i. if i \<le> 5 then ''05'' else ''06'')\<rparr>"

theorem sqlite_log_roundtrip_witness:
  "sqlite_get_events_by_task two_event_format None (TaskId 1)
      (sqlite_emit_all two_event_format [(5, EvLeaseExpired (TaskId 2)), (6, EvCancelled (TaskId 1))]
        \<lparr>task_events = [], log_lines = [], conn_poisoned = False\<rparr>)
    = Ok [EvCancelled (TaskId 1)]"
proof -
  let ?es = "[(5, EvLeaseExpired (TaskId 2)), (6, EvCancelled (TaskId 1))]"
  have "format_ok two_event_format ?es (TaskId 1)"
    by (auto simp: format_ok_def two_event_format_def readable_def mono_on_def)
  then show ?thesis
    using sqlite_log_roundtrip [of two_event_format ?es "TaskId 1" _ "[]" "log_line_new 0 (TaskId 1) 0 Stdout []"]
    by simp
qed

subsection \<open>The multi-sink\<close>

text \<open>The child sinks share a world \<open>'w\<close>; each is its \<open>emit_event\<close> operation.\<close>

fun multi_emit :: "('a \<Rightarrow> ('w, CoreError, unit) op) list \<Rightarrow> 'a \<Rightarrow> ('w, CoreError, unit) op" where
  "multi_emit [] e = returns ()"
| "multi_emit (sink # sinks) e = try_bind (sink e) (\<lambda>_. multi_emit sinks e)"

text \<open>
  The multi-sink stops at the first sink that fails: the sinks before it have the event, those
  after it never see it, and the error is returned.
\<close>

lemma multi_sink_stops:
  assumes "multi_emit before e w = (Ok (), w1)" and "sink e w1 = (Err err, w2)"
  shows "multi_emit (before @ sink # rest) e w = (Err err, w2)"
  using assms(1)
proof (induction before arbitrary: w)
  case Nil
  then show ?case using assms(2) by (simp add: try_bind_def)
next
  case (Cons s before)
  then show ?case by (auto simp: try_bind_def split: prod.splits sum.splits)
qed

end
