(* ===== verification/Transport.thy ===== *)
theory Transport
  imports CoreTypes Effects
begin

text \<open>
  The wire protocol: the frames of \<open>crates/transport/src/framing.rs\<close> and the messages of
  \<open>messages.rs\<close>. A stream is the bytes still to be read, how it ends after them, and the bytes
  written; \<open>serde_json\<close> is a parameter (\<open>ser\<close>, \<open>de\<close>).
\<close>

unbundle bit_operations_syntax

subsection \<open>Messages\<close>

record CacheLocation =
  cl_worker_id :: WorkerId
  cl_hostname :: string
  cl_path :: string

datatype CoordinatorRequest =
    RegisterNode WorkerId string ResourceAllocation bool
  | NodeHeartbeat WorkerId
  | Dequeue WorkerId
  | Requeue TaskId u32
  | Discard TaskId
  | InsertLease Lease
  | GetLease TaskId
  | UpdateLease Lease
  | RemoveLease TaskId
  | ActiveLeases
  | EmitEvent TaskEvent
  | EmitLog LogLine
  | QueryCache string
  | AnnounceCache string string

datatype CoordinatorResponse =
    ROk
  | Dequeued "TaskDescriptor option"
  | RLease "Lease option"
  | RLeases "Lease list"
  | CacheLocations "CacheLocation list"
  | RError string

subsection \<open>Streams and errors\<close>

datatype TransportError =
    TIo string
  | TSerialize string
  | ConnectionClosed
  | MessageTooLarge nat
  | TProtocol string

text \<open>Decimal text of a number, and the texts of the errors.\<close>

fun nat_text :: "nat \<Rightarrow> string" where
  "nat_text n = (if n < 10 then [char_of (48 + n)] else nat_text (n div 10) @ [char_of (48 + n mod 10)])"

declare nat_text.simps [simp del]

primrec transport_error_text :: "TransportError \<Rightarrow> string" where
  "transport_error_text (TIo e) = ''I/O error: '' @ e"
| "transport_error_text (TSerialize e) = ''Serialization error: '' @ e"
| "transport_error_text ConnectionClosed = ''Connection closed''"
| "transport_error_text (MessageTooLarge n) = ''Message too large: '' @ nat_text n @ '' bytes (max 16 MiB)''"
| "transport_error_text (TProtocol e) = ''Protocol error: '' @ e"

text \<open>\<open>ended = None\<close>: end of file; \<open>write_failure = Some (k, e)\<close>: the next write stops after \<open>k\<close> bytes.\<close>

record Stream =
  incoming :: "u8 list"
  ended :: "string option"
  outgoing :: "u8 list"
  write_failure :: "(nat \<times> string) option"

datatype read_error = UnexpectedEof | ReadIo string

definition read_exact :: "nat \<Rightarrow> (Stream, read_error, u8 list) op" where
  "read_exact n s =
     (if n \<le> length (incoming s) then (Ok (take n (incoming s)), s\<lparr>incoming := drop n (incoming s)\<rparr>)
      else (Err (case ended s of None \<Rightarrow> UnexpectedEof | Some e \<Rightarrow> ReadIo e), s\<lparr>incoming := []\<rparr>))"

definition write_all :: "u8 list \<Rightarrow> (Stream, TransportError, unit) op" where
  "write_all bytes s =
     (case write_failure s of
        None \<Rightarrow> (Ok (), s\<lparr>outgoing := outgoing s @ bytes\<rparr>)
      | Some (k, e) \<Rightarrow> (Err (TIo e), s\<lparr>outgoing := outgoing s @ take k bytes\<rparr>))"

subsection \<open>Frames\<close>

definition MAX_MESSAGE_BYTES :: nat where
  "MAX_MESSAGE_BYTES = 16 * 1024 * 1024"

definition to_le_bytes :: "u32 \<Rightarrow> u8 list" where
  "to_le_bytes n = [ucast n, ucast (drop_bit 8 n), ucast (drop_bit 16 n), ucast (drop_bit 24 n)]"

fun from_le_bytes :: "u8 list \<Rightarrow> u32" where
  "from_le_bytes [] = 0"
| "from_le_bytes (b # bs) = ucast b OR push_bit 8 (from_le_bytes bs)"

definition frame :: "u8 list \<Rightarrow> u8 list" where
  "frame json = to_le_bytes (word_of_nat (length json)) @ json"

definition send_message :: "('m \<Rightarrow> string + u8 list) \<Rightarrow> 'm \<Rightarrow> (Stream, TransportError, unit) op" where
  "send_message ser msg s =
     (case ser msg of
        Inl e \<Rightarrow> (Err (TSerialize e), s)
      | Inr json \<Rightarrow>
          if length json > MAX_MESSAGE_BYTES then (Err (MessageTooLarge (length json)), s)
          else write_all (frame json) s)"

definition recv_message :: "(u8 list \<Rightarrow> string + 'm) \<Rightarrow> (Stream, TransportError, 'm option) op" where
  "recv_message de s =
     (case read_exact 4 s of
        (Inl UnexpectedEof, s1) \<Rightarrow> (Ok None, s1)
      | (Inl (ReadIo e), s1) \<Rightarrow> (Err (TIo e), s1)
      | (Inr len_bytes, s1) \<Rightarrow>
          (let len = unat (from_le_bytes len_bytes) in
           if len > MAX_MESSAGE_BYTES then (Err (MessageTooLarge len), s1)
           else case read_exact len s1 of
             (Inl UnexpectedEof, s2) \<Rightarrow> (Err (TProtocol ''truncated frame''), s2)
           | (Inl (ReadIo e), s2) \<Rightarrow> (Err (TIo e), s2)
           | (Inr payload, s2) \<Rightarrow>
               (case de payload of Inl e \<Rightarrow> (Err (TSerialize e), s2) | Inr msg \<Rightarrow> (Ok (Some msg), s2))))"

subsection \<open>Little-endian lengths\<close>

lemma from_to_le_bytes [simp]: "from_le_bytes (to_le_bytes n) = n"
  unfolding to_le_bytes_def from_le_bytes.simps
proof (rule bit_word_eqI)
  fix i assume "i < LENGTH(32)"
  then consider "i < 8" | "8 \<le> i" "i < 16" | "16 \<le> i" "i < 24" | "24 \<le> i" "i < 32" by fastforce
  then show "bit (ucast (ucast n :: u8) OR push_bit 8 (ucast (ucast (drop_bit 8 n) :: u8) OR
      push_bit 8 (ucast (ucast (drop_bit 16 n) :: u8) OR
      push_bit 8 (ucast (ucast (drop_bit 24 n) :: u8) OR push_bit 8 0))) :: u32) i = bit n i"
    by cases (auto simp: bit_simps)
qed

lemma length_to_le_bytes [simp]: "length (to_le_bytes n) = 4"
  by (simp add: to_le_bytes_def)

lemma read_exact_append:
  "incoming s = xs @ ys \<Longrightarrow> length xs = n \<Longrightarrow> read_exact n s = (Ok xs, s\<lparr>incoming := ys\<rparr>)"
  by (simp add: read_exact_def)

text \<open>A frame that is wholly there is read as its payload, whatever follows.\<close>

lemma recv_frame:
  assumes "incoming s = frame json @ rest" and "length json \<le> MAX_MESSAGE_BYTES"
  shows "recv_message de s = (case de json of Inl e \<Rightarrow> Err (TSerialize e) | Inr msg \<Rightarrow> Ok (Some msg), s\<lparr>incoming := rest\<rparr>)"
proof -
  have "length json < 2 ^ 32" using assms(2) by (simp add: MAX_MESSAGE_BYTES_def)
  then have len: "unat (word_of_nat (length json) :: u32) = length json" by (simp add: unat_of_nat)
  have r1: "read_exact 4 s = (Ok (to_le_bytes (word_of_nat (length json))), s\<lparr>incoming := json @ rest\<rparr>)"
    by (rule read_exact_append) (simp_all add: assms(1) frame_def)
  have r2: "read_exact (length json) (s\<lparr>incoming := json @ rest\<rparr>) = (Ok json, s\<lparr>incoming := rest\<rparr>)"
    by (subst read_exact_append) simp_all
  show ?thesis using assms(2) by (simp add: recv_message_def r1 len r2 Let_def split: sum.split)
qed

fun send_all :: "('m \<Rightarrow> string + u8 list) \<Rightarrow> 'm list \<Rightarrow> Stream \<Rightarrow> Stream" where
  "send_all ser [] s = s"
| "send_all ser (m # ms) s = send_all ser ms (snd (send_message ser m s))"

fun recv_all :: "(u8 list \<Rightarrow> string + 'm) \<Rightarrow> nat \<Rightarrow> Stream \<Rightarrow> (TransportError + 'm option) list \<times> Stream" where
  "recv_all de 0 s = ([], s)"
| "recv_all de (Suc n) s =
     (case recv_message de s of (r, s1) \<Rightarrow> case recv_all de n s1 of (rs, s2) \<Rightarrow> (r # rs, s2))"

definition sendable :: "('m \<Rightarrow> string + u8 list) \<Rightarrow> (u8 list \<Rightarrow> string + 'm) \<Rightarrow> 'm \<Rightarrow> bool" where
  "sendable ser de m \<longleftrightarrow> (case ser m of
     Inl _ \<Rightarrow> False | Inr json \<Rightarrow> length json \<le> MAX_MESSAGE_BYTES \<and> de json = Ok m)"

definition payload :: "('m \<Rightarrow> string + u8 list) \<Rightarrow> 'm \<Rightarrow> u8 list" where
  "payload ser m = (case ser m of Inl _ \<Rightarrow> [] | Inr json \<Rightarrow> json)"

lemma sendableD:
  "sendable ser de m \<Longrightarrow> ser m = Ok (payload ser m) \<and> length (payload ser m) \<le> MAX_MESSAGE_BYTES
    \<and> de (payload ser m) = Ok m"
  by (auto simp: sendable_def payload_def split: sum.splits)

lemma send_all_frames:
  "list_all (sendable ser de) ms \<Longrightarrow> write_failure s = None \<Longrightarrow>
   send_all ser ms s = s\<lparr>outgoing := outgoing s @ concat (map (\<lambda>m. frame (payload ser m)) ms)\<rparr>"
proof (induction ms arbitrary: s)
  case (Cons m ms)
  then show ?case using sendableD [of ser de m] by (simp add: send_message_def write_all_def not_less)
qed simp

lemma recv_all_frames:
  "list_all (sendable ser de) ms \<Longrightarrow> incoming s = concat (map (\<lambda>m. frame (payload ser m)) ms) @ rest \<Longrightarrow>
   recv_all de (length ms) s = (map (\<lambda>m. Ok (Some m)) ms, s\<lparr>incoming := rest\<rparr>)"
proof (induction ms arbitrary: s)
  case (Cons m ms)
  then have "recv_message de s
      = (Ok (Some m), s\<lparr>incoming := concat (map (\<lambda>m. frame (payload ser m)) ms) @ rest\<rparr>)"
    using sendableD [of ser de m] recv_frame [of s "payload ser m" "concat (map (\<lambda>m. frame (payload ser m)) ms) @ rest" de]
    by simp
  then show ?case using Cons by simp
qed simp

text \<open>
  C27: messages whose encoding is within the limit and can be decoded arrive complete and in order
  on the other side, whatever bytes follow them; after the last one a closed connection reads as
  the end of the stream.
\<close>

theorem framing_roundtrip:
  assumes "list_all (sendable ser de) ms" and "outgoing s = []" and "write_failure s = None"
    and "incoming r = outgoing (send_all ser ms s) @ rest"
  shows "recv_all de (length ms) r = (map (\<lambda>m. Ok (Some m)) ms, r\<lparr>incoming := rest\<rparr>)
    \<and> (rest = [] \<and> ended r = None \<longrightarrow> recv_message de (r\<lparr>incoming := rest\<rparr>) = (Ok None, r\<lparr>incoming := []\<rparr>))"
proof -
  have "incoming r = concat (map (\<lambda>m. frame (payload ser m)) ms) @ rest"
    using assms send_all_frames [OF assms(1,3)] by simp
  from recv_all_frames [OF assms(1) this]
  show ?thesis by (simp add: recv_message_def read_exact_def)
qed

definition idle_stream :: Stream where
  "idle_stream = \<lparr>incoming = [], ended = None, outgoing = [], write_failure = None\<rparr>"

theorem framing_roundtrip_witness:
  "recv_all Ok 2 (idle_stream\<lparr>incoming := outgoing (send_all Ok [[1, 2, 3], []] idle_stream) @ [7]\<rparr>)
    = ([Ok (Some [1, 2, 3]), Ok (Some [])], idle_stream\<lparr>incoming := [7]\<rparr>)"
  using framing_roundtrip [of Ok Ok "[[1, 2, 3], []]" idle_stream
      "idle_stream\<lparr>incoming := outgoing (send_all Ok [[1, 2, 3], []] idle_stream) @ [7]\<rparr>" "[7]"]
  by (simp add: sendable_def MAX_MESSAGE_BYTES_def idle_stream_def numeral_2_eq_2 del: send_all.simps recv_all.simps)

text \<open>
  The receiver on damaged input, when the stream ends without an error. A length over the limit
  is refused and leaves the payload in the stream, so the next read starts inside it; a frame cut
  short in the payload is a protocol error; but a frame cut short inside the length prefix is
  reported as a clean end of the stream.
\<close>

lemma recv_damaged:
  "(incoming s = to_le_bytes n @ rest \<and> MAX_MESSAGE_BYTES < unat n \<longrightarrow>
      recv_message de s = (Err (MessageTooLarge (unat n)), s\<lparr>incoming := rest\<rparr>))
   \<and> (incoming s = to_le_bytes n @ rest \<and> unat n \<le> MAX_MESSAGE_BYTES \<and> length rest < unat n \<and> ended s = None \<longrightarrow>
      recv_message de s = (Err (TProtocol ''truncated frame''), s\<lparr>incoming := []\<rparr>))
   \<and> (length (incoming s) < 4 \<and> ended s = None \<longrightarrow> recv_message de s = (Ok None, s\<lparr>incoming := []\<rparr>))"
proof (intro conjI impI; elim conjE)
  assume s: "incoming s = to_le_bytes n @ rest"
  have r: "read_exact 4 s = (Ok (to_le_bytes n), s\<lparr>incoming := rest\<rparr>)"
    by (rule read_exact_append) (simp_all add: s)
  show "recv_message de s = (Err (MessageTooLarge (unat n)), s\<lparr>incoming := rest\<rparr>)"
    if "MAX_MESSAGE_BYTES < unat n"
    using that by (simp add: recv_message_def r Let_def)
  show "recv_message de s = (Err (TProtocol ''truncated frame''), s\<lparr>incoming := []\<rparr>)"
    if "unat n \<le> MAX_MESSAGE_BYTES" "length rest < unat n" "ended s = None"
  proof -
    have "read_exact (unat n) (s\<lparr>incoming := rest\<rparr>) = (Err UnexpectedEof, s\<lparr>incoming := []\<rparr>)"
      using that by (simp add: read_exact_def)
    then show ?thesis using that by (simp add: recv_message_def r Let_def)
  qed
qed (simp add: recv_message_def read_exact_def)

end
