(* ===== verification/Coordinator.thy ===== *)
theory Coordinator
  imports FakeWorker LeaseManager Transport
begin

text \<open>
  The coordinator: the stub scheduler of \<open>crates/scheduler/src/stub.rs\<close>, and of
  \<open>crates/coordinator/src\<close> the cache index, the node registry with its health probes, the shared
  state, the request handler, the connection loop and the reaper of \<open>server.rs\<close>. A request, the
  removal of a node and a round of the reaper are what they do when nothing runs in between; their
  single accesses to the shared maps are interleaved in \<open>CoordinatorThreads\<close>. The iteration orders
  and the clocks are the record \<open>Env\<close>. A monotonic \<open>Instant\<close> is a number of nanoseconds.
\<close>

subsection \<open>The stub scheduler\<close>

record StubScheduler =
  stub_queue :: "TaskDescriptor list"
  stub_poisoned :: bool

definition stub_new :: StubScheduler where
  "stub_new = \<lparr>stub_queue = [], stub_poisoned = False\<rparr>"

definition stub_error :: CoreError where
  "stub_error = Internal ''queue lock poisoned''"

definition stub_enqueue :: "TaskDescriptor \<Rightarrow> (StubScheduler, CoreError, unit) op" where
  "stub_enqueue task q =
     (if stub_poisoned q then (Err stub_error, q) else (Ok (), q\<lparr>stub_queue := stub_queue q @ [task]\<rparr>))"

definition stub_dequeue :: "WorkerId \<Rightarrow> (StubScheduler, CoreError, TaskDescriptor option) op" where
  "stub_dequeue worker q =
     (if stub_poisoned q then (Err stub_error, q)
      else case stub_queue q of [] \<Rightarrow> (Ok None, q) | task # rest \<Rightarrow> (Ok (Some task), q\<lparr>stub_queue := rest\<rparr>))"

definition stub_requeue :: "TaskId \<Rightarrow> u32 \<Rightarrow> (StubScheduler, CoreError, unit) op" where
  "stub_requeue t attempt q =
     (if stub_poisoned q then (Err stub_error, q)
      else case requeue_scan t attempt (stub_queue q) of
        None \<Rightarrow> (Ok (), q)
      | Some (q', copy) \<Rightarrow> (Ok (), q\<lparr>stub_queue := q' @ [copy]\<rparr>))"

definition stub_discard :: "TaskId \<Rightarrow> (StubScheduler, CoreError, unit) op" where
  "stub_discard t q = (Ok (), q)"

subsection \<open>The cache index\<close>

record CacheIndexEntry =
  ce_worker_id :: WorkerId
  ce_hostname :: string
  ce_path :: string

type_synonym CacheIndex = "(string, CacheIndexEntry list) fmap"

definition index_entries :: "CacheIndex \<Rightarrow> string \<Rightarrow> CacheIndexEntry list" where
  "index_entries ix key = (case fmlookup ix key of None \<Rightarrow> [] | Some es \<Rightarrow> es)"

definition index_announce :: "string \<Rightarrow> CacheIndexEntry \<Rightarrow> CacheIndex \<Rightarrow> CacheIndex" where
  "index_announce key entry ix = fmupd key (index_entries ix key @ [entry]) ix"

definition index_query :: "string \<Rightarrow> CacheIndex \<Rightarrow> CacheLocation list" where
  "index_query key ix =
     map (\<lambda>e. \<lparr>cl_worker_id = ce_worker_id e, cl_hostname = ce_hostname e, cl_path = ce_path e\<rparr>) (index_entries ix key)"

definition evict_node :: "WorkerId \<Rightarrow> CacheIndex \<Rightarrow> CacheIndex" where
  "evict_node w ix =
     (let kept = fmmap (filter (\<lambda>e. ce_worker_id e \<noteq> w)) ix
      in fmfilter (\<lambda>k. fmlookup kept k \<noteq> Some []) kept)"

subsection \<open>The node registry\<close>

datatype NodeHealth = Healthy | Degraded | Unhealthy

definition DEGRADED_THRESHOLD :: u32 where "DEGRADED_THRESHOLD = 1"
definition UNHEALTHY_THRESHOLD :: u32 where "UNHEALTHY_THRESHOLD = 3"

record NodeInfo =
  ni_worker_id :: WorkerId
  ni_hostname :: string
  ni_capacity :: ResourceAllocation
  ni_registered_at :: instant
  ni_is_production :: bool

record NodeRegistry =
  nr_nodes :: "(WorkerId, NodeInfo) fmap"
  nr_last_seen :: "(WorkerId, nat) fmap"
  nr_probe_failures :: "(WorkerId, u32) fmap"

definition registry_new :: NodeRegistry where
  "registry_new = \<lparr>nr_nodes = fmempty, nr_last_seen = fmempty, nr_probe_failures = fmempty\<rparr>"

definition registry_register :: "nat \<Rightarrow> NodeInfo \<Rightarrow> NodeRegistry \<Rightarrow> NodeRegistry" where
  "registry_register now info r =
     (let w = ni_worker_id info in
      \<lparr>nr_nodes = fmupd w info (nr_nodes r), nr_last_seen = fmupd w now (nr_last_seen r),
       nr_probe_failures = fmupd w 0 (nr_probe_failures r)\<rparr>)"

definition registry_heartbeat :: "nat \<Rightarrow> WorkerId \<Rightarrow> NodeRegistry \<Rightarrow> NodeRegistry" where
  "registry_heartbeat now w r = r\<lparr>nr_last_seen := fmupd w now (nr_last_seen r)\<rparr>"

definition stale_nodes :: "(WorkerId set \<Rightarrow> WorkerId list) \<Rightarrow> nat \<Rightarrow> duration \<Rightarrow> NodeRegistry \<Rightarrow> WorkerId list" where
  "stale_nodes ord now timeout r =
     filter (\<lambda>w. now - the (fmlookup (nr_last_seen r) w) > timeout) (ord (fmdom' (nr_last_seen r)))"

definition registry_remove :: "WorkerId \<Rightarrow> NodeRegistry \<Rightarrow> NodeRegistry" where
  "registry_remove w r =
     \<lparr>nr_nodes = fmdrop w (nr_nodes r), nr_last_seen = fmdrop w (nr_last_seen r),
      nr_probe_failures = fmdrop w (nr_probe_failures r)\<rparr>"

definition get_node_info :: "WorkerId \<Rightarrow> NodeRegistry \<Rightarrow> NodeInfo option" where
  "get_node_info w r = fmlookup (nr_nodes r) w"

definition all_nodes :: "(WorkerId set \<Rightarrow> WorkerId list) \<Rightarrow> NodeRegistry \<Rightarrow> NodeInfo list" where
  "all_nodes ord r = map (\<lambda>w. the (fmlookup (nr_nodes r) w)) (ord (fmdom' (nr_nodes r)))"

definition probe_failures_of :: "WorkerId \<Rightarrow> NodeRegistry \<Rightarrow> u32" where
  "probe_failures_of w r = (case fmlookup (nr_probe_failures r) w of None \<Rightarrow> 0 | Some n \<Rightarrow> n)"

definition record_probe_success :: "WorkerId \<Rightarrow> NodeRegistry \<Rightarrow> NodeRegistry" where
  "record_probe_success w r = r\<lparr>nr_probe_failures := fmupd w 0 (nr_probe_failures r)\<rparr>"

definition record_probe_failure :: "WorkerId \<Rightarrow> NodeRegistry \<Rightarrow> NodeRegistry" where
  "record_probe_failure w r =
     r\<lparr>nr_probe_failures := fmupd w (saturating_add (probe_failures_of w r) 1) (nr_probe_failures r)\<rparr>"

definition health_status :: "WorkerId \<Rightarrow> NodeRegistry \<Rightarrow> NodeHealth" where
  "health_status w r =
     (let failures = probe_failures_of w r in
      if failures \<ge> UNHEALTHY_THRESHOLD then Unhealthy
      else if failures \<ge> DEGRADED_THRESHOLD then Degraded
      else Healthy)"

definition unhealthy_nodes :: "(WorkerId set \<Rightarrow> WorkerId list) \<Rightarrow> NodeRegistry \<Rightarrow> WorkerId list" where
  "unhealthy_nodes ord r =
     filter (\<lambda>w. the (fmlookup (nr_probe_failures r) w) \<ge> UNHEALTHY_THRESHOLD) (ord (fmdom' (nr_probe_failures r)))"

subsection \<open>Health probes\<close>

text \<open>\<open>probe host\<close> is the result of the probe of a host; the port and the interval are the monitor's.\<close>

definition probe_node :: "(string \<Rightarrow> string + unit) \<Rightarrow> NodeInfo \<Rightarrow> NodeRegistry \<Rightarrow> NodeRegistry" where
  "probe_node probe info r =
     (case probe (ni_hostname info) of
        Inr _ \<Rightarrow> record_probe_success (ni_worker_id info) r
      | Inl _ \<Rightarrow> record_probe_failure (ni_worker_id info) r)"

definition probe_all :: "(WorkerId set \<Rightarrow> WorkerId list) \<Rightarrow> (string \<Rightarrow> string + unit) \<Rightarrow> NodeRegistry \<Rightarrow> NodeRegistry" where
  "probe_all ord probe r = fold (probe_node probe) (all_nodes ord r) r"

subsection \<open>The coordinator's state\<close>

record CoordinatorState =
  co_queue :: StubScheduler
  co_leases :: LeaseMap
  co_registry :: NodeRegistry
  co_cache :: CacheIndex

definition coordinator_new :: CoordinatorState where
  "coordinator_new = \<lparr>co_queue = stub_new, co_leases = fmempty, co_registry = registry_new, co_cache = fmempty\<rparr>"

definition on_queue :: "(StubScheduler, CoreError, 'a) op \<Rightarrow> (CoordinatorState, CoreError, 'a) op" where
  "on_queue m s = (case m (co_queue s) of (r, q) \<Rightarrow> (r, s\<lparr>co_queue := q\<rparr>))"

definition on_store :: "(LeaseMap, CoreError, 'a) op \<Rightarrow> (CoordinatorState, CoreError, 'a) op" where
  "on_store m s = (case m (co_leases s) of (r, l) \<Rightarrow> (r, s\<lparr>co_leases := l\<rparr>))"

subsection \<open>The request handler\<close>

record Env =
  env_id_text :: "TaskId \<Rightarrow> string"
  env_lease_order :: "TaskId set \<Rightarrow> TaskId list"
  env_node_order :: "WorkerId set \<Rightarrow> WorkerId list"
  env_utc :: instant
  env_now :: nat

definition error_response :: "Env \<Rightarrow> string \<Rightarrow> CoreError \<Rightarrow> CoordinatorResponse" where
  "error_response env prefix e = RError (prefix @ core_error_text (env_id_text env) e)"

definition respond :: "Env \<Rightarrow> string \<Rightarrow> ('a \<Rightarrow> CoordinatorResponse) \<Rightarrow> (CoordinatorState, CoreError, 'a) op
    \<Rightarrow> CoordinatorState \<Rightarrow> CoordinatorResponse \<times> CoordinatorState" where
  "respond env prefix ok m s =
     (case m s of (Inr x, s') \<Rightarrow> (ok x, s') | (Inl e, s') \<Rightarrow> (error_response env prefix e, s'))"

text \<open>The first component of the state is the worker the connection has registered.\<close>

fun handle_request :: "Env \<Rightarrow> CoordinatorRequest \<Rightarrow> WorkerId option \<times> CoordinatorState
    \<Rightarrow> CoordinatorResponse \<times> WorkerId option \<times> CoordinatorState" where
  "handle_request env (RegisterNode w hostname capacity is_production) (reg, s) =
     (ROk, Some w, s\<lparr>co_registry := registry_register (env_now env)
        \<lparr>ni_worker_id = w, ni_hostname = hostname, ni_capacity = capacity, ni_registered_at = env_utc env,
         ni_is_production = is_production\<rparr> (co_registry s)\<rparr>)"
| "handle_request env (NodeHeartbeat w) (reg, s) =
     (ROk, reg, s\<lparr>co_registry := registry_heartbeat (env_now env) w (co_registry s)\<rparr>)"
| "handle_request env (Dequeue w) (reg, s) =
     map_prod id (Pair reg) (respond env ''dequeue failed: '' Dequeued (on_queue (stub_dequeue w)) s)"
| "handle_request env (Requeue t attempt) (reg, s) =
     map_prod id (Pair reg) (respond env ''requeue failed: '' (\<lambda>_. ROk) (on_queue (stub_requeue t attempt)) s)"
| "handle_request env (Discard t) (reg, s) =
     map_prod id (Pair reg) (respond env ''discard failed: '' (\<lambda>_. ROk) (on_queue (stub_discard t)) s)"
| "handle_request env (InsertLease lease) (reg, s) =
     (case on_store (mem_insert lease) s of
        (Inr _, s') \<Rightarrow> (ROk, reg, s')
      | (Inl AlreadyLeased, s') \<Rightarrow> (RError ''already leased'', reg, s')
      | (Inl e, s') \<Rightarrow> (error_response env ''insert lease failed: '' e, reg, s'))"
| "handle_request env (GetLease t) (reg, s) =
     map_prod id (Pair reg) (respond env ''get lease failed: '' RLease (on_store (mem_get t)) s)"
| "handle_request env (UpdateLease lease) (reg, s) =
     map_prod id (Pair reg) (respond env ''update lease failed: '' (\<lambda>_. ROk) (on_store (mem_update lease)) s)"
| "handle_request env (RemoveLease t) (reg, s) =
     map_prod id (Pair reg) (respond env ''remove lease failed: '' (\<lambda>_. ROk) (on_store (mem_remove t)) s)"
| "handle_request env ActiveLeases (reg, s) =
     map_prod id (Pair reg) (respond env ''active leases failed: '' RLeases (on_store (mem_active (env_lease_order env))) s)"
| "handle_request env (EmitEvent e) (reg, s) = (ROk, reg, s)"
| "handle_request env (EmitLog l) (reg, s) = (ROk, reg, s)"
| "handle_request env (QueryCache key) (reg, s) = (CacheLocations (index_query key (co_cache s)), reg, s)"
| "handle_request env (AnnounceCache key path) (reg, s) =
     (case reg of
        None \<Rightarrow> (RError ''not registered'', reg, s)
      | Some w \<Rightarrow>
          (case get_node_info w (co_registry s) of
             None \<Rightarrow> (RError ''node not found'', reg, s)
           | Some info \<Rightarrow> (ROk, reg, s\<lparr>co_cache := index_announce key
               \<lparr>ce_worker_id = ni_worker_id info, ce_hostname = ni_hostname info, ce_path = path\<rparr> (co_cache s)\<rparr>)))"

subsection \<open>Connections\<close>

datatype CoordinatorError = CTransport string | CCore string | NodeNotFound string | CInternal string

definition forget_node :: "WorkerId \<Rightarrow> CoordinatorState \<Rightarrow> CoordinatorState" where
  "forget_node w s = s\<lparr>co_registry := registry_remove w (co_registry s), co_cache := evict_node w (co_cache s)\<rparr>"

definition deregister :: "WorkerId option \<Rightarrow> CoordinatorState \<Rightarrow> CoordinatorState" where
  "deregister reg s = (case reg of None \<Rightarrow> s | Some w \<Rightarrow> forget_node w s)"

record Connection =
  cn_stream :: Stream
  cn_registered :: "WorkerId option"

text \<open>One turn of the loop of \<open>handle_connection\<close>; \<open>None\<close>: the loop goes on.\<close>

definition connection_turn :: "Env \<Rightarrow> (CoordinatorResponse \<Rightarrow> string + u8 list) \<Rightarrow> (u8 list \<Rightarrow> string + CoordinatorRequest)
    \<Rightarrow> Connection \<times> CoordinatorState \<Rightarrow> (CoordinatorError + unit) option \<times> Connection \<times> CoordinatorState" where
  "connection_turn env ser de x =
     (case x of (c, s) \<Rightarrow>
        (case recv_message de (cn_stream c) of
           (Inr (Some req), st) \<Rightarrow>
             (case handle_request env req (cn_registered c, s) of
                (resp, reg, s') \<Rightarrow>
                  (case send_message ser resp st of
                     (Inr _, st') \<Rightarrow> (None, \<lparr>cn_stream = st', cn_registered = reg\<rparr>, s')
                   | (Inl e, st') \<Rightarrow> (Some (Err (CTransport (transport_error_text e))), \<lparr>cn_stream = st', cn_registered = reg\<rparr>, s')))
         | (Inr None, st) \<Rightarrow> (Some (Ok ()), c\<lparr>cn_stream := st\<rparr>, deregister (cn_registered c) s)
         | (Inl e, st) \<Rightarrow> (Some (Err (CTransport (transport_error_text e))), c\<lparr>cn_stream := st\<rparr>, deregister (cn_registered c) s)))"

subsection \<open>The reaper\<close>

text \<open>The result of a requeue is dropped, as is that of listing the leases, which cannot fail here.\<close>

definition requeue_leases :: "Env \<Rightarrow> WorkerId \<Rightarrow> CoordinatorState \<Rightarrow> CoordinatorState" where
  "requeue_leases env w s =
     (case on_store (mem_active (env_lease_order env)) s of
        (Inr leases, s') \<Rightarrow>
          fold (\<lambda>l s. if ls_worker_id l = w
                  then snd (on_queue (stub_requeue (ls_task_id l) (ls_attempt l + 1)) s) else s) leases s'
      | (Inl _, s') \<Rightarrow> s')"

definition reap_node :: "Env \<Rightarrow> WorkerId \<Rightarrow> CoordinatorState \<Rightarrow> CoordinatorState" where
  "reap_node env w s = forget_node w (requeue_leases env w s)"

definition node_reaper_tick :: "Env \<Rightarrow> duration \<Rightarrow> CoordinatorState \<Rightarrow> CoordinatorState" where
  "node_reaper_tick env timeout s =
     (let s1 = fold (reap_node env) (stale_nodes (env_node_order env) (env_now env) timeout (co_registry s)) s
      in fold (reap_node env) (unhealthy_nodes (env_node_order env) (co_registry s1)) s1)"

subsection \<open>The loop of a connection\<close>

lemma send_message_incoming: "incoming (snd (send_message ser m s)) = incoming s"
  by (auto simp: send_message_def write_all_def split: sum.split option.split)

lemma recv_message_consumes:
  "recv_message de s = (Ok (Some m), s') \<Longrightarrow> length (incoming s') < length (incoming s)"
  by (auto simp: recv_message_def read_exact_def Let_def split: if_splits sum.splits read_error.splits option.splits)

lemma turn_consumes:
  assumes "connection_turn env ser de (c, s) = (None, c', s')"
  shows "length (incoming (cn_stream c')) < length (incoming (cn_stream c))"
proof -
  obtain req st where r: "recv_message de (cn_stream c) = (Ok (Some req), st)"
    using assms by (auto simp: connection_turn_def split: prod.splits sum.splits option.splits)
  obtain resp reg s1 where h: "handle_request env req (cn_registered c, s) = (resp, reg, s1)"
    by (cases "handle_request env req (cn_registered c, s)")
  have "incoming (cn_stream c') = incoming st"
    using assms send_message_incoming [of ser resp st]
    by (auto simp: connection_turn_def r h split: prod.splits sum.splits)
  then show ?thesis using recv_message_consumes [OF r] by simp
qed

text \<open>The loop ends: every turn that goes on has consumed a frame.\<close>

function handle_connection :: "(nat \<Rightarrow> Env) \<Rightarrow> (CoordinatorResponse \<Rightarrow> string + u8 list)
    \<Rightarrow> (u8 list \<Rightarrow> string + CoordinatorRequest) \<Rightarrow> nat \<Rightarrow> Connection \<Rightarrow> CoordinatorState
    \<Rightarrow> (CoordinatorError + unit) \<times> Connection \<times> CoordinatorState" where
  "handle_connection envs ser de n c s =
     (case connection_turn (envs n) ser de (c, s) of
        (Some r, c', s') \<Rightarrow> (r, c', s')
      | (None, c', s') \<Rightarrow> handle_connection envs ser de (Suc n) c' s')"
  by pat_completeness auto
termination
  by (relation "measure (\<lambda>(envs, ser, de, n, c, s). length (incoming (cn_stream c)))") (auto intro: turn_consumes [OF sym])

declare handle_connection.simps [simp del]

end
