(* ===== verification/Node.thy ===== *)
theory Node
  imports WorkerRuntime Coordinator "HOL-Library.Sublist"
begin

text \<open>
  The worker node, \<open>crates/node/src\<close>: the connection to the coordinator, its reconnect and heartbeat
  loops, the lease store, queue, event sink and cache client that speak to the coordinator over it,
  and the runtime built on them. \<open>serde_json\<close> and the derived \<open>Debug\<close> text are parameters, and so is
  the other side of the connection: \<open>peer\<close> is what happens while the node waits for a response.
\<close>

subsection \<open>Errors\<close>

datatype NodeError =
    NConnection string
  | NTransport string
  | NCore string
  | RegistrationFailed string
  | NotRegistered
  | ReconnectionFailed u32

primrec node_error_text :: "NodeError \<Rightarrow> string" where
  "node_error_text (NConnection e) = ''Connection error: '' @ e"
| "node_error_text (NTransport e) = ''Transport error: '' @ e"
| "node_error_text (NCore e) = ''Core error: '' @ e"
| "node_error_text (RegistrationFailed e) = ''Registration failed: '' @ e"
| "node_error_text NotRegistered = ''Not registered''"
| "node_error_text (ReconnectionFailed n) = ''Reconnection failed after '' @ nat_text (unat n) @ '' attempts''"

subsection \<open>The connection\<close>

record Codec =
  ser_request :: "CoordinatorRequest \<Rightarrow> string + u8 list"
  de_request :: "u8 list \<Rightarrow> string + CoordinatorRequest"
  ser_response :: "CoordinatorResponse \<Rightarrow> string + u8 list"
  de_response :: "u8 list \<Rightarrow> string + CoordinatorResponse"

record NodeConnection =
  nc_transport :: "Stream option"
  nc_worker_id :: WorkerId
  nc_hostname :: string
  nc_capacity :: ResourceAllocation

text \<open>The node's world: its connection, the other side, and the resource monitor of its runtime.\<close>

record 'p NodeWorld =
  nw_conn :: NodeConnection
  nw_peer :: 'p
  nw_fake :: FakeWorker

type_synonym 'p peer = "Stream \<Rightarrow> 'p \<Rightarrow> Stream \<times> 'p"

text \<open>Sending a request and receiving its response, over a transport that is there.\<close>

definition exchange :: "Codec \<Rightarrow> 'p peer \<Rightarrow> CoordinatorRequest \<Rightarrow> Stream \<Rightarrow> 'p
    \<Rightarrow> (TransportError + CoordinatorResponse option) \<times> Stream \<times> 'p" where
  "exchange codec peer req tr p =
     (case send_message (ser_request codec) req tr of
        (Inl e, tr1) \<Rightarrow> (Err e, tr1, p)
      | (Inr _, tr1) \<Rightarrow>
          (case peer tr1 p of (tr2, p2) \<Rightarrow>
             (case recv_message (de_response codec) tr2 of (r, tr3) \<Rightarrow> (r, tr3, p2))))"

definition register_request :: "WorkerId \<Rightarrow> string \<Rightarrow> ResourceAllocation \<Rightarrow> CoordinatorRequest" where
  "register_request w hostname capacity = RegisterNode w hostname capacity False"

text \<open>\<open>dial\<close> opens a stream to the coordinator; \<open>debug\<close> is the \<open>Debug\<close> text of a response.\<close>

definition node_connect :: "Codec \<Rightarrow> 'p peer \<Rightarrow> (CoordinatorResponse option \<Rightarrow> string) \<Rightarrow> ('p \<Rightarrow> (string + Stream) \<times> 'p)
    \<Rightarrow> WorkerId \<Rightarrow> string \<Rightarrow> ResourceAllocation \<Rightarrow> ('p, NodeError, NodeConnection) op" where
  "node_connect codec peer debug dial w hostname capacity p =
     (case dial p of
        (Inl e, p1) \<Rightarrow> (Err (NConnection (''failed to connect: '' @ e)), p1)
      | (Inr tr, p1) \<Rightarrow>
          (case exchange codec peer (register_request w hostname capacity) tr p1 of
             (Inr (Some ROk), tr', p2) \<Rightarrow>
               (Ok \<lparr>nc_transport = Some tr', nc_worker_id = w, nc_hostname = hostname, nc_capacity = capacity\<rparr>, p2)
           | (Inr (Some (RError e)), tr', p2) \<Rightarrow> (Err (RegistrationFailed e), p2)
           | (Inr resp, tr', p2) \<Rightarrow> (Err (RegistrationFailed (''unexpected response: '' @ debug resp)), p2)
           | (Inl e, tr', p2) \<Rightarrow> (Err (NTransport (transport_error_text e)), p2)))"

definition node_request :: "Codec \<Rightarrow> 'p peer \<Rightarrow> CoordinatorRequest \<Rightarrow> ('p NodeWorld, NodeError, CoordinatorResponse) op" where
  "node_request codec peer req s =
     (case nc_transport (nw_conn s) of
        None \<Rightarrow> (Err NotRegistered, s)
      | Some tr \<Rightarrow>
          (case exchange codec peer req tr (nw_peer s) of
             (r, tr', p) \<Rightarrow>
               let keep = (\<lambda>t. s\<lparr>nw_conn := (nw_conn s)\<lparr>nc_transport := t\<rparr>, nw_peer := p\<rparr>) in
               (case r of
                  Inl e \<Rightarrow> (Err (NTransport (transport_error_text e)), keep (Some tr'))
                | Inr (Some resp) \<Rightarrow> (Ok resp, keep (Some tr'))
                | Inr None \<Rightarrow> (Err (NConnection ''connection closed by server''), keep None))))"

text \<open>
  One turn of the reconnect loop, with the backoff as it is before and after the turn. \<open>wait\<close> is a
  sleep, during which the rest of the system runs.
\<close>

definition max_reconnect_backoff :: duration where
  "max_reconnect_backoff = from_secs 30"

definition reconnect_turn :: "Codec \<Rightarrow> 'p peer \<Rightarrow> ('p \<Rightarrow> (string + Stream) \<times> 'p) \<Rightarrow> (duration \<Rightarrow> 'p NodeWorld \<Rightarrow> 'p NodeWorld)
    \<Rightarrow> duration \<times> 'p NodeWorld \<Rightarrow> duration \<times> 'p NodeWorld" where
  "reconnect_turn codec peer dial wait x =
     (case x of (backoff, s) \<Rightarrow>
        if nc_transport (nw_conn s) \<noteq> None then (backoff, wait (from_secs 5) s)
        else
          let s1 = wait backoff s;
              longer = min (backoff * 2) max_reconnect_backoff in
          (case dial (nw_peer s1) of
             (Inl _, p) \<Rightarrow> (longer, s1\<lparr>nw_peer := p\<rparr>)
           | (Inr tr, p) \<Rightarrow>
               (case exchange codec peer (register_request (nc_worker_id (nw_conn s1)) (nc_hostname (nw_conn s1))
                   (nc_capacity (nw_conn s1))) tr p of
                  (Inr (Some ROk), tr', p') \<Rightarrow>
                    (from_secs 1, s1\<lparr>nw_conn := (nw_conn s1)\<lparr>nc_transport := Some tr'\<rparr>, nw_peer := p'\<rparr>)
                | (_, _, p') \<Rightarrow> (longer, s1\<lparr>nw_peer := p'\<rparr>))))"

definition node_heartbeat_tick :: "Codec \<Rightarrow> 'p peer \<Rightarrow> 'p NodeWorld \<Rightarrow> 'p NodeWorld" where
  "node_heartbeat_tick codec peer s = snd (node_request codec peer (NodeHeartbeat (nc_worker_id (nw_conn s))) s)"

text \<open>\<open>hostname\<close> is the variable \<open>HOSTNAME\<close> of the environment; \<open>dial\<close> opens a stream to an address.\<close>

record WorkerNode =
  wn_worker_id :: WorkerId
  wn_coordinator_addr :: string
  wn_capacity :: ResourceAllocation
  wn_hostname :: string
  wn_heartbeat_interval :: duration

definition worker_node_new :: "WorkerId \<Rightarrow> string option \<Rightarrow> string \<Rightarrow> ResourceAllocation \<Rightarrow> WorkerNode" where
  "worker_node_new fresh hostname addr capacity =
     \<lparr>wn_worker_id = fresh, wn_coordinator_addr = addr, wn_capacity = capacity,
      wn_hostname = (case hostname of None \<Rightarrow> ''unknown'' | Some h \<Rightarrow> h), wn_heartbeat_interval = from_secs 5\<rparr>"

definition worker_node_connect :: "Codec \<Rightarrow> 'p peer \<Rightarrow> (CoordinatorResponse option \<Rightarrow> string)
    \<Rightarrow> (string \<Rightarrow> 'p \<Rightarrow> (string + Stream) \<times> 'p) \<Rightarrow> WorkerNode \<Rightarrow> ('p, NodeError, NodeConnection) op" where
  "worker_node_connect codec peer debug dial n =
     node_connect codec peer debug (dial (wn_coordinator_addr n)) (wn_worker_id n) (wn_hostname n) (wn_capacity n)"

subsection \<open>The clients of the connection\<close>

definition network_error :: "NodeError \<Rightarrow> CoreError" where
  "network_error e = Internal (''network error: '' @ node_error_text e)"

text \<open>
  The shape the clients share: \<open>expected\<close> picks the answer out of the response, an error response
  is passed to \<open>refused\<close>, any other response is unexpected.
\<close>

definition ask :: "('s, NodeError, CoordinatorResponse) op \<Rightarrow> string \<Rightarrow> (string \<Rightarrow> CoreError)
    \<Rightarrow> (CoordinatorResponse \<Rightarrow> 'a option) \<Rightarrow> ('s, CoreError, 'a) op" where
  "ask m what refused expected s =
     (case m s of
        (Inl e, s') \<Rightarrow> (Err (network_error e), s')
      | (Inr (RError e), s') \<Rightarrow> (Err (refused e), s')
      | (Inr resp, s') \<Rightarrow>
          (case expected resp of
             None \<Rightarrow> (Err (Internal (''unexpected response to '' @ what)), s')
           | Some x \<Rightarrow> (Ok x, s')))"

definition as_ok :: "CoordinatorResponse \<Rightarrow> unit option" where
  "as_ok r = (if r = ROk then Some () else None)"

definition refused_insert :: "string \<Rightarrow> CoreError" where
  "refused_insert e = (if sublist ''already'' e then AlreadyLeased else Internal e)"

definition net_insert :: "Codec \<Rightarrow> 'p peer \<Rightarrow> Lease \<Rightarrow> ('p NodeWorld, CoreError, unit) op" where
  "net_insert codec peer lease = ask (node_request codec peer (InsertLease lease)) ''insert lease'' refused_insert as_ok"

definition net_get :: "Codec \<Rightarrow> 'p peer \<Rightarrow> TaskId \<Rightarrow> ('p NodeWorld, CoreError, Lease option) op" where
  "net_get codec peer t = ask (node_request codec peer (GetLease t)) ''get lease'' Internal
     (\<lambda>r. case r of RLease l \<Rightarrow> Some l | _ \<Rightarrow> None)"

definition net_update :: "Codec \<Rightarrow> 'p peer \<Rightarrow> Lease \<Rightarrow> ('p NodeWorld, CoreError, unit) op" where
  "net_update codec peer lease = ask (node_request codec peer (UpdateLease lease)) ''update lease'' Internal as_ok"

definition net_remove :: "Codec \<Rightarrow> 'p peer \<Rightarrow> TaskId \<Rightarrow> ('p NodeWorld, CoreError, unit) op" where
  "net_remove codec peer t = ask (node_request codec peer (RemoveLease t)) ''remove lease'' Internal as_ok"

definition net_active :: "Codec \<Rightarrow> 'p peer \<Rightarrow> ('p NodeWorld, CoreError, Lease list) op" where
  "net_active codec peer = ask (node_request codec peer ActiveLeases) ''active leases'' Internal
     (\<lambda>r. case r of RLeases ls \<Rightarrow> Some ls | _ \<Rightarrow> None)"

definition net_store :: "Codec \<Rightarrow> 'p peer \<Rightarrow> 'p NodeWorld LeaseStoreOps" where
  "net_store codec peer = \<lparr>store_insert = net_insert codec peer, store_get = net_get codec peer,
     store_update = net_update codec peer, store_remove = net_remove codec peer, store_active = net_active codec peer\<rparr>"

definition net_dequeue :: "Codec \<Rightarrow> 'p peer \<Rightarrow> WorkerId \<Rightarrow> ('p NodeWorld, CoreError, TaskDescriptor option) op" where
  "net_dequeue codec peer w = ask (node_request codec peer (Dequeue w)) ''dequeue'' Internal
     (\<lambda>r. case r of Dequeued t \<Rightarrow> Some t | _ \<Rightarrow> None)"

definition net_requeue :: "Codec \<Rightarrow> 'p peer \<Rightarrow> TaskId \<Rightarrow> u32 \<Rightarrow> ('p NodeWorld, CoreError, unit) op" where
  "net_requeue codec peer t attempt = ask (node_request codec peer (Requeue t attempt)) ''requeue'' Internal as_ok"

definition net_discard :: "Codec \<Rightarrow> 'p peer \<Rightarrow> TaskId \<Rightarrow> ('p NodeWorld, CoreError, unit) op" where
  "net_discard codec peer t = ask (node_request codec peer (Discard t)) ''discard'' Internal as_ok"

definition net_queue :: "Codec \<Rightarrow> 'p peer \<Rightarrow> 'p NodeWorld QueueOps" where
  "net_queue codec peer = \<lparr>queue_dequeue = net_dequeue codec peer, queue_requeue = net_requeue codec peer,
     queue_discard = net_discard codec peer\<rparr>"

definition net_emit_event :: "Codec \<Rightarrow> 'p peer \<Rightarrow> TaskEvent \<Rightarrow> ('p NodeWorld, CoreError, unit) op" where
  "net_emit_event codec peer e s = (Ok (), snd (node_request codec peer (EmitEvent e) s))"

definition net_emit_log :: "Codec \<Rightarrow> 'p peer \<Rightarrow> LogLine \<Rightarrow> ('p NodeWorld, CoreError, unit) op" where
  "net_emit_log codec peer l s = (Ok (), snd (node_request codec peer (EmitLog l) s))"

definition ask_node :: "('s, NodeError, CoordinatorResponse) op \<Rightarrow> string \<Rightarrow> (CoordinatorResponse \<Rightarrow> 'a option)
    \<Rightarrow> ('s, NodeError, 'a) op" where
  "ask_node m what expected s =
     (case m s of
        (Inl e, s') \<Rightarrow> (Err e, s')
      | (Inr (RError e), s') \<Rightarrow> (Err (NCore e), s')
      | (Inr resp, s') \<Rightarrow>
          (case expected resp of
             None \<Rightarrow> (Err (NCore (''unexpected response to '' @ what)), s')
           | Some x \<Rightarrow> (Ok x, s')))"

definition query_locations :: "Codec \<Rightarrow> 'p peer \<Rightarrow> string \<Rightarrow> ('p NodeWorld, NodeError, CacheLocation list) op" where
  "query_locations codec peer key = ask_node (node_request codec peer (QueryCache key)) ''query cache''
     (\<lambda>r. case r of CacheLocations ls \<Rightarrow> Some ls | _ \<Rightarrow> None)"

definition announce_cache :: "Codec \<Rightarrow> 'p peer \<Rightarrow> string \<Rightarrow> string \<Rightarrow> ('p NodeWorld, NodeError, unit) op" where
  "announce_cache codec peer key path =
     ask_node (node_request codec peer (AnnounceCache key path)) ''announce cache'' as_ok"

subsection \<open>The node's runtime\<close>

definition on_monitor :: "(FakeWorker, CoreError, 'a) op \<Rightarrow> ('p NodeWorld, CoreError, 'a) op" where
  "on_monitor f s = (case f (nw_fake s) of (r, k) \<Rightarrow> (r, s\<lparr>nw_fake := k\<rparr>))"

definition node_runtime :: "Codec \<Rightarrow> 'p peer \<Rightarrow> WorkerId \<Rightarrow> (SpawnParams \<Rightarrow> ('p NodeWorld Worker, WorkerError, ExitOutcome) op)
    \<Rightarrow> (duration \<Rightarrow> 'p NodeWorld Worker \<Rightarrow> 'p NodeWorld Worker) \<Rightarrow> 'p NodeWorld Runtime" where
  "node_runtime codec peer w ex wt = runtime_new w (net_queue codec peer) (net_store codec peer)
     \<lparr>monitor_can_allocate = \<lambda>r. on_monitor (fake_can_allocate r), monitor_allocate = \<lambda>r. on_monitor (fake_allocate r),
      monitor_release = \<lambda>r. on_monitor (fake_release r)\<rparr>
     \<lparr>sink_event = net_emit_event codec peer, sink_log = net_emit_log codec peer\<rparr> ex wt"

lemma net_simps [simp]:
  "store_insert (net_store codec peer) = net_insert codec peer" "store_get (net_store codec peer) = net_get codec peer"
  "store_update (net_store codec peer) = net_update codec peer" "store_remove (net_store codec peer) = net_remove codec peer"
  "store_active (net_store codec peer) = net_active codec peer"
  "queue_dequeue (net_queue codec peer) = net_dequeue codec peer"
  "queue_requeue (net_queue codec peer) = net_requeue codec peer"
  "queue_discard (net_queue codec peer) = net_discard codec peer"
  by (simp_all add: net_store_def net_queue_def)

lemma node_runtime_simps [simp]:
  "rt_worker_id (node_runtime codec peer w ex wt) = w" "rt_queue (node_runtime codec peer w ex wt) = net_queue codec peer"
  "rt_leases (node_runtime codec peer w ex wt) = net_store codec peer"
  "monitor_can_allocate (rt_monitor (node_runtime codec peer w ex wt)) r = on_monitor (fake_can_allocate r)"
  "monitor_allocate (rt_monitor (node_runtime codec peer w ex wt)) r = on_monitor (fake_allocate r)"
  "monitor_release (rt_monitor (node_runtime codec peer w ex wt)) r = on_monitor (fake_release r)"
  "sink_event (rt_sink (node_runtime codec peer w ex wt)) e = net_emit_event codec peer e"
  "rt_execute (node_runtime codec peer w ex wt) = ex" "rt_wait (node_runtime codec peer w ex wt) = wt"
  "rt_lease_ttl (node_runtime codec peer w ex wt) = from_secs 30"
  by (simp_all add: node_runtime_def runtime_new_def)

end
