(* ===== verification/CoordinatorProperties.thy ===== *)
theory CoordinatorProperties
  imports Coordinator
begin

text \<open>
  Properties of the coordinator when its requests, rounds of the reaper and probes run one after the
  other: the invariant of its state, the exact effect of the reaper, what it does not recover,
  connections of one worker that overlap, and the answers of a whole connection.
  \<open>CoordinatorThreads\<close> interleaves their accesses.
\<close>

subsection \<open>The state invariant\<close>

definition registry_ok :: "NodeRegistry \<Rightarrow> bool" where
  "registry_ok r \<longleftrightarrow> (\<forall>w i. fmlookup (nr_nodes r) w = Some i \<longrightarrow> ni_worker_id i = w
     \<and> fmlookup (nr_last_seen r) w \<noteq> None \<and> fmlookup (nr_probe_failures r) w \<noteq> None)"

definition cache_ok :: "NodeRegistry \<Rightarrow> CacheIndex \<Rightarrow> bool" where
  "cache_ok r ix \<longleftrightarrow> (\<forall>k. fmlookup ix k \<noteq> Some [])
     \<and> (\<forall>k. \<forall>e \<in> set (index_entries ix k). fmlookup (nr_nodes r) (ce_worker_id e) \<noteq> None)"

definition coordinator_ok :: "CoordinatorState \<Rightarrow> bool" where
  "coordinator_ok s \<longleftrightarrow> registry_ok (co_registry s) \<and> cache_ok (co_registry s) (co_cache s) \<and> keyed (co_leases s)"

text \<open>
  What can happen, one at a time: a request on a connection that has registered \<open>reg\<close>, a connection that ends, a
  round of the reaper, the result of a probe (of a node as it was when the probing started), a task
  submitted to the queue.
\<close>

inductive coord_step :: "CoordinatorState \<Rightarrow> CoordinatorState \<Rightarrow> bool" where
  request: "handle_request env req (reg, s) = (resp, reg', s') \<Longrightarrow> coord_step s s'"
| disconnect: "coord_step s (deregister reg s)"
| reaper: "coord_step s (node_reaper_tick env timeout s)"
| probe: "coord_step s (s\<lparr>co_registry := probe_node probe info (co_registry s)\<rparr>)"
| submit: "coord_step s (snd (on_queue (stub_enqueue task) s))"

inductive coord_reachable :: "CoordinatorState \<Rightarrow> bool" where
  start: "coord_reachable coordinator_new"
| step: "coord_reachable s \<Longrightarrow> coord_step s s' \<Longrightarrow> coord_reachable s'"

lemma registry_ok_updates:
  assumes "registry_ok r"
  shows "registry_ok (registry_register now i r)" "registry_ok (registry_heartbeat now w r)"
    "registry_ok (registry_remove w r)" "registry_ok (record_probe_success w r)" "registry_ok (record_probe_failure w r)"
  using assms by (auto simp: registry_ok_def registry_register_def registry_heartbeat_def registry_remove_def
      record_probe_success_def record_probe_failure_def Let_def split: if_splits)

lemma index_entries_evict:
  "index_entries (evict_node w ix) k = filter (\<lambda>e. ce_worker_id e \<noteq> w) (index_entries ix k)"
  by (auto simp: index_entries_def evict_node_def Let_def split: option.splits)

lemma fmlookup_evict: "(\<And>k. fmlookup ix k \<noteq> Some []) \<Longrightarrow> fmlookup (evict_node w ix) k \<noteq> Some []"
  by (auto simp: evict_node_def Let_def)

lemma cache_ok_mono:
  "cache_ok r ix \<Longrightarrow> (\<And>w. fmlookup (nr_nodes r) w \<noteq> None \<Longrightarrow> fmlookup (nr_nodes r') w \<noteq> None) \<Longrightarrow> cache_ok r' ix"
  by (auto simp: cache_ok_def)

lemma cache_ok_evict: "cache_ok r ix \<Longrightarrow> cache_ok (registry_remove w r) (evict_node w ix)"
  by (auto simp: cache_ok_def index_entries_evict registry_remove_def fmlookup_evict)

lemma forget_node_ok: "coordinator_ok s \<Longrightarrow> coordinator_ok (forget_node w s)"
  by (simp add: coordinator_ok_def forget_node_def registry_ok_updates cache_ok_evict)

lemma probe_node_frame:
  "nr_nodes (probe_node probe info r) = nr_nodes r" "registry_ok r \<Longrightarrow> registry_ok (probe_node probe info r)"
  by (simp add: probe_node_def record_probe_success_def record_probe_failure_def split: sum.split)
    (auto simp: probe_node_def registry_ok_updates split: sum.split)

lemma on_queue_frame [simp]:
  "co_leases (snd (on_queue m s)) = co_leases s" "co_registry (snd (on_queue m s)) = co_registry s"
  "co_cache (snd (on_queue m s)) = co_cache s"
  by (simp_all add: on_queue_def split: prod.split)

lemma requeue_leases_frame [simp]:
  "co_leases (requeue_leases env w s) = co_leases s" "co_registry (requeue_leases env w s) = co_registry s"
  "co_cache (requeue_leases env w s) = co_cache s"
proof -
  let ?f = "\<lambda>(l::Lease) s. if ls_worker_id l = w
    then snd (on_queue (stub_requeue (ls_task_id l) (ls_attempt l + 1)) s) else s"
  have "co_leases (fold ?f ls s) = co_leases s \<and> co_registry (fold ?f ls s) = co_registry s
      \<and> co_cache (fold ?f ls s) = co_cache s" for ls :: "Lease list"
    by (induction ls arbitrary: s) simp_all
  then show "co_leases (requeue_leases env w s) = co_leases s" "co_registry (requeue_leases env w s) = co_registry s"
    "co_cache (requeue_leases env w s) = co_cache s"
    by (simp_all add: requeue_leases_def on_store_def mem_active_def)
qed

lemma reap_node_ok: "coordinator_ok s \<Longrightarrow> coordinator_ok (reap_node env w s)"
  unfolding reap_node_def by (rule forget_node_ok) (simp add: coordinator_ok_def)

lemma reap_nodes_ok: "coordinator_ok s \<Longrightarrow> coordinator_ok (fold (reap_node env) ws s)"
  by (induction ws arbitrary: s) (simp_all add: reap_node_ok)

lemma keyed_ops:
  "keyed m \<Longrightarrow> keyed (snd (mem_insert l m))" "keyed m \<Longrightarrow> keyed (snd (mem_update l m))"
  "keyed m \<Longrightarrow> keyed (snd (mem_remove t m))" "snd (mem_get t m) = m" "snd (mem_active ord m) = m"
  by (auto simp: keyed_def mem_insert_def mem_update_def mem_remove_def mem_get_def mem_active_def split: if_splits)

lemma on_store_snd: "snd (on_store m s) = s\<lparr>co_leases := snd (m (co_leases s))\<rparr>"
  by (simp add: on_store_def split: prod.split)

lemma respond_snd: "snd (respond env prefix ok m s) = snd (m s)"
  by (auto simp: respond_def split: prod.split sum.split)

lemma handle_request_state:
  "snd (snd (handle_request env req (reg, s))) =
    (case req of
       RegisterNode w h c p \<Rightarrow> s\<lparr>co_registry := registry_register (env_now env)
         \<lparr>ni_worker_id = w, ni_hostname = h, ni_capacity = c, ni_registered_at = env_utc env, ni_is_production = p\<rparr>
         (co_registry s)\<rparr>
     | NodeHeartbeat w \<Rightarrow> s\<lparr>co_registry := registry_heartbeat (env_now env) w (co_registry s)\<rparr>
     | Dequeue w \<Rightarrow> snd (on_queue (stub_dequeue w) s)
     | Requeue t n \<Rightarrow> snd (on_queue (stub_requeue t n) s)
     | InsertLease l \<Rightarrow> s\<lparr>co_leases := snd (mem_insert l (co_leases s))\<rparr>
     | UpdateLease l \<Rightarrow> s\<lparr>co_leases := snd (mem_update l (co_leases s))\<rparr>
     | RemoveLease t \<Rightarrow> s\<lparr>co_leases := snd (mem_remove t (co_leases s))\<rparr>
     | AnnounceCache key path \<Rightarrow>
         (case Option.bind reg (\<lambda>w. get_node_info w (co_registry s)) of
            None \<Rightarrow> s
          | Some info \<Rightarrow> s\<lparr>co_cache := index_announce key
              \<lparr>ce_worker_id = ni_worker_id info, ce_hostname = ni_hostname info, ce_path = path\<rparr> (co_cache s)\<rparr>)
     | _ \<Rightarrow> s)"
proof (cases req)
  case (InsertLease l)
  then show ?thesis by (auto simp: on_store_def mem_insert_def)
next
  case (Discard t)
  then show ?thesis by (simp add: respond_snd on_queue_def stub_discard_def)
next
  case (AnnounceCache key path)
  then show ?thesis by (cases reg) (auto split: option.split)
qed (simp_all add: respond_snd on_store_snd keyed_ops)

lemma coord_step_ok:
  assumes "coord_step s s'" and ok: "coordinator_ok s"
  shows "coordinator_ok s'"
  using assms(1)
proof cases
  case (request env req reg resp reg')
  have s': "s' = snd (snd (handle_request env req (reg, s)))" using request by simp
  note ok' = ok [unfolded coordinator_ok_def]
  show ?thesis
  proof (cases req)
    case (RegisterNode w h c p)
    let ?r = "registry_register (env_now env) \<lparr>ni_worker_id = w, ni_hostname = h, ni_capacity = c,
      ni_registered_at = env_utc env, ni_is_production = p\<rparr> (co_registry s)"
    have "cache_ok ?r (co_cache s)"
      by (rule cache_ok_mono [of "co_registry s"]) (use ok' in \<open>auto simp: registry_register_def Let_def\<close>)
    then show ?thesis using ok' by (simp add: s' RegisterNode coordinator_ok_def registry_ok_updates)
  next
    case (NodeHeartbeat w)
    have "cache_ok (registry_heartbeat (env_now env) w (co_registry s)) (co_cache s)"
      by (rule cache_ok_mono [of "co_registry s"]) (use ok' in \<open>auto simp: registry_heartbeat_def\<close>)
    then show ?thesis using ok'
      unfolding s' handle_request_state by (simp add: NodeHeartbeat coordinator_ok_def registry_ok_updates)
  next
    case (AnnounceCache key path)
    show ?thesis
    proof (cases "Option.bind reg (\<lambda>w. get_node_info w (co_registry s))")
      case None
      then show ?thesis using ok unfolding s' handle_request_state by (simp add: AnnounceCache)
    next
      case (Some info)
      then obtain w where w: "fmlookup (nr_nodes (co_registry s)) w = Some info"
        by (cases reg) (auto simp: get_node_info_def)
      then have "ni_worker_id info = w" using ok' by (simp add: registry_ok_def)
      then have "cache_ok (co_registry s) (index_announce key
          \<lparr>ce_worker_id = ni_worker_id info, ce_hostname = ni_hostname info, ce_path = path\<rparr> (co_cache s))"
        using ok' w by (auto simp: cache_ok_def index_announce_def index_entries_def split: if_splits option.splits)
      then show ?thesis using Some ok'
        unfolding s' handle_request_state by (simp add: AnnounceCache coordinator_ok_def)
    qed
  qed (use ok' in \<open>simp_all only: s' handle_request_state, simp_all add: coordinator_ok_def keyed_ops\<close>)
next
  case (disconnect reg)
  then show ?thesis using ok by (cases reg) (simp_all add: deregister_def forget_node_ok)
next
  case (reaper env timeout)
  then show ?thesis using ok by (simp add: node_reaper_tick_def Let_def reap_nodes_ok)
next
  case (probe probe info)
  have "cache_ok (probe_node probe info (co_registry s)) (co_cache s)"
    by (rule cache_ok_mono [of "co_registry s"]) (use ok in \<open>auto simp: coordinator_ok_def probe_node_frame\<close>)
  then show ?thesis using probe ok by (simp add: coordinator_ok_def probe_node_frame)
next
  case (submit task)
  then show ?thesis using ok by (simp add: coordinator_ok_def)
qed

lemma coord_reachable_ok: "coord_reachable s \<Longrightarrow> coordinator_ok s"
proof (induction rule: coord_reachable.induct)
  case start
  show ?case by (simp add: coordinator_ok_def coordinator_new_def registry_ok_def registry_new_def cache_ok_def
      index_entries_def keyed_def)
qed (rule coord_step_ok)

subsection \<open>The reaper\<close>

lemma reap_nodes_frame: "co_leases (fold (reap_node env) ws s) = co_leases s"
  by (induction ws arbitrary: s) (simp_all add: reap_node_def forget_node_def)

lemma reap_nodes_registry:
  "co_registry (fold (reap_node env) ws s) = fold registry_remove ws (co_registry s)"
  by (induction ws arbitrary: s) (simp_all add: reap_node_def forget_node_def)

lemma fold_remove_lookup:
  "fmlookup (nr_nodes (fold registry_remove ws r)) w = (if w \<in> set ws then None else fmlookup (nr_nodes r) w)"
  "fmlookup (nr_probe_failures (fold registry_remove ws r)) w = (if w \<in> set ws then None else fmlookup (nr_probe_failures r) w)"
  by (induction ws arbitrary: r) (auto simp: registry_remove_def)

definition is_stale :: "nat \<Rightarrow> duration \<Rightarrow> NodeRegistry \<Rightarrow> WorkerId \<Rightarrow> bool" where
  "is_stale now timeout r w \<longleftrightarrow> (case fmlookup (nr_last_seen r) w of None \<Rightarrow> False | Some t \<Rightarrow> now - t > timeout)"

text \<open>
  A round of the reaper forgets exactly the registered nodes that have been silent for longer
  than the timeout or have at least three probe failures in a row, keeps every other node as it is,
  and leaves all leases in place.
\<close>

lemma reaper_tick_nodes:
  assumes "hash_order (env_node_order env)"
  shows "get_node_info w (co_registry (node_reaper_tick env timeout s)) =
      (if is_stale (env_now env) timeout (co_registry s) w \<or> health_status w (co_registry s) = Unhealthy then None
       else get_node_info w (co_registry s))
    \<and> co_leases (node_reaper_tick env timeout s) = co_leases s"
proof -
  let ?r = "co_registry s"
  let ?stale = "stale_nodes (env_node_order env) (env_now env) timeout ?r"
  let ?s1 = "fold (reap_node env) ?stale s"
  let ?bad = "unhealthy_nodes (env_node_order env) (co_registry ?s1)"
  have stale: "v \<in> set ?stale \<longleftrightarrow> is_stale (env_now env) timeout ?r v" for v
    using assms by (auto simp: stale_nodes_def is_stale_def finite_fmdom' fmdom'_lookup split: option.splits)
  have "UNHEALTHY_THRESHOLD \<noteq> 0" "\<not> UNHEALTHY_THRESHOLD \<le> 0" by (simp_all add: UNHEALTHY_THRESHOLD_def)
  then have unhealthy: "health_status v r = Unhealthy
      \<longleftrightarrow> (\<exists>n. fmlookup (nr_probe_failures r) v = Some n \<and> UNHEALTHY_THRESHOLD \<le> n)" for v r
    by (auto simp: health_status_def probe_failures_of_def Let_def split: option.splits if_splits)
  have bad: "v \<in> set ?bad \<longleftrightarrow> v \<notin> set ?stale \<and> health_status v ?r = Unhealthy" for v
    using assms unfolding unhealthy
    by (auto simp: unhealthy_nodes_def reap_nodes_registry fold_remove_lookup finite_fmdom' fmdom'_lookup split: if_splits)
  have "get_node_info w (co_registry (node_reaper_tick env timeout s))
      = (if w \<in> set ?bad then None else if w \<in> set ?stale then None else get_node_info w ?r)"
    by (simp add: node_reaper_tick_def Let_def reap_nodes_registry fold_remove_lookup get_node_info_def)
  then show ?thesis using bad stale by (auto simp: node_reaper_tick_def Let_def reap_nodes_frame)
qed

text \<open>Requeueing never adds a task that is not queued.\<close>

lemma requeue_scan_ids:
  "requeue_scan t a q = Some (q', copy) \<Longrightarrow>
    td_task_id ` set q' = td_task_id ` set q \<and> td_task_id copy = t \<and> t \<in> td_task_id ` set q"
proof (induction q arbitrary: q')
  case (Cons x q)
  show ?case
  proof (cases "td_task_id x = t")
    case True
    then show ?thesis using Cons.prems by (auto simp: Let_def)
  next
    case False
    then obtain q1 where "requeue_scan t a q = Some (q1, copy)" "q' = x # q1" using Cons.prems by auto
    then show ?thesis using Cons.IH [of q1] by simp
  qed
qed simp

definition queued_ids :: "CoordinatorState \<Rightarrow> TaskId set" where
  "queued_ids s = td_task_id ` set (stub_queue (co_queue s))"

lemma queued_ids_requeue: "queued_ids (snd (on_queue (stub_requeue t a) s)) = queued_ids s"
  using requeue_scan_ids [of t a "stub_queue (co_queue s)"]
  by (auto simp: queued_ids_def on_queue_def stub_requeue_def split: option.split)

lemma queued_ids_requeue_leases: "queued_ids (requeue_leases env w s) = queued_ids s"
proof -
  have "queued_ids (fold (\<lambda>(l::Lease) s. if ls_worker_id l = w
    then snd (on_queue (stub_requeue (ls_task_id l) (ls_attempt l + 1)) s) else s) ls s) = queued_ids s" for ls
    by (induction ls arbitrary: s) (simp_all add: queued_ids_requeue)
  then show ?thesis by (simp add: requeue_leases_def on_store_def mem_active_def)
qed

lemma queued_ids_reap: "queued_ids (fold (reap_node env) ws s) = queued_ids s"
proof (induction ws arbitrary: s)
  case (Cons w ws)
  have "queued_ids (reap_node env w s) = queued_ids (requeue_leases env w s)"
    by (simp add: reap_node_def forget_node_def queued_ids_def)
  then show ?case using Cons by (simp add: queued_ids_requeue_leases)
qed simp

text \<open>
  The reaper gives no task of a dead node back: it never puts a task into the queue that is not
  queued already, and a task that was leased stays leased, so that no other node can take it.
\<close>

lemma reaper_recovers_nothing:
  assumes "fmlookup (co_leases s) (ls_task_id lease) \<noteq> None"
  shows "queued_ids (node_reaper_tick env timeout s) = queued_ids s
    \<and> fst (handle_request env' (InsertLease lease) (reg, node_reaper_tick env timeout s)) = RError ''already leased''"
  using assms
  by (simp add: node_reaper_tick_def Let_def queued_ids_reap on_store_def mem_insert_def reap_nodes_frame)

subsection \<open>Connections of one worker that overlap\<close>

text \<open>
  When a worker has registered on a second connection, the end of its first connection removes
  the new registration: its announcements are then refused, also after further heartbeats, although
  each heartbeat is acknowledged.
\<close>

lemma late_disconnect_evicts:
  assumes "s1 = snd (snd (handle_request env (RegisterNode w hostname capacity production) (None, s)))"
    and "s2 = deregister (Some w) s1"
    and "handle_request env' (NodeHeartbeat w) (Some w, s2) = (resp, reg, s3)"
  shows "resp = ROk \<and> handle_request env'' (AnnounceCache key path) (reg, s3) = (RError ''node not found'', reg, s3)"
  using assms by (auto simp: deregister_def forget_node_def registry_remove_def registry_heartbeat_def get_node_info_def)

subsection \<open>Leases that a request keeps\<close>

lemma handle_request_leases:
  assumes "fmlookup (co_leases s) t \<noteq> None" and "req \<noteq> RemoveLease t"
  shows "fmlookup (co_leases (snd (snd (handle_request env req (reg, s))))) t \<noteq> None"
proof (cases req)
  case (AnnounceCache key path)
  then show ?thesis using assms(1) unfolding handle_request_state by (auto split: option.split)
qed (use assms in \<open>auto simp only: handle_request_state,
    auto simp: mem_insert_def mem_update_def mem_remove_def\<close>)

subsection \<open>Whole connections\<close>

text \<open>What the requests alone do, one after the other.\<close>

fun run_requests :: "(nat \<Rightarrow> Env) \<Rightarrow> nat \<Rightarrow> CoordinatorRequest list \<Rightarrow> WorkerId option \<times> CoordinatorState
    \<Rightarrow> CoordinatorResponse list \<times> WorkerId option \<times> CoordinatorState" where
  "run_requests envs n [] x = ([], x)"
| "run_requests envs n (req # reqs) x =
     (case handle_request (envs n) req x of (resp, x') \<Rightarrow>
      case run_requests envs (Suc n) reqs x' of (resps, x'') \<Rightarrow> (resp # resps, x''))"

lemma turn_serves:
  assumes "incoming st = frame (payload serQ req) @ rest" and "write_failure st = None"
    and "sendable serQ deQ req" and "sendable serR deR resp"
    and "handle_request env req (reg, s) = (resp, reg', s')"
  shows "connection_turn env serR deQ (\<lparr>cn_stream = st, cn_registered = reg\<rparr>, s)
    = (None, \<lparr>cn_stream = st\<lparr>incoming := rest, outgoing := outgoing st @ frame (payload serR resp)\<rparr>,
              cn_registered = reg'\<rparr>, s')"
proof -
  have "recv_message deQ st = (Ok (Some req), st\<lparr>incoming := rest\<rparr>)"
    using recv_frame [of st "payload serQ req" rest deQ] sendableD [OF assms(3)] assms(1) by simp
  moreover have "send_message serR resp (st\<lparr>incoming := rest\<rparr>)
      = (Ok (), st\<lparr>incoming := rest, outgoing := outgoing st @ frame (payload serR resp)\<rparr>)"
    using sendableD [OF assms(4)] assms(2) by (simp add: send_message_def write_all_def)
  ultimately show ?thesis by (simp add: connection_turn_def assms(5))
qed

text \<open>
  C32: a connection that delivers the frames of some requests and then ends answers each with the
  frame of the handler's response, in order, and then forgets the worker that the requests have
  registered last.
\<close>

theorem connection_serves:
  assumes "list_all (sendable serQ deQ) reqs"
    and "run_requests envs n reqs (reg, s) = (resps, reg', s')"
    and "list_all (sendable serR deR) resps"
    and "incoming st = concat (map (\<lambda>m. frame (payload serQ m)) reqs)" and "ended st = None" and "write_failure st = None"
  shows "handle_connection envs serR deQ n \<lparr>cn_stream = st, cn_registered = reg\<rparr> s =
    (Ok (), \<lparr>cn_stream = st\<lparr>incoming := [], outgoing := outgoing st @ concat (map (\<lambda>m. frame (payload serR m)) resps)\<rparr>,
             cn_registered = reg'\<rparr>, deregister reg' s')"
  using assms
proof (induction reqs arbitrary: n reg s st resps)
  case Nil
  then show ?case
    by (subst handle_connection.simps) (auto simp: connection_turn_def recv_message_def read_exact_def)
next
  case (Cons req reqs)
  obtain resp reg1 s1 where h: "handle_request (envs n) req (reg, s) = (resp, reg1, s1)"
    by (cases "handle_request (envs n) req (reg, s)")
  obtain rs where rs: "run_requests envs (Suc n) reqs (reg1, s1) = (rs, reg', s')" "resps = resp # rs"
    using Cons.prems(2) h by (auto split: prod.splits)
  let ?rest = "concat (map (\<lambda>m. frame (payload serQ m)) reqs)"
  let ?st = "st\<lparr>incoming := ?rest, outgoing := outgoing st @ frame (payload serR resp)\<rparr>"
  have "connection_turn (envs n) serR deQ (\<lparr>cn_stream = st, cn_registered = reg\<rparr>, s)
      = (None, \<lparr>cn_stream = ?st, cn_registered = reg1\<rparr>, s1)"
    using turn_serves [OF _ Cons.prems(6) _ _ h, of serQ ?rest deQ serR deR] Cons.prems(1,3,4) rs(2) by simp
  then have "handle_connection envs serR deQ n \<lparr>cn_stream = st, cn_registered = reg\<rparr> s
      = handle_connection envs serR deQ (Suc n) \<lparr>cn_stream = ?st, cn_registered = reg1\<rparr> s1"
    by (subst handle_connection.simps) simp
  then show ?case
    using Cons.IH [of "Suc n" reg1 s1 rs ?st] Cons.prems rs by simp
qed

subsection \<open>Concrete runs\<close>

definition worker_order :: "WorkerId set \<Rightarrow> WorkerId list" where
  "worker_order S = map WorkerId (sorted_list_of_set {u. WorkerId u \<in> S})"

lemma hash_order_worker_order: "hash_order worker_order"
proof -
  have "finite {u. WorkerId u \<in> S}" if "finite S" for S
    using finite_vimageI [OF that, of WorkerId] by (simp add: inj_def vimage_def)
  moreover have "WorkerId ` {u. WorkerId u \<in> S} = S" for S
  proof (intro equalityI subsetI)
    fix w assume "w \<in> S"
    then show "w \<in> WorkerId ` {u. WorkerId u \<in> S}" by (cases w) auto
  qed auto
  ultimately show ?thesis by (simp add: hash_order_def worker_order_def distinct_map inj_on_def)
qed

definition example_env :: "nat \<Rightarrow> Env" where
  "example_env now = \<lparr>env_id_text = \<lambda>_. [], env_lease_order = sorted_list_of_set, env_node_order = worker_order,
     env_utc = int now, env_now = now\<rparr>"

definition example_register :: CoordinatorRequest where
  "example_register = RegisterNode (WorkerId 1) ''node'' default_allocation False"

definition example_announced :: CoordinatorState where
  "example_announced = snd (snd (handle_request (example_env 1) (AnnounceCache ''k'' ''/p'')
     (snd (handle_request (example_env 0) example_register (None, coordinator_new)))))"

text \<open>Two messages as single bytes.\<close>

definition request_byte :: "CoordinatorRequest \<Rightarrow> string + u8 list" where
  "request_byte req = Ok (if req = example_register then [1] else [2])"

definition byte_request :: "u8 list \<Rightarrow> string + CoordinatorRequest" where
  "byte_request bs = Ok (if bs = [1] then example_register else NodeHeartbeat (WorkerId 1))"

lemma announced_reachable: "coord_reachable example_announced"
proof -
  obtain r g s1 where 1: "handle_request (example_env 0) example_register (None, coordinator_new) = (r, g, s1)"
    by (cases "handle_request (example_env 0) example_register (None, coordinator_new)")
  obtain r' g' s2 where 2: "handle_request (example_env 1) (AnnounceCache ''k'' ''/p'') (g, s1) = (r', g', s2)"
    by (cases "handle_request (example_env 1) (AnnounceCache ''k'' ''/p'') (g, s1)")
  have "coord_reachable s2"
    by (rule coord_reachable.step [OF coord_reachable.step [OF coord_reachable.start coord_step.request [OF 1]]
          coord_step.request [OF 2]])
  then show ?thesis using 1 2 by (simp add: example_announced_def)
qed

theorem connection_serves_witness:
  "fst (handle_connection example_env (\<lambda>_. Ok [0]) byte_request 0
     \<lparr>cn_stream = idle_stream\<lparr>incoming := frame [1] @ frame [2]\<rparr>, cn_registered = None\<rparr> coordinator_new) = Ok ()"
proof -
  let ?reqs = "[example_register, NodeHeartbeat (WorkerId 1)]"
  have q: "list_all (sendable request_byte byte_request) ?reqs"
    by (simp add: sendable_def request_byte_def byte_request_def example_register_def MAX_MESSAGE_BYTES_def)
  obtain reg s where run: "run_requests example_env 0 ?reqs (None, coordinator_new) = ([ROk, ROk], reg, s)"
    by (simp add: example_register_def)
  have r: "list_all (sendable (\<lambda>_. Ok [0]) (\<lambda>_. Ok ROk)) [ROk, ROk]"
    by (simp add: sendable_def MAX_MESSAGE_BYTES_def)
  have p: "payload request_byte example_register = [1]" "payload request_byte (NodeHeartbeat (WorkerId 1)) = [2]"
    by (simp_all add: payload_def request_byte_def example_register_def)
  show ?thesis
    using connection_serves [OF q run r, of "idle_stream\<lparr>incoming := frame [1] @ frame [2]\<rparr>"]
    by (simp add: p idle_stream_def)
qed

end
