(* ===== verification/NodeNetwork.thy ===== *)
theory NodeNetwork
  imports Node CoordinatorProperties
begin

text \<open>
  Nodes and the coordinator together: what a request over the wire does compared with the handler
  alone, the lease store of a node as an exclusive store, tasks that a lost connection loses, and
  connections that are broken for good.
\<close>

subsection \<open>The coordinator at the other end\<close>

text \<open>
  \<open>cs_conn\<close> is the coordinator's end of the connection, until its loop ends; \<open>cs_turn\<close> counts the
  turns. The bytes the node has written are delivered, the loop makes a turn, and its answer is
  delivered back; when the loop has ended the socket is closed.
\<close>

record CoordinatorSide =
  cs_conn :: "Connection option"
  cs_state :: CoordinatorState
  cs_turn :: nat

definition coordinator_peer :: "(nat \<Rightarrow> Env) \<Rightarrow> Codec \<Rightarrow> CoordinatorSide peer" where
  "coordinator_peer envs codec tr p =
     (case cs_conn p of
        None \<Rightarrow> (tr\<lparr>outgoing := []\<rparr>, p)
      | Some c \<Rightarrow>
          (case connection_turn (envs (cs_turn p)) (ser_response codec) (de_request codec)
              (c\<lparr>cn_stream := (cn_stream c)\<lparr>incoming := incoming (cn_stream c) @ outgoing tr\<rparr>\<rparr>, cs_state p) of
             (r, c', s') \<Rightarrow>
               (tr\<lparr>incoming := incoming tr @ outgoing (cn_stream c'), outgoing := []\<rparr>,
                \<lparr>cs_conn = (if r = None then Some (c'\<lparr>cn_stream := (cn_stream c')\<lparr>outgoing := []\<rparr>\<rparr>) else None),
                 cs_state = s', cs_turn = Suc (cs_turn p)\<rparr>)))"

definition encodable :: "('m \<Rightarrow> string + u8 list) \<Rightarrow> 'm \<Rightarrow> bool" where
  "encodable ser m \<longleftrightarrow> (case ser m of Inl _ \<Rightarrow> False | Inr json \<Rightarrow> length json \<le> MAX_MESSAGE_BYTES)"

text \<open>
  What is expected of the encoding, message by message: \<open>reads_back\<close> when the text of a message is not
  read as another message, and \<open>arrives\<close> when it is read as the message wherever it can be sent. A
  number that is not finite is written as \<open>null\<close> and then refused, and another one may be read as its
  neighbour, so not every message arrives or is read back.
\<close>

definition reads_back :: "('m \<Rightarrow> string + u8 list) \<Rightarrow> (u8 list \<Rightarrow> string + 'm) \<Rightarrow> 'm \<Rightarrow> bool" where
  "reads_back ser de m \<longleftrightarrow> (\<forall>json m'. ser m = Ok json \<longrightarrow> de json = Ok m' \<longrightarrow> m' = m)"

definition arrives :: "('m \<Rightarrow> string + u8 list) \<Rightarrow> (u8 list \<Rightarrow> string + 'm) \<Rightarrow> 'm \<Rightarrow> bool" where
  "arrives ser de m \<longleftrightarrow> (encodable ser m \<longrightarrow> sendable ser de m)"

text \<open>The messages of a runtime arrive; they hold no floating-point numbers.\<close>

definition codec_ok :: "Codec \<Rightarrow> bool" where
  "codec_ok codec \<longleftrightarrow> (\<forall>l. arrives (ser_request codec) (de_request codec) (InsertLease l))
     \<and> (\<forall>e. arrives (ser_request codec) (de_request codec) (EmitEvent e))
     \<and> (\<forall>t n. arrives (ser_request codec) (de_request codec) (Requeue t n))
     \<and> sendable (ser_response codec) (de_response codec) ROk
     \<and> (\<forall>e. length e \<le> 1000 \<longrightarrow> sendable (ser_response codec) (de_response codec) (RError e))"

lemma sendable_encodable: "sendable ser de m \<Longrightarrow> encodable ser m"
  by (auto simp: encodable_def sendable_def split: sum.splits)

lemma not_sendable: "reads_back ser de m \<Longrightarrow> encodable ser m \<Longrightarrow> \<not> sendable ser de m \<Longrightarrow> \<exists>e. de (payload ser m) = Err e"
  by (cases "de (payload ser m)") (auto simp: reads_back_def encodable_def sendable_def payload_def split: sum.splits)

lemma payload_length: "encodable ser m \<Longrightarrow> length (payload ser m) \<le> MAX_MESSAGE_BYTES"
  by (auto simp: encodable_def payload_def split: sum.splits)

text \<open>Both ends are idle.\<close>

definition linked :: "CoordinatorSide NodeWorld \<Rightarrow> WorkerId option \<Rightarrow> bool" where
  "linked s reg \<longleftrightarrow> nc_transport (nw_conn s) = Some idle_stream
     \<and> cs_conn (nw_peer s) = Some \<lparr>cn_stream = idle_stream, cn_registered = reg\<rparr>"

lemma idle_stream_simps [simp]:
  "incoming idle_stream = []" "ended idle_stream = None" "outgoing idle_stream = []" "write_failure idle_stream = None"
  by (simp_all add: idle_stream_def)

lemma idle_stream_again [simp]:
  "idle_stream\<lparr>incoming := []\<rparr> = idle_stream" "idle_stream\<lparr>outgoing := []\<rparr> = idle_stream"
  "idle_stream\<lparr>incoming := x, outgoing := []\<rparr> = idle_stream\<lparr>incoming := x\<rparr>"
  by (simp_all add: idle_stream_def)

lemma send_message_encodable: "encodable ser m \<Longrightarrow> write_failure st = None \<Longrightarrow>
    send_message ser m st = (Ok (), st\<lparr>outgoing := outgoing st @ frame (payload ser m)\<rparr>)"
  by (auto simp: encodable_def send_message_def write_all_def payload_def split: sum.splits)

lemma send_message_not_encodable: "\<not> encodable ser m \<Longrightarrow> \<exists>e. send_message ser m st = (Err e, st)"
  by (auto simp: encodable_def send_message_def split: sum.splits)

lemma recv_payload:
  "encodable ser m \<Longrightarrow> recv_message de (idle_stream\<lparr>incoming := frame (payload ser m)\<rparr>)
    = (case de (payload ser m) of Inl e \<Rightarrow> Err (TSerialize e) | Inr m' \<Rightarrow> Ok (Some m'), idle_stream)"
  using recv_frame [of "idle_stream\<lparr>incoming := frame (payload ser m)\<rparr>" "payload ser m" "[]" de] payload_length [of ser m] by simp

lemma recv_closed: "recv_message de idle_stream = (Ok None, idle_stream)"
  by (simp add: recv_message_def read_exact_def)

text \<open>What can happen to a request over idle ends once it has been written.\<close>

lemma exchange_linked:
  assumes conn: "cs_conn p = Some \<lparr>cn_stream = idle_stream, cn_registered = reg\<rparr>"
    and h: "handle_request (envs (cs_turn p)) req (reg, cs_state p) = (resp, reg', s')"
    and q: "encodable (ser_request codec) req"
    and rq: "reads_back (ser_request codec) (de_request codec) req"
    and rr: "reads_back (ser_response codec) (de_response codec) resp"
  shows "\<exists>e. exchange codec (coordinator_peer envs codec) req idle_stream p =
    (if \<not> sendable (ser_request codec) (de_request codec) req
     then (Ok None, idle_stream, \<lparr>cs_conn = None, cs_state = deregister reg (cs_state p), cs_turn = Suc (cs_turn p)\<rparr>)
     else if \<not> encodable (ser_response codec) resp
     then (Ok None, idle_stream, \<lparr>cs_conn = None, cs_state = s', cs_turn = Suc (cs_turn p)\<rparr>)
     else (if sendable (ser_response codec) (de_response codec) resp then Ok (Some resp) else Err (TSerialize e), idle_stream,
           \<lparr>cs_conn = Some \<lparr>cn_stream = idle_stream, cn_registered = reg'\<rparr>, cs_state = s', cs_turn = Suc (cs_turn p)\<rparr>))"
proof -
  let ?q = "frame (payload (ser_request codec) req)" and ?r = "frame (payload (ser_response codec) resp)"
  have turn: "connection_turn (envs (cs_turn p)) (ser_response codec) (de_request codec)
      (\<lparr>cn_stream = idle_stream\<lparr>incoming := ?q\<rparr>, cn_registered = reg\<rparr>, cs_state p)
    = (if \<not> sendable (ser_request codec) (de_request codec) req
       then (Some (Err (CTransport (transport_error_text (projl (fst (recv_message (de_request codec) (idle_stream\<lparr>incoming := ?q\<rparr>))))))),
             \<lparr>cn_stream = idle_stream, cn_registered = reg\<rparr>, deregister reg (cs_state p))
       else if encodable (ser_response codec) resp
       then (None, \<lparr>cn_stream = idle_stream\<lparr>outgoing := ?r\<rparr>, cn_registered = reg'\<rparr>, s')
       else (Some (Err (CTransport (transport_error_text (projl (fst (send_message (ser_response codec) resp idle_stream)))))),
             \<lparr>cn_stream = idle_stream, cn_registered = reg'\<rparr>, s'))"
  proof (cases "sendable (ser_request codec) (de_request codec) req")
    case True
    then have "recv_message (de_request codec) (idle_stream\<lparr>incoming := ?q\<rparr>) = (Ok (Some req), idle_stream)"
      using recv_payload [OF q, of "de_request codec"] sendableD [OF True] by simp
    then show ?thesis
      using True h send_message_encodable [of "ser_response codec" resp idle_stream]
        send_message_not_encodable [of "ser_response codec" resp idle_stream]
      by (auto simp: connection_turn_def)
  next
    case False
    then show ?thesis using recv_payload [OF q, of "de_request codec"] not_sendable [OF rq q False]
      by (auto simp: connection_turn_def)
  qed
  have read: "\<exists>e. recv_message (de_response codec) (idle_stream\<lparr>incoming := ?r\<rparr>)
      = (if sendable (ser_response codec) (de_response codec) resp then Ok (Some resp) else Err (TSerialize e), idle_stream)"
    if "encodable (ser_response codec) resp"
    using recv_payload [OF that, of "de_response codec"] not_sendable [OF rr that]
    by (cases "sendable (ser_response codec) (de_response codec) resp") (auto dest: sendableD)
  show ?thesis
    using read by (auto simp: exchange_def send_message_encodable q coordinator_peer_def conn turn recv_closed)
qed

definition after :: "CoordinatorSide NodeWorld \<Rightarrow> WorkerId option \<Rightarrow> CoordinatorState \<Rightarrow> CoordinatorSide NodeWorld" where
  "after s reg' s' = s\<lparr>nw_peer := \<lparr>cs_conn = Some \<lparr>cn_stream = idle_stream, cn_registered = reg'\<rparr>, cs_state = s',
     cs_turn = Suc (cs_turn (nw_peer s))\<rparr>\<rparr>"

lemma linked_after: "linked s reg \<Longrightarrow> linked (after s reg' s') reg'"
  by (simp add: linked_def after_def)

subsection \<open>A request over the wire\<close>

lemma node_request_not_encodable:
  assumes "linked s reg" and "\<not> encodable (ser_request codec) req"
  shows "\<exists>e. node_request codec peer req s = (Err (NTransport e), s)"
  using assms send_message_not_encodable [OF assms(2), of idle_stream]
  by (auto simp: node_request_def linked_def exchange_def)

lemma node_request_outcome:
  assumes l: "linked s reg"
    and h: "handle_request (envs (cs_turn (nw_peer s))) req (reg, cs_state (nw_peer s)) = (resp, reg', s')"
    and rq: "reads_back (ser_request codec) (de_request codec) req"
    and rr: "reads_back (ser_response codec) (de_response codec) resp"
  shows "\<exists>e. node_request codec (coordinator_peer envs codec) req s =
    (if \<not> encodable (ser_request codec) req then (Err (NTransport e), s)
     else if \<not> sendable (ser_request codec) (de_request codec) req
     then (Err (NConnection ''connection closed by server''), s\<lparr>nw_conn := (nw_conn s)\<lparr>nc_transport := None\<rparr>,
           nw_peer := \<lparr>cs_conn = None, cs_state = deregister reg (cs_state (nw_peer s)), cs_turn = Suc (cs_turn (nw_peer s))\<rparr>\<rparr>)
     else if \<not> encodable (ser_response codec) resp
     then (Err (NConnection ''connection closed by server''), s\<lparr>nw_conn := (nw_conn s)\<lparr>nc_transport := None\<rparr>,
           nw_peer := \<lparr>cs_conn = None, cs_state = s', cs_turn = Suc (cs_turn (nw_peer s))\<rparr>\<rparr>)
     else (if sendable (ser_response codec) (de_response codec) resp then Ok resp else Err (NTransport e), after s reg' s'))"
proof (cases "encodable (ser_request codec) req")
  case False
  then show ?thesis using node_request_not_encodable [OF l False, of "coordinator_peer envs codec"] by simp
next
  case True
  have conn: "cs_conn (nw_peer s) = Some \<lparr>cn_stream = idle_stream, cn_registered = reg\<rparr>"
    and tr: "nc_transport (nw_conn s) = Some idle_stream" using l by (simp_all add: linked_def)
  have same: "(nw_conn s)\<lparr>nc_transport := Some idle_stream\<rparr> = nw_conn s" using tr by simp
  show ?thesis
    using exchange_linked [where envs = envs and codec = codec, OF conn h True rq rr] True tr
    by (auto simp: node_request_def Let_def after_def same)
qed

lemma node_request_linked:
  assumes "linked s reg"
    and "handle_request (envs (cs_turn (nw_peer s))) req (reg, cs_state (nw_peer s)) = (resp, reg', s')"
    and q: "sendable (ser_request codec) (de_request codec) req" and r: "sendable (ser_response codec) (de_response codec) resp"
  shows "node_request codec (coordinator_peer envs codec) req s = (Ok resp, after s reg' s')"
proof -
  have "reads_back (ser_request codec) (de_request codec) req" "reads_back (ser_response codec) (de_response codec) resp"
    using q r by (auto simp: reads_back_def sendable_def split: sum.splits)
  from node_request_outcome [where envs = envs, OF assms(1,2) this] show ?thesis using q r sendable_encodable [OF q] sendable_encodable [OF r] by auto
qed

text \<open>
  C33: a request over an idle connection whose text is read by the coordinator as the request does
  there what the handler alone does with it, and its response is returned when it is read back.
  There are four ways to fail. A request that cannot be written, or is too large, changes nothing. One
  that the coordinator cannot read makes it forget the worker and end the connection. When the
  answer is too large to be sent, the request has been carried out while the node is told that the
  connection is closed, which it then is; the node stays registered. And when the node cannot read
  the answer, the request has been carried out, a transport error is reported and the connection
  stays.
\<close>

theorem network_request_exact:
  assumes "linked s reg"
    and "handle_request (envs (cs_turn (nw_peer s))) req (reg, cs_state (nw_peer s)) = (resp, reg', s')"
    and "reads_back (ser_request codec) (de_request codec) req"
    and "reads_back (ser_response codec) (de_response codec) resp"
  shows "case node_request codec (coordinator_peer envs codec) req s of (r, t) \<Rightarrow>
    if \<not> encodable (ser_request codec) req then t = s \<and> (\<exists>e. r = Err (NTransport e))
    else if \<not> sendable (ser_request codec) (de_request codec) req
    then r = Err (NConnection ''connection closed by server'') \<and> cs_state (nw_peer t) = deregister reg (cs_state (nw_peer s))
      \<and> nc_transport (nw_conn t) = None \<and> cs_conn (nw_peer t) = None
    else cs_state (nw_peer t) = s'
      \<and> (if \<not> encodable (ser_response codec) resp
         then r = Err (NConnection ''connection closed by server'') \<and> nc_transport (nw_conn t) = None \<and> cs_conn (nw_peer t) = None
         else linked t reg'
           \<and> (if sendable (ser_response codec) (de_response codec) resp then r = Ok resp else (\<exists>e. r = Err (NTransport e))))"
  using node_request_outcome [where envs = envs, OF assms] linked_after [OF assms(1)] by (auto simp: after_def)

subsection \<open>A node as a runtime on an exclusive store\<close>

definition link_up :: "CoordinatorSide NodeWorld \<Rightarrow> bool" where
  "link_up s \<longleftrightarrow> (\<exists>reg. linked s reg)"

definition net_view :: "CoordinatorSide NodeWorld \<Rightarrow> TaskId \<Rightarrow> Lease option" where
  "net_view s = fmlookup (co_leases (cs_state (nw_peer s)))"

lemma after_view: "net_view (after s reg' s') = fmlookup (co_leases s')"
  by (simp add: net_view_def after_def)

lemma link_up_after: "linked s reg \<Longrightarrow> link_up (after s reg' s')"
  using linked_after unfolding link_up_def by blast

text \<open>A request that leaves the leases alone and has a short answer keeps the link and the leases.\<close>

lemma node_request_frame:
  assumes c: "arrives (ser_request codec) (de_request codec) req" and l: "link_up s"
    and h: "\<And>env reg. \<exists>resp reg' s'. handle_request env req (reg, cs_state (nw_peer s)) = (resp, reg', s')
      \<and> co_leases s' = co_leases (cs_state (nw_peer s)) \<and> sendable (ser_response codec) (de_response codec) resp"
  shows "link_up (snd (node_request codec (coordinator_peer envs codec) req s))
    \<and> net_view (snd (node_request codec (coordinator_peer envs codec) req s)) = net_view s"
proof -
  obtain reg where reg: "linked s reg" using l by (auto simp: link_up_def)
  obtain resp reg' s' where h': "handle_request (envs (cs_turn (nw_peer s))) req (reg, cs_state (nw_peer s)) = (resp, reg', s')"
    "co_leases s' = co_leases (cs_state (nw_peer s))" "sendable (ser_response codec) (de_response codec) resp"
    using h by blast
  show ?thesis
  proof (cases "encodable (ser_request codec) req")
    case True
    then have "sendable (ser_request codec) (de_request codec) req" using c by (simp add: arrives_def)
    then show ?thesis using node_request_linked [where envs = envs, OF reg h'(1) _ h'(3)] link_up_after [OF reg]
      by (simp add: after_view h'(2)) (simp add: net_view_def)
  next
    case False
    then show ?thesis using node_request_not_encodable [OF reg False, of "coordinator_peer envs codec"] l by auto
  qed
qed

lemma ask_snd: "snd (ask m what refused expected s) = snd (m s)"
  by (auto simp: ask_def split: prod.split sum.split CoordinatorResponse.split option.split)

lemma requeue_answer:
  assumes "codec_ok codec"
  shows "\<exists>resp reg' s'. handle_request env (Requeue t n) (reg, s) = (resp, reg', s')
    \<and> co_leases s' = co_leases s \<and> sendable (ser_response codec) (de_response codec) resp"
  using assms by (auto simp: respond_def on_queue_def stub_requeue_def stub_error_def error_response_def codec_ok_def
      split: option.split)

lemma network_leased_runtime:
  assumes c: "codec_ok codec"
  shows "leased_runtime (node_runtime codec (coordinator_peer envs codec) me ex wt) link_up net_view
    (\<lambda>l. encodable (ser_request codec) (InsertLease l))"
proof
  fix s :: "CoordinatorSide NodeWorld" and l
  assume up: "link_up s" and fit: "encodable (ser_request codec) (InsertLease l)"
    and taken: "net_view s (ls_task_id l) \<noteq> None"
  obtain reg where reg: "linked s reg" using up by (auto simp: link_up_def)
  have h: "handle_request (envs (cs_turn (nw_peer s))) (InsertLease l) (reg, cs_state (nw_peer s))
      = (RError ''already leased'', reg, cs_state (nw_peer s))"
    using taken by (simp add: on_store_def mem_insert_def net_view_def)
  have "sendable (ser_response codec) (de_response codec) (RError ''already leased'')"
    "sendable (ser_request codec) (de_request codec) (InsertLease l)"
    using c fit by (simp_all add: codec_ok_def arrives_def)
  from node_request_linked [where envs = envs, OF reg h this(2,1)]
  have "store_insert (rt_leases (node_runtime codec (coordinator_peer envs codec) me ex wt)) l s
      = (Err AlreadyLeased, after s reg (cs_state (nw_peer s)))"
    by (simp add: net_insert_def ask_def refused_insert_def sublist_code)
  then show "\<exists>s'. store_insert (rt_leases (node_runtime codec (coordinator_peer envs codec) me ex wt)) l s
      = (Err AlreadyLeased, s') \<and> link_up s' \<and> net_view s' = net_view s"
    using link_up_after [OF reg] by (simp add: after_view) (simp add: net_view_def)
next
  fix s :: "CoordinatorSide NodeWorld" and e
  assume "link_up s"
  then show "link_up (snd (sink_event (rt_sink (node_runtime codec (coordinator_peer envs codec) me ex wt)) e s))
    \<and> net_view (snd (sink_event (rt_sink (node_runtime codec (coordinator_peer envs codec) me ex wt)) e s)) = net_view s"
    using c by (simp add: net_emit_event_def node_request_frame codec_ok_def)
next
  fix s :: "CoordinatorSide NodeWorld" and t n
  assume "link_up s"
  then show "link_up (snd (queue_requeue (rt_queue (node_runtime codec (coordinator_peer envs codec) me ex wt)) t n s))
    \<and> net_view (snd (queue_requeue (rt_queue (node_runtime codec (coordinator_peer envs codec) me ex wt)) t n s)) = net_view s"
    by (simp add: net_requeue_def ask_snd del: handle_request.simps) (rule node_request_frame [OF _ _ requeue_answer [OF c]],
      use c in \<open>simp_all add: codec_ok_def\<close>)
qed (auto simp: on_monitor_def link_up_def linked_def net_view_def split: prod.split)

text \<open>
  C34: a node does not execute a task for which the coordinator holds a lease, in any state and
  from any node, as long as the connection is idle and the lease it asks for can be sent:
  \<open>execute_task\<close> returns success, no heartbeat is started, and the leases stay as they are.
\<close>

theorem remote_lease_blocks:
  assumes "codec_ok codec" and "link_up (wk_world w)"
    and "fmlookup (co_leases (cs_state (nw_peer (wk_world w)))) (td_task_id task) \<noteq> None"
    and "fake_resource_behavior (nw_fake (wk_world w)) = AlwaysAllow"
    and "encodable (ser_request codec)
      (InsertLease (lease_new fresh now (td_task_id task) me (from_secs 30) (td_attempt task)))"
  shows "\<exists>s. execute_task (node_runtime codec (coordinator_peer envs codec) me ex wt) fresh now task w
      = (Ok (), w\<lparr>wk_world := s\<rparr>)
    \<and> link_up s \<and> co_leases (cs_state (nw_peer s)) = co_leases (cs_state (nw_peer (wk_world w)))"
proof -
  let ?R = "node_runtime codec (coordinator_peer envs codec) me ex wt"
  have view: "net_view (wk_world w) (td_task_id task) \<noteq> None" using assms(3) by (simp add: net_view_def)
  have can: "monitor_can_allocate (rt_monitor ?R) (td_resources task) (wk_world w) = (Ok True, wk_world w)"
    and alloc: "monitor_allocate (rt_monitor ?R) (td_resources task) (wk_world w) = (Ok (), wk_world w)"
    using assms(4) by (simp_all add: on_monitor_def fake_can_allocate_def fake_allocate_def)
  have fit: "encodable (ser_request codec)
      (InsertLease (lease_new fresh now (td_task_id task) (rt_worker_id ?R) (rt_lease_ttl ?R) (td_attempt task)))"
    using assms(5) by simp
  obtain s where s: "execute_task ?R fresh now task w
      = (Ok (), drop_resource_guard ?R (td_resources task) (w\<lparr>wk_world := s\<rparr>))" "link_up s" "net_view s = net_view (wk_world w)"
    using leased_runtime.leased_task_dropped [OF network_leased_runtime [OF assms(1)] assms(2) view can fit alloc] by blast
  moreover have "drop_resource_guard ?R (td_resources task) (w\<lparr>wk_world := s\<rparr>) = w\<lparr>wk_world := s\<rparr>"
    by (simp add: drop_resource_guard_def on_monitor_def fake_release_def)
  moreover have "co_leases (cs_state (nw_peer s)) = co_leases (cs_state (nw_peer (wk_world w)))"
    using s(3) by (simp add: net_view_def fmlookup_inject)
  ultimately show ?thesis by auto
qed

subsection \<open>Lost and broken connections\<close>

lemma ask_ok: "ask m what refused expected s = (Ok x, s') \<Longrightarrow> \<exists>resp. m s = (Ok resp, s') \<and> expected resp = Some x"
  by (auto simp: ask_def split: prod.splits sum.splits CoordinatorResponse.splits option.splits)

text \<open>The answer to the next dequeue, if it can be read at all, is read as it was sent.\<close>

definition dequeue_read_back :: "Codec \<Rightarrow> WorkerId \<Rightarrow> WorkerId option \<Rightarrow> CoordinatorState \<Rightarrow> bool" where
  "dequeue_read_back codec me reg st \<longleftrightarrow> reads_back (ser_request codec) (de_request codec) (Dequeue me)
     \<and> (\<forall>env. reads_back (ser_response codec) (de_response codec) (fst (handle_request env (Dequeue me) (reg, st))))"

lemma net_dequeue_some:
  assumes c: "dequeue_read_back codec me reg (cs_state (nw_peer s))" and l: "linked s reg"
    and d: "net_dequeue codec (coordinator_peer envs codec) me s = (Ok (Some task), s1)"
  shows "\<exists>rest. stub_queue (co_queue (cs_state (nw_peer s))) = task # rest
    \<and> s1 = after s reg ((cs_state (nw_peer s))\<lparr>co_queue := (co_queue (cs_state (nw_peer s)))\<lparr>stub_queue := rest\<rparr>\<rparr>)"
proof -
  let ?st = "cs_state (nw_peer s)"
  let ?m = "node_request codec (coordinator_peer envs codec) (Dequeue me)"
  obtain resp0 where m0: "?m s = (Ok resp0, s1)" "(case resp0 of Dequeued t \<Rightarrow> Some t | _ \<Rightarrow> None) = Some (Some task)"
    using ask_ok [OF d [unfolded net_dequeue_def]] by blast
  have m: "?m s = (Ok (Dequeued (Some task)), s1)" using m0 by (cases resp0) auto
  obtain resp reg' s' where h: "handle_request (envs (cs_turn (nw_peer s))) (Dequeue me) (reg, ?st) = (resp, reg', s')"
    by (cases "handle_request (envs (cs_turn (nw_peer s))) (Dequeue me) (reg, ?st)")
  have "reads_back (ser_request codec) (de_request codec) (Dequeue me)" "reads_back (ser_response codec) (de_response codec) resp"
    using c [unfolded dequeue_read_back_def] h by (blast, metis fst_conv)
  from node_request_outcome [where envs = envs, OF l h this] have "resp = Dequeued (Some task)" "s1 = after s reg' s'"
    using m by (auto split: if_splits)
  then show ?thesis using h
    by (auto simp: respond_def on_queue_def stub_dequeue_def error_response_def split: if_splits list.splits)
qed

text \<open>
  A task is lost when the connection breaks after the node has dequeued it and before it has
  its lease: \<open>execute_task\<close> cannot get the lease and its requeue fails too, over the same
  connection, so the task is not queued any more and has no lease by which it could be found.
\<close>

lemma link_loss_loses_task:
  assumes "dequeue_read_back codec me reg (cs_state (nw_peer s))" and "linked s reg"
    and "distinct (map td_task_id (stub_queue (co_queue (cs_state (nw_peer s)))))"
    and "net_dequeue codec (coordinator_peer envs codec) me s = (Ok (Some task), s1)"
    and "s2 = s1\<lparr>nw_conn := (nw_conn s1)\<lparr>nc_transport := None\<rparr>,
      nw_peer := (nw_peer s1)\<lparr>cs_conn := None, cs_state := deregister reg (cs_state (nw_peer s1))\<rparr>\<rparr>"
    and "fake_resource_behavior (nw_fake s) = AlwaysAllow" and "wk_world w = s2"
  shows "execute_task (node_runtime codec peer me ex wt) fresh now task w
      = (Err (Failing (Core (Internal ''network error: Not registered''))), w)
    \<and> td_task_id task \<notin> queued_ids (cs_state (nw_peer s2))
    \<and> co_leases (cs_state (nw_peer s2)) = co_leases (cs_state (nw_peer s))"
proof -
  obtain rest where rest: "stub_queue (co_queue (cs_state (nw_peer s))) = task # rest"
    "s1 = after s reg ((cs_state (nw_peer s))\<lparr>co_queue := (co_queue (cs_state (nw_peer s)))\<lparr>stub_queue := rest\<rparr>\<rparr>)"
    using net_dequeue_some [OF assms(1,2,4)] by blast
  have dead: "node_request codec peer req s2 = (Err NotRegistered, s2)" for req
    using assms(5) by (simp add: node_request_def)
  have allow: "fake_resource_behavior (nw_fake s2) = AlwaysAllow" using assms(5,6) rest(2) by (simp add: after_def)
  have "execute_task (node_runtime codec peer me ex wt) fresh now task w
      = (Err (Failing (Core (Internal ''network error: Not registered''))), w)"
    using allow assms(7)
    by (simp add: execute_task_def run_with_lease_def try_bind_def then_with_def with_guard_def core_def Let_def
        on_monitor_def fake_can_allocate_def fake_allocate_def fake_release_def drop_resource_guard_def
        lm_acquire_def net_insert_def net_requeue_def ask_def dead network_error_def)
  moreover have "td_task_id task \<notin> queued_ids (cs_state (nw_peer s2))"
    using assms(3,5) rest by (auto simp: queued_ids_def deregister_def forget_node_def after_def split: option.split)
  moreover have "co_leases (cs_state (nw_peer s2)) = co_leases (cs_state (nw_peer s))"
    using assms(5) rest(2) by (auto simp: deregister_def forget_node_def after_def split: option.split)
  ultimately show ?thesis by blast
qed

text \<open>What the node's tasks do with the connection: a request, or a turn of the reconnect loop.\<close>

datatype 'p ConnectionUse =
    UseRequest CoordinatorRequest
  | UseReconnect duration "'p \<Rightarrow> (string + Stream) \<times> 'p"

primrec use_connection :: "Codec \<Rightarrow> 'p peer \<Rightarrow> 'p ConnectionUse \<Rightarrow> 'p NodeWorld \<Rightarrow> 'p NodeWorld" where
  "use_connection codec peer (UseRequest req) s = snd (node_request codec peer req s)"
| "use_connection codec peer (UseReconnect backoff dial) s = snd (reconnect_turn codec peer dial (\<lambda>d s. s) (backoff, s))"

definition broken :: "'p NodeWorld \<Rightarrow> bool" where
  "broken s \<longleftrightarrow> (case nc_transport (nw_conn s) of None \<Rightarrow> False | Some tr \<Rightarrow> write_failure tr \<noteq> None)"

lemma broken_request:
  assumes "broken s"
  shows "broken (snd (node_request codec peer req s)) \<and> nw_peer (snd (node_request codec peer req s)) = nw_peer s
    \<and> (\<exists>e. fst (node_request codec peer req s) = Err (NTransport e))"
  using assms
  by (auto simp: broken_def node_request_def exchange_def send_message_def write_all_def Let_def split: option.splits sum.split)

lemma broken_use: "broken s \<Longrightarrow> broken (use_connection codec peer u s) \<and> nw_peer (use_connection codec peer u s) = nw_peer s"
proof (cases u)
  case (UseRequest req)
  then show "broken s \<Longrightarrow> ?thesis" using broken_request by auto
next
  case (UseReconnect backoff dial)
  then show "broken s \<Longrightarrow> ?thesis" by (auto simp: reconnect_turn_def broken_def split: option.splits)
qed

text \<open>
  Once writing to the connection fails, it is broken for good: after any number of requests
  and turns of the reconnect loop every request fails with a transport error, and nothing has
  reached the other side, not even an attempt to reconnect.
\<close>

lemma broken_link_never_reconnects:
  assumes "nc_transport (nw_conn s) = Some tr" and "write_failure tr \<noteq> None"
  shows "nw_peer (fold (use_connection codec peer) us s) = nw_peer s
    \<and> (\<exists>e. fst (node_request codec peer req (fold (use_connection codec peer) us s)) = Err (NTransport e))"
proof -
  have "broken s \<Longrightarrow> broken (fold (use_connection codec peer) us s)
      \<and> nw_peer (fold (use_connection codec peer) us s) = nw_peer s"
    using broken_use [of _ codec peer] by (induction us arbitrary: s) simp_all
  moreover have "broken s" using assms by (simp add: broken_def)
  ultimately show ?thesis using broken_request by blast
qed

subsection \<open>Concrete runs\<close>

text \<open>
  An encoding for a few messages: the request for one lease, a dequeue and the
  answers to them.
\<close>

definition example_net_lease :: Lease where
  "example_net_lease = lease_new (LeaseId 9) 5 (TaskId 1) (WorkerId 2) (from_secs 30) 0"

definition text_bytes :: "string \<Rightarrow> u8 list" where
  "text_bytes e = map (\<lambda>c. word_of_nat (of_char c)) e"

definition bytes_text :: "u8 list \<Rightarrow> string" where
  "bytes_text bs = map (\<lambda>b. char_of (unat b)) bs"

definition example_codec :: Codec where
  "example_codec = \<lparr>
     ser_request = \<lambda>req. if req = InsertLease example_net_lease then Ok [1]
       else if req = Dequeue (WorkerId 2) then Ok [2] else Err ''unsupported'',
     de_request = \<lambda>bs. Ok (if bs = [1] then InsertLease example_net_lease else Dequeue (WorkerId 2)),
     ser_response = \<lambda>resp. (case resp of ROk \<Rightarrow> Ok [] | RError e \<Rightarrow> Ok (3 # text_bytes e)
       | Dequeued t \<Rightarrow> if t = Some (example_task 1 [] High) then Ok [4] else Err ''unsupported'' | _ \<Rightarrow> Err ''unsupported''),
     de_response = \<lambda>bs. Ok (if bs = [] then ROk else if hd bs = 3 then RError (bytes_text (tl bs))
       else Dequeued (Some (example_task 1 [] High)))\<rparr>"

lemma bytes_text_bytes: "bytes_text (text_bytes e) = e"
proof -
  have "unat (word_of_nat (of_char c) :: u8) = of_char c" for c :: char
    using nat_of_char_less_256 [of c] by (simp add: unat_of_nat)
  then show ?thesis by (simp add: bytes_text_def text_bytes_def comp_def)
qed

lemma example_codec_arrives: "arrives (ser_request example_codec) (de_request example_codec) req"
  by (auto simp: arrives_def encodable_def sendable_def example_codec_def split: if_splits)

lemma example_codec_error:
  "length e \<le> 1000 \<Longrightarrow> sendable (ser_response example_codec) (de_response example_codec) (RError e)"
  by (simp add: sendable_def example_codec_def text_bytes_def MAX_MESSAGE_BYTES_def bytes_text_bytes [unfolded text_bytes_def])

lemma example_codec_ok: "codec_ok example_codec"
  using example_codec_arrives example_codec_error
  by (simp add: codec_ok_def) (simp add: sendable_def example_codec_def MAX_MESSAGE_BYTES_def)

definition example_net_world :: "CoordinatorState \<Rightarrow> CoordinatorSide NodeWorld" where
  "example_net_world st = \<lparr>nw_conn = \<lparr>nc_transport = Some idle_stream, nc_worker_id = WorkerId 2, nc_hostname = [],
       nc_capacity = default_allocation\<rparr>,
     nw_peer = \<lparr>cs_conn = Some \<lparr>cn_stream = idle_stream, cn_registered = Some (WorkerId 2)\<rparr>, cs_state = st, cs_turn = 0\<rparr>,
     nw_fake = fake_new\<rparr>"

lemma example_net_linked: "linked (example_net_world st) (Some (WorkerId 2))"
  by (simp add: linked_def example_net_world_def)

definition example_leased_state :: CoordinatorState where
  "example_leased_state = coordinator_new\<lparr>co_leases := fmupd (TaskId 1) (example_lease (TaskId 1) (WorkerId 1) 0) fmempty\<rparr>"

definition example_queued_state :: CoordinatorState where
  "example_queued_state = coordinator_new\<lparr>co_queue := stub_new\<lparr>stub_queue := [example_task 1 [] High]\<rparr>\<rparr>"

theorem network_request_exact_witness:
  "fst (node_request example_codec (coordinator_peer example_env example_codec) (InsertLease example_net_lease)
     (example_net_world example_leased_state)) = Ok (RError ''already leased'')"
proof -
  have h: "handle_request (example_env (cs_turn (nw_peer (example_net_world example_leased_state))))
      (InsertLease example_net_lease) (Some (WorkerId 2), cs_state (nw_peer (example_net_world example_leased_state)))
      = (RError ''already leased'', Some (WorkerId 2), example_leased_state)"
    by (simp add: example_net_world_def on_store_def mem_insert_def example_leased_state_def example_net_lease_def
        lease_new_def)
  have q: "encodable (ser_request example_codec) (InsertLease example_net_lease)"
    by (simp add: encodable_def example_codec_def MAX_MESSAGE_BYTES_def)
  then have sq: "sendable (ser_request example_codec) (de_request example_codec) (InsertLease example_net_lease)"
    using example_codec_arrives by (simp add: arrives_def)
  have sr: "sendable (ser_response example_codec) (de_response example_codec) (RError ''already leased'')"
    by (rule example_codec_error) simp
  have "reads_back (ser_request example_codec) (de_request example_codec) (InsertLease example_net_lease)"
    "reads_back (ser_response example_codec) (de_response example_codec) (RError ''already leased'')"
    using sq sr by (auto simp: reads_back_def sendable_def split: sum.splits)
  from network_request_exact [where envs = example_env, OF example_net_linked h this]
  show ?thesis using q sq sr sendable_encodable [OF sr] by (auto split: prod.splits)
qed

theorem remote_lease_blocks_witness:
  "\<exists>s. execute_task (node_runtime example_codec (coordinator_peer example_env example_codec) (WorkerId 2)
       (\<lambda>p v. (Ok Success, v)) (\<lambda>d v. v)) (LeaseId 9) 5 (example_task 1 [] High)
       \<lparr>wk_world = example_net_world example_leased_state, wk_active = fmempty, wk_heartbeats = []\<rparr>
     = (Ok (), \<lparr>wk_world = s, wk_active = fmempty, wk_heartbeats = []\<rparr>)"
proof -
  let ?w = "\<lparr>wk_world = example_net_world example_leased_state, wk_active = fmempty, wk_heartbeats = []\<rparr>"
  have "link_up (wk_world ?w)" using example_net_linked by (auto simp: link_up_def)
  moreover have "encodable (ser_request example_codec) (InsertLease (lease_new (LeaseId 9) 5
      (td_task_id (example_task 1 [] High)) (WorkerId 2) (from_secs 30) (td_attempt (example_task 1 [] High))))"
    by (simp add: encodable_def example_codec_def MAX_MESSAGE_BYTES_def example_net_lease_def example_task_def)
  ultimately show ?thesis
    using remote_lease_blocks [OF example_codec_ok, of ?w "example_task 1 [] High" "LeaseId 9" 5 "WorkerId 2" example_env
        "\<lambda>p v. (Ok Success, v)" "\<lambda>d v. v"]
    by (auto simp: example_net_world_def example_leased_state_def example_task_def fake_new_def)
qed

end
