(* ===== verification/ArtifactCache.thy ===== *)
theory ArtifactCache
  imports CoreTypes Effects "HOL-Library.List_Lexorder" "HOL-Library.Char_ord"
begin

text \<open>
  The content-addressed artifact cache and the cache keys of \<open>crates/cache/src\<close>. A byte is a
  \<open>char\<close>; SHA-256 in hexadecimal is the parameter \<open>sha\<close>. The files under the root are the map
  \<open>ac_files\<close>; \<open>ac_fault\<close> tells which file operations fail, and \<open>ac_torn\<close> what a failed write leaves
  in the file, if it has created one. The iteration order of the entries is the parameter \<open>ord\<close>.
\<close>

subsection \<open>The cache\<close>

record CacheEntry =
  en_size :: u64
  en_last_access :: nat

datatype FsOp = FsCreateRoot | FsReadDir | FsMetadata string | FsRemove string | FsWrite string | FsRead string

record ArtifactCache =
  ac_files :: "(string, string) fmap"
  ac_fault :: "FsOp \<Rightarrow> string option"
  ac_torn :: "string \<Rightarrow> string option"
  ac_max_bytes :: u64
  ac_entries :: "(string, CacheEntry) fmap"
  ac_total_bytes :: u64
  ac_hits :: u64
  ac_misses :: u64

definition content_key :: "(string \<Rightarrow> string) \<Rightarrow> string \<Rightarrow> string" where
  "content_key sha bytes = sha bytes"

definition entry_of :: "nat \<Rightarrow> string \<Rightarrow> CacheEntry" where
  "entry_of now bytes = \<lparr>en_size = word_of_nat (length bytes), en_last_access = now\<rparr>"

text \<open>\<open>scan_existing\<close> lists the files in some order.\<close>

definition scan_file :: "nat \<Rightarrow> string \<Rightarrow> ArtifactCache \<Rightarrow> ArtifactCache" where
  "scan_file now name c =
     (let e = entry_of now (the (fmlookup (ac_files c) name)) in
      c\<lparr>ac_entries := fmupd name e (ac_entries c), ac_total_bytes := ac_total_bytes c + en_size e\<rparr>)"

primrec scan_files :: "nat \<Rightarrow> string list \<Rightarrow> ArtifactCache \<Rightarrow> string + ArtifactCache" where
  "scan_files now [] c = Ok c"
| "scan_files now (name # names) c =
     (case ac_fault c (FsMetadata name) of Some e \<Rightarrow> Err e | None \<Rightarrow> scan_files now names (scan_file now name c))"

definition cache_new :: "(string set \<Rightarrow> string list) \<Rightarrow> nat \<Rightarrow> (string, string) fmap \<Rightarrow> (FsOp \<Rightarrow> string option)
    \<Rightarrow> (string \<Rightarrow> string option) \<Rightarrow> u64 \<Rightarrow> string + ArtifactCache" where
  "cache_new ord now files faults torn max_bytes =
     (case faults FsCreateRoot of Some e \<Rightarrow> Err e
      | None \<Rightarrow> (case faults FsReadDir of Some e \<Rightarrow> Err e
          | None \<Rightarrow> scan_files now (ord (fmdom' files))
              \<lparr>ac_files = files, ac_fault = faults, ac_torn = torn, ac_max_bytes = max_bytes, ac_entries = fmempty,
               ac_total_bytes = 0, ac_hits = 0, ac_misses = 0\<rparr>))"

definition touch :: "nat \<Rightarrow> string \<Rightarrow> ArtifactCache \<Rightarrow> ArtifactCache" where
  "touch now key c =
     (case fmlookup (ac_entries c) key of
        None \<Rightarrow> c
      | Some e \<Rightarrow> c\<lparr>ac_entries := fmupd key (e\<lparr>en_last_access := now\<rparr>) (ac_entries c)\<rparr>)"

text \<open>\<open>min_by_key\<close> returns the first of the minimal elements.\<close>

fun min_by :: "('a \<Rightarrow> 'k::linorder) \<Rightarrow> 'a list \<Rightarrow> 'a option" where
  "min_by f [] = None"
| "min_by f (x # xs) = (case min_by f xs of None \<Rightarrow> Some x | Some y \<Rightarrow> if f x \<le> f y then Some x else Some y)"

definition evict_lru :: "(string set \<Rightarrow> string list) \<Rightarrow> (ArtifactCache, string, unit) op" where
  "evict_lru ord c =
     (case min_by (\<lambda>k. en_last_access (the (fmlookup (ac_entries c) k))) (ord (fmdom' (ac_entries c))) of
        None \<Rightarrow> (Ok (), c)
      | Some key \<Rightarrow>
          let removed = (\<lambda>c. case fmlookup (ac_entries c) key of
                None \<Rightarrow> c
              | Some e \<Rightarrow> c\<lparr>ac_entries := fmdrop key (ac_entries c),
                           ac_total_bytes := saturating_sub (ac_total_bytes c) (en_size e)\<rparr>) in
          if fmlookup (ac_files c) key \<noteq> None then
            (case ac_fault c (FsRemove key) of
               Some e \<Rightarrow> (Err e, c)
             | None \<Rightarrow> (Ok (), removed (c\<lparr>ac_files := fmdrop key (ac_files c)\<rparr>)))
          else (Ok (), removed c))"

definition needs_room :: "u64 \<Rightarrow> ArtifactCache \<Rightarrow> bool" where
  "needs_room len c \<longleftrightarrow> ac_total_bytes c + len > ac_max_bytes c \<and> ac_entries c \<noteq> fmempty"

text \<open>The eviction loop; the fuel is the number of entries, one for each turn.\<close>

primrec make_room :: "nat \<Rightarrow> (string set \<Rightarrow> string list) \<Rightarrow> u64 \<Rightarrow> (ArtifactCache, string, unit) op" where
  "make_room 0 ord len c = (Ok (), c)"
| "make_room (Suc n) ord len c =
     (if needs_room len c then try_bind (evict_lru ord) (\<lambda>_. make_room n ord len) c else (Ok (), c))"

definition cache_store :: "(string \<Rightarrow> string) \<Rightarrow> (string set \<Rightarrow> string list) \<Rightarrow> nat \<Rightarrow> string
    \<Rightarrow> (ArtifactCache, string, string) op" where
  "cache_store sha ord now bytes c =
     (let key = content_key sha bytes; len = word_of_nat (length bytes) in
      if fmlookup (ac_files c) key \<noteq> None then (Ok key, touch now key c)
      else try_bind (make_room (card (fmdom' (ac_entries c))) ord len) (\<lambda>_ c.
        case ac_fault c (FsWrite key) of
          Some e \<Rightarrow> (Err e, case ac_torn c key of None \<Rightarrow> c | Some part \<Rightarrow> c\<lparr>ac_files := fmupd key part (ac_files c)\<rparr>)
        | None \<Rightarrow> (Ok key, c\<lparr>ac_files := fmupd key bytes (ac_files c),
            ac_entries := fmupd key (entry_of now bytes) (ac_entries c),
            ac_total_bytes := ac_total_bytes c + len\<rparr>)) c)"

definition cache_retrieve :: "nat \<Rightarrow> string \<Rightarrow> (ArtifactCache, string, string option) op" where
  "cache_retrieve now key c =
     (case fmlookup (ac_files c) key of
        None \<Rightarrow> (Ok None, c\<lparr>ac_misses := ac_misses c + 1\<rparr>)
      | Some bytes \<Rightarrow>
          let c' = touch now key (c\<lparr>ac_hits := ac_hits c + 1\<rparr>) in
          (case ac_fault c' (FsRead key) of Some e \<Rightarrow> (Err e, c') | None \<Rightarrow> (Ok (Some bytes), c')))"

definition cache_contains :: "string \<Rightarrow> ArtifactCache \<Rightarrow> bool" where
  "cache_contains key c \<longleftrightarrow> fmlookup (ac_entries c) key \<noteq> None"

definition store_task_artifact :: "(string \<Rightarrow> string) \<Rightarrow> (string set \<Rightarrow> string list) \<Rightarrow> nat \<Rightarrow> string \<Rightarrow> string
    \<Rightarrow> (ArtifactCache, string, string) op" where
  "store_task_artifact sha ord now task_cache_key bytes c =
     (let combined = task_cache_key @ '':'' @ content_key sha bytes;
          final_key = content_key sha combined in
      if fmlookup (ac_files c) final_key = None
      then try_bind (cache_store sha ord now bytes) (\<lambda>_. returns final_key) c
      else (Ok final_key, c))"

subsection \<open>Eviction\<close>

lemma min_by_None: "min_by f xs = None \<longleftrightarrow> xs = []"
  by (cases xs) (auto split: option.splits)

lemma min_by_Some: "min_by f xs = Some x \<Longrightarrow> x \<in> set xs \<and> (\<forall>y \<in> set xs. f x \<le> f y)"
proof (induction xs arbitrary: x)
  case (Cons y ys)
  show ?case
  proof (cases "min_by f ys")
    case None
    then show ?thesis using Cons.prems by (simp add: min_by_None)
  next
    case (Some z)
    then show ?thesis using Cons.prems Cons.IH [OF Some] by (auto split: if_splits)
  qed
qed simp

text \<open>
  The accounts are right: every entry has a file, of its len, and the total is the sum of the sizes.
\<close>

definition entry_sum :: "(string, CacheEntry) fmap \<Rightarrow> nat" where
  "entry_sum m = (\<Sum>k \<in> fmdom' m. unat (en_size (the (fmlookup m k))))"

definition artifacts_ok :: "ArtifactCache \<Rightarrow> bool" where
  "artifacts_ok c \<longleftrightarrow> (\<forall>k e. fmlookup (ac_entries c) k = Some e \<longrightarrow>
       (\<exists>bytes. fmlookup (ac_files c) k = Some bytes \<and> en_size e = word_of_nat (length bytes)))
     \<and> unat (ac_total_bytes c) = entry_sum (ac_entries c)"

lemma entry_sum_upd:
  "fmlookup m k = None \<Longrightarrow> entry_sum (fmupd k e m) = unat (en_size e) + entry_sum m"
proof -
  assume k: "fmlookup m k = None"
  have "(\<Sum>x \<in> fmdom' m. unat (en_size (the (fmlookup (fmupd k e m) x)))) = entry_sum m"
    unfolding entry_sum_def using k by (intro sum.cong refl) (auto simp: fmdom'_lookup)
  then show "entry_sum (fmupd k e m) = unat (en_size e) + entry_sum m"
    using k by (simp add: entry_sum_def fmdom'_lookup finite_fmdom')
qed

lemma entry_sum_drop:
  "fmlookup m k = Some e \<Longrightarrow> entry_sum m = unat (en_size e) + entry_sum (fmdrop k m)"
proof -
  assume k: "fmlookup m k = Some e"
  have "(\<Sum>x \<in> fmdom' (fmdrop k m). unat (en_size (the (fmlookup m x)))) = entry_sum (fmdrop k m)"
    unfolding entry_sum_def by (intro sum.cong refl) auto
  then show "entry_sum m = unat (en_size e) + entry_sum (fmdrop k m)"
    using k sum.remove [OF finite_fmdom', of k m "\<lambda>x. unat (en_size (the (fmlookup m x)))"]
    by (simp add: entry_sum_def fmdom'_lookup)
qed

lemma fmdrop_fmupd_same: "fmdrop k (fmupd k v m) = fmdrop k m"
  by (rule fmap_ext) simp

lemma entry_sum_touch:
  "fmlookup m k = Some e \<Longrightarrow> entry_sum (fmupd k (e\<lparr>en_last_access := n\<rparr>) m) = entry_sum m"
  using fmdrop_fmupd_same [of k "e\<lparr>en_last_access := n\<rparr>" m]
    entry_sum_drop [of m k e] entry_sum_upd [of "fmdrop k m" k "e\<lparr>en_last_access := n\<rparr>"]
    entry_sum_drop [of "fmupd k (e\<lparr>en_last_access := n\<rparr>) m" k "e\<lparr>en_last_access := n\<rparr>"] by simp

text \<open>Without a fault an eviction removes exactly a least recently used entry and its file.\<close>

lemma evict_lru_ok:
  assumes ok: "artifacts_ok c" and ord: "hash_order ord" and ne: "ac_entries c \<noteq> fmempty"
    and nofault: "\<And>k. ac_fault c (FsRemove k) = None"
  shows "\<exists>k e. fmlookup (ac_entries c) k = Some e
    \<and> (\<forall>k' e'. fmlookup (ac_entries c) k' = Some e' \<longrightarrow> en_last_access e \<le> en_last_access e')
    \<and> evict_lru ord c = (Ok (), c\<lparr>ac_files := fmdrop k (ac_files c), ac_entries := fmdrop k (ac_entries c),
        ac_total_bytes := saturating_sub (ac_total_bytes c) (en_size e)\<rparr>)
    \<and> artifacts_ok (snd (evict_lru ord c))"
proof -
  let ?ks = "ord (fmdom' (ac_entries c))" and ?f = "\<lambda>k. en_last_access (the (fmlookup (ac_entries c) k))"
  have dom: "set ?ks = fmdom' (ac_entries c)" using ord by (simp add: finite_fmdom')
  have "fmdom' (ac_entries c) \<noteq> {}" using ne by (metis fmdom'_empty fmrestrict_set_dom fmrestrict_set_null)
  then have "?ks \<noteq> []" using dom by auto
  then obtain k where k: "min_by ?f ?ks = Some k" by (cases "min_by ?f ?ks") (auto simp: min_by_None)
  then have min: "k \<in> fmdom' (ac_entries c)" "\<forall>y \<in> fmdom' (ac_entries c). ?f k \<le> ?f y"
    using min_by_Some [OF k] dom by auto
  then obtain e where e: "fmlookup (ac_entries c) k = Some e" by (auto simp: fmdom'_lookup)
  obtain bytes where b: "fmlookup (ac_files c) k = Some bytes" using ok e by (auto simp: artifacts_ok_def)
  let ?c = "c\<lparr>ac_files := fmdrop k (ac_files c), ac_entries := fmdrop k (ac_entries c),
        ac_total_bytes := saturating_sub (ac_total_bytes c) (en_size e)\<rparr>"
  have ev: "evict_lru ord c = (Ok (), ?c)" using k e b nofault by (simp add: evict_lru_def Let_def)
  have "artifacts_ok ?c"
    using ok entry_sum_drop [OF e] by (auto simp: artifacts_ok_def unat_saturating_sub)
  moreover have "en_last_access e \<le> en_last_access e'" if "fmlookup (ac_entries c) k' = Some e'" for k' e'
    using min(2) that e by (auto simp: fmdom'_lookup dest: bspec [of _ _ k'])
  ultimately show ?thesis using e ev by auto
qed

lemma card_fmdrop: "fmlookup m k = Some e \<Longrightarrow> card (fmdom' m) = Suc (card (fmdom' (fmdrop k m)))"
  using card.remove [OF finite_fmdom', of k m] by (simp add: fmdom'_lookup)

text \<open>The fuel is enough: at the end of the loop there is room, or nothing left to evict.\<close>

lemma make_room_ok:
  assumes "artifacts_ok c" "hash_order ord" "\<And>k. ac_fault c (FsRemove k) = None" "n = card (fmdom' (ac_entries c))"
  shows "\<exists>c'. make_room n ord len c = (Ok (), c') \<and> artifacts_ok c' \<and> \<not> needs_room len c'
    \<and> ac_fault c' = ac_fault c \<and> ac_torn c' = ac_torn c \<and> ac_max_bytes c' = ac_max_bytes c
    \<and> unat (ac_total_bytes c') \<le> unat (ac_total_bytes c)
    \<and> (\<forall>k. fmlookup (ac_files c) k = None \<longrightarrow> fmlookup (ac_files c') k = None)"
  using assms(1,3,4)
proof (induction n arbitrary: c)
  case 0
  then have "ac_entries c = fmempty" by (simp add: finite_fmdom') (metis fmrestrict_set_dom fmrestrict_set_null)
  then show ?case using 0 by (simp add: needs_room_def)
next
  case (Suc n)
  show ?case
  proof (cases "needs_room len c")
    case False
    then have "make_room (Suc n) ord len c = (Ok (), c)" by simp
    then show ?thesis using Suc.prems(1) False by blast
  next
    case True
    then have "ac_entries c \<noteq> fmempty" by (simp add: needs_room_def)
    from evict_lru_ok [OF Suc.prems(1) assms(2) this Suc.prems(2)] obtain k e c1 where
      e: "fmlookup (ac_entries c) k = Some e" "evict_lru ord c = (Ok (), c1)" "artifacts_ok c1"
      and c1: "c1 = c\<lparr>ac_files := fmdrop k (ac_files c), ac_entries := fmdrop k (ac_entries c),
        ac_total_bytes := saturating_sub (ac_total_bytes c) (en_size e)\<rparr>" by auto
    have n: "n = card (fmdom' (ac_entries c1))" using Suc.prems(3) card_fmdrop [OF e(1)] by (simp add: c1)
    obtain c' where "make_room n ord len c1 = (Ok (), c')" "artifacts_ok c'" "\<not> needs_room len c'" "ac_fault c' = ac_fault c1"
      "ac_torn c' = ac_torn c1" "ac_max_bytes c' = ac_max_bytes c1" "unat (ac_total_bytes c') \<le> unat (ac_total_bytes c1)"
      "\<forall>k. fmlookup (ac_files c1) k = None \<longrightarrow> fmlookup (ac_files c') k = None"
      using Suc.IH [OF e(3) _ n] Suc.prems(2) by (auto simp: c1)
    then show ?thesis using True e(2) c1 by (auto simp: try_bind_def unat_saturating_sub)
  qed
qed

lemma touch_ok: "artifacts_ok c \<Longrightarrow> artifacts_ok (touch now key c)"
  by (auto simp: artifacts_ok_def touch_def entry_sum_touch split: option.split if_splits)

lemma touch_frame [simp]:
  "ac_files (touch now key c) = ac_files c" "ac_fault (touch now key c) = ac_fault c"
  by (simp_all add: touch_def split: option.split)

lemma retrieve_file:
  "ac_fault c (FsRead key) = None \<Longrightarrow> fst (cache_retrieve now key c) = Ok (fmlookup (ac_files c) key)"
  by (simp add: cache_retrieve_def Let_def split: option.split)

lemma cache_store_ok:
  assumes ok: "artifacts_ok c" and ord: "hash_order ord" and nofault: "\<And>x. ac_fault c x = None"
    and fits: "unat (ac_total_bytes c) + length bytes < 2 ^ 64"
    and free: "\<And>b. fmlookup (ac_files c) (sha bytes) = Some b \<Longrightarrow> b = bytes"
  shows "\<exists>c'. cache_store sha ord now bytes c = (Ok (sha bytes), c') \<and> artifacts_ok c'
    \<and> ac_fault c' = ac_fault c \<and> fmlookup (ac_files c') (sha bytes) = Some bytes
    \<and> (\<forall>k. k \<noteq> sha bytes \<and> fmlookup (ac_files c) k = None \<longrightarrow> fmlookup (ac_files c') k = None)
    \<and> (fmlookup (ac_files c) (sha bytes) = None \<longrightarrow>
        (if length bytes \<le> unat (ac_max_bytes c) then unat (ac_total_bytes c') \<le> unat (ac_max_bytes c)
         else ac_entries c' = fmupd (sha bytes) (entry_of now bytes) fmempty))"
proof (cases "fmlookup (ac_files c) (sha bytes)")
  case (Some b)
  then show ?thesis using free [OF Some] touch_ok [OF ok] by (simp add: cache_store_def content_key_def Let_def)
next
  case None
  let ?len = "word_of_nat (length bytes) :: u64"
  have len: "unat ?len = length bytes" using fits by (simp add: unat_of_nat)
  obtain c1 where m: "make_room (card (fmdom' (ac_entries c))) ord ?len c = (Ok (), c1)" "artifacts_ok c1"
    "\<not> needs_room ?len c1" "ac_fault c1 = ac_fault c" "ac_max_bytes c1 = ac_max_bytes c"
    "unat (ac_total_bytes c1) \<le> unat (ac_total_bytes c)"
    "\<forall>k. fmlookup (ac_files c) k = None \<longrightarrow> fmlookup (ac_files c1) k = None"
    using make_room_ok [OF ok ord nofault refl, of ?len] by blast
  let ?c' = "c1\<lparr>ac_files := fmupd (sha bytes) bytes (ac_files c1),
    ac_entries := fmupd (sha bytes) (entry_of now bytes) (ac_entries c1), ac_total_bytes := ac_total_bytes c1 + ?len\<rparr>"
  have run: "cache_store sha ord now bytes c = (Ok (sha bytes), ?c')"
    using None m(1,4) nofault by (simp add: cache_store_def content_key_def Let_def try_bind_def)
  have nofile: "fmlookup (ac_files c1) (sha bytes) = None" using m(7) None by simp
  then have noentry: "fmlookup (ac_entries c1) (sha bytes) = None"
    using m(2) nofile unfolding artifacts_ok_def by (metis not_Some_eq)
  have total: "unat (ac_total_bytes c1 + ?len) = unat (ac_total_bytes c1) + length bytes"
    using unat_add_no_wrap [of "ac_total_bytes c1" ?len] m(6) fits len by simp
  have "artifacts_ok ?c'"
    using m(2) total len entry_sum_upd [OF noentry, of "entry_of now bytes"] by (auto simp: artifacts_ok_def entry_of_def)
  moreover have "if length bytes \<le> unat (ac_max_bytes c) then unat (ac_total_bytes ?c') \<le> unat (ac_max_bytes c)
      else ac_entries ?c' = fmupd (sha bytes) (entry_of now bytes) fmempty"
  proof (cases "ac_entries c1 = fmempty")
    case True
    then have "unat (ac_total_bytes c1) = 0" using m(2) by (simp add: artifacts_ok_def entry_sum_def)
    then show ?thesis using total True by simp
  next
    case False
    then have "ac_total_bytes c1 + ?len \<le> ac_max_bytes c" using m(3,5) by (simp add: needs_room_def)
    then show ?thesis using total by (simp add: word_le_nat_alt)
  qed
  ultimately show ?thesis using run m by auto
qed

lemma evict_shrinks:
  assumes ord: "hash_order ord" and ne: "ac_entries c \<noteq> fmempty" and ev: "evict_lru ord c = (Ok (), c')"
  shows "card (fmdom' (ac_entries c)) = Suc (card (fmdom' (ac_entries c')))"
proof -
  let ?ks = "ord (fmdom' (ac_entries c))" and ?f = "\<lambda>k. en_last_access (the (fmlookup (ac_entries c) k))"
  have dom: "set ?ks = fmdom' (ac_entries c)" using ord by (simp add: finite_fmdom')
  have "fmdom' (ac_entries c) \<noteq> {}" using ne by (metis fmrestrict_set_dom fmrestrict_set_null)
  then have "?ks \<noteq> []" using dom by auto
  then obtain k where k: "min_by ?f ?ks = Some k" by (cases "min_by ?f ?ks") (auto simp: min_by_None)
  then obtain e where e: "fmlookup (ac_entries c) k = Some e" using min_by_Some [OF k] dom by (auto simp: fmdom'_lookup)
  then have "ac_entries c' = fmdrop k (ac_entries c)"
    using ev k by (auto simp: evict_lru_def Let_def split: if_splits option.splits)
  then show ?thesis using card_fmdrop [OF e] by simp
qed

lemma make_room_fuel:
  assumes "hash_order ord" "card (fmdom' (ac_entries c)) \<le> n" "card (fmdom' (ac_entries c)) \<le> m"
  shows "make_room n ord len c = make_room m ord len c
    \<and> (fst (make_room n ord len c) = Ok () \<longrightarrow> \<not> needs_room len (snd (make_room n ord len c)))"
  using assms(2,3)
proof (induction n arbitrary: m c)
  case 0
  then have "ac_entries c = fmempty" by (simp add: finite_fmdom') (metis fmrestrict_set_dom fmrestrict_set_null)
  then show ?case by (cases m) (simp_all add: needs_room_def)
next
  case (Suc n)
  show ?case
  proof (cases "needs_room len c")
    case True
    then have ne: "ac_entries c \<noteq> fmempty" by (simp add: needs_room_def)
    obtain r c' where ev: "evict_lru ord c = (r, c')" by fastforce
    show ?thesis
    proof (cases r)
      case (Inr u)
      then have less: "card (fmdom' (ac_entries c)) = Suc (card (fmdom' (ac_entries c')))"
        using evict_shrinks [OF assms(1) ne] ev by simp
      then obtain m' where m': "m = Suc m'" using Suc.prems(2) by (cases m) auto
      have "make_room n ord len c' = make_room m' ord len c'
        \<and> (fst (make_room n ord len c') = Ok () \<longrightarrow> \<not> needs_room len (snd (make_room n ord len c')))"
        by (rule Suc.IH) (use Suc.prems less m' in simp_all)
      moreover have "make_room (Suc n) ord len c = make_room n ord len c'"
        using True ev Inr by (simp add: try_bind_def)
      moreover have "make_room m ord len c = make_room m' ord len c'"
        using True ev Inr by (simp add: m' try_bind_def)
      ultimately show ?thesis by metis
    next
      case (Inl e)
      have "fmdom' (ac_entries c) \<noteq> {}" using ne by (metis fmrestrict_set_dom fmrestrict_set_null)
      then obtain m' where "m = Suc m'" using Suc.prems(2) by (cases m) (auto simp: finite_fmdom')
      then show ?thesis using True ev Inl by (simp add: try_bind_def)
    qed
  next
    case False
    then show ?thesis by (cases m) simp_all
  qed
qed

text \<open>
  C37: the eviction loop terminates after at most one turn for each entry, also when files are missing
  or cannot be removed: more fuel than the number of entries changes nothing, and when the loop
  ends without an error there is room for the data or no entry is left.
\<close>

theorem eviction_terminates:
  assumes "hash_order ord" and "card (fmdom' (ac_entries c)) \<le> n"
  shows "make_room n ord len c = make_room (card (fmdom' (ac_entries c))) ord len c
    \<and> (fst (make_room n ord len c) = Ok () \<longrightarrow>
        (let c' = snd (make_room n ord len c) in ac_total_bytes c' + len \<le> ac_max_bytes c' \<or> ac_entries c' = fmempty))"
  using make_room_fuel [OF assms order_refl, of len] by (auto simp: needs_room_def not_less)

text \<open>
  C35: with a working file system and no colliding file, storing data returns its hash, retrieving
  that key returns the data and the accounts stay right. A cache that took new data is within its
  limit if the data is; data larger than the limit is stored nevertheless, and is then all that
  the cache holds.
\<close>

theorem cache_store_retrieve:
  assumes "artifacts_ok c" and "hash_order ord" and "\<And>x. ac_fault c x = None"
    and "unat (ac_total_bytes c) + length bytes < 2 ^ 64"
    and "\<And>b. fmlookup (ac_files c) (sha bytes) = Some b \<Longrightarrow> b = bytes"
  shows "\<exists>c'. cache_store sha ord now bytes c = (Ok (sha bytes), c') \<and> artifacts_ok c'
    \<and> fst (cache_retrieve now' (sha bytes) c') = Ok (Some bytes)
    \<and> (fmlookup (ac_files c) (sha bytes) = None \<longrightarrow>
        (if length bytes \<le> unat (ac_max_bytes c) then unat (ac_total_bytes c') \<le> unat (ac_max_bytes c)
         else ac_entries c' = fmupd (sha bytes) (entry_of now bytes) fmempty))"
proof -
  obtain c' where c': "cache_store sha ord now bytes c = (Ok (sha bytes), c')" "artifacts_ok c'"
    "ac_fault c' = ac_fault c" "fmlookup (ac_files c') (sha bytes) = Some bytes"
    "fmlookup (ac_files c) (sha bytes) = None \<longrightarrow>
        (if length bytes \<le> unat (ac_max_bytes c) then unat (ac_total_bytes c') \<le> unat (ac_max_bytes c)
         else ac_entries c' = fmupd (sha bytes) (entry_of now bytes) fmempty)"
    by (rule exE [OF cache_store_ok [where now = now and sha = sha, OF assms]], assumption) (elim conjE, rule that)
  have "fst (cache_retrieve now' (sha bytes) c') = Ok (Some bytes)"
    using c'(3,4) assms(3) retrieve_file [of c' "sha bytes" now'] by simp
  with c'(1,2,5) show ?thesis by (intro exI conjI)
qed

text \<open>
  \<open>store_task_artifact\<close> succeeds and returns a key under which the artifact cannot be retrieved:
  the data is stored under its own hash, the key returned is the hash of the combined text.
\<close>

lemma task_artifact_not_retrievable:
  assumes "artifacts_ok c" and "hash_order ord" and "\<And>x. ac_fault c x = None"
    and "unat (ac_total_bytes c) + length bytes < 2 ^ 64"
    and "\<And>b. fmlookup (ac_files c) (sha bytes) = Some b \<Longrightarrow> b = bytes"
    and "final = sha (task_key @ '':'' @ sha bytes)" and "final \<noteq> sha bytes" and "fmlookup (ac_files c) final = None"
  shows "\<exists>c'. store_task_artifact sha ord now task_key bytes c = (Ok final, c')
    \<and> fst (cache_retrieve now' final c') = Ok None"
proof -
  obtain c' where "cache_store sha ord now bytes c = (Ok (sha bytes), c')" "ac_fault c' = ac_fault c"
    "\<forall>k. k \<noteq> sha bytes \<and> fmlookup (ac_files c) k = None \<longrightarrow> fmlookup (ac_files c') k = None"
    using cache_store_ok [OF assms(1-5)] by blast
  then show ?thesis using retrieve_file [of c' final now'] assms(3,6-8)
    by (auto simp: store_task_artifact_def content_key_def Let_def try_bind_def)
qed

text \<open>
  C36: when a write fails half way, the store reports the error but leaves a part of the data in the
  file, which from then on counts as stored: once the file system works again, storing the same data
  succeeds without writing anything, and retrieving its hash returns the part, which the cache does
  not even account for.
\<close>

theorem failed_write_counts_as_stored:
  assumes "fmlookup (ac_files c) (sha bytes) = None"
    and "make_room (card (fmdom' (ac_entries c))) ord (word_of_nat (length bytes)) c = (Ok (), c0)"
    and "ac_fault c0 (FsWrite (sha bytes)) = Some e" and "ac_torn c0 (sha bytes) = Some part"
  shows "\<exists>c1 c2. cache_store sha ord now bytes c = (Err e, c1)
    \<and> cache_store sha ord now' bytes (c1\<lparr>ac_fault := \<lambda>_. None\<rparr>) = (Ok (sha bytes), c2)
    \<and> fst (cache_retrieve now'' (sha bytes) c2) = Ok (Some part)
    \<and> ac_total_bytes c2 = ac_total_bytes c0"
proof -
  let ?c1 = "c0\<lparr>ac_files := fmupd (sha bytes) part (ac_files c0)\<rparr>"
  let ?c2 = "touch now' (sha bytes) (?c1\<lparr>ac_fault := \<lambda>_. None\<rparr>)"
  have "cache_store sha ord now bytes c = (Err e, ?c1)"
    using assms by (simp add: cache_store_def content_key_def Let_def try_bind_def)
  moreover have "cache_store sha ord now' bytes (?c1\<lparr>ac_fault := \<lambda>_. None\<rparr>) = (Ok (sha bytes), ?c2)"
    by (simp add: cache_store_def content_key_def Let_def)
  moreover have "fst (cache_retrieve now'' (sha bytes) ?c2) = Ok (Some part)"
    using retrieve_file [of ?c2 "sha bytes" now''] by simp
  moreover have "ac_total_bytes ?c2 = ac_total_bytes c0" by (simp add: touch_def split: option.split)
  ultimately show ?thesis by blast
qed

text \<open>A cache that holds one file of three bytes; the length of the data stands for its hash.\<close>

definition length_hash :: "string \<Rightarrow> string" where
  "length_hash bytes = replicate (length bytes) CHR ''x''"

definition small_cache :: ArtifactCache where
  "small_cache = projr (cache_new sorted_list_of_set 0 (fmupd ''xxx'' ''abc'' fmempty) (\<lambda>_. None) (\<lambda>key. Some ''he'') 4)"

lemma small_cache: "artifacts_ok small_cache" "\<And>x. ac_fault small_cache x = None" "unat (ac_total_bytes small_cache) = 3"
  "unat (ac_max_bytes small_cache) = 4"
  "ac_files small_cache = fmupd ''xxx'' ''abc'' fmempty"
  by (simp_all add: small_cache_def cache_new_def scan_file_def Let_def entry_of_def artifacts_ok_def entry_sum_def)

theorem eviction_terminates_witness:
  "make_room 100 sorted_list_of_set 5 small_cache = make_room (card (fmdom' (ac_entries small_cache))) sorted_list_of_set 5 small_cache"
proof -
  have "ac_entries small_cache = fmupd ''xxx'' (entry_of 0 ''abc'') fmempty"
    by (simp add: small_cache_def cache_new_def scan_file_def Let_def)
  then have "card (fmdom' (ac_entries small_cache)) \<le> 100" by simp
  from eviction_terminates [OF hash_order_sorted this, of 5] show ?thesis by blast
qed

theorem cache_store_retrieve_witness:
  "\<exists>c'. cache_store length_hash sorted_list_of_set 1 ''ab'' small_cache = (Ok ''xx'', c')
    \<and> fst (cache_retrieve 2 ''xx'' c') = Ok (Some ''ab'') \<and> unat (ac_total_bytes c') \<le> 4"
proof -
  have "unat (ac_total_bytes small_cache) + length ''ab'' < 2 ^ 64" by (simp add: small_cache)
  moreover have "fmlookup (ac_files small_cache) (length_hash ''ab'') = Some b \<Longrightarrow> b = ''ab''" for b
    by (simp add: small_cache length_hash_def)
  ultimately show ?thesis
    using cache_store_retrieve [OF small_cache(1) hash_order_sorted small_cache(2), of "''ab''" length_hash 1 2]
    by (auto simp: length_hash_def small_cache numeral_2_eq_2)
qed

text \<open>The data \<open>''hello''\<close> on a full disk, of which the first two bytes get written.\<close>

theorem failed_write_counts_as_stored_witness:
  "\<exists>c1 c2. cache_store length_hash sorted_list_of_set 1 ''hello'' (small_cache\<lparr>ac_fault := Map.empty(FsWrite ''xxxxx'' \<mapsto> ''full'')\<rparr>)
      = (Err ''full'', c1)
    \<and> cache_store length_hash sorted_list_of_set 2 ''hello'' (c1\<lparr>ac_fault := \<lambda>_. None\<rparr>) = (Ok ''xxxxx'', c2)
    \<and> fst (cache_retrieve 3 ''xxxxx'' c2) = Ok (Some ''he'')"
proof -
  let ?c = "small_cache\<lparr>ac_fault := Map.empty(FsWrite ''xxxxx'' \<mapsto> ''full'')\<rparr>"
  have ok: "artifacts_ok ?c" using small_cache(1) by (simp add: artifacts_ok_def)
  obtain c0 where c0: "make_room (card (fmdom' (ac_entries ?c))) sorted_list_of_set (word_of_nat (length ''hello'')) ?c = (Ok (), c0)"
    "ac_fault c0 = ac_fault ?c" "ac_torn c0 = ac_torn ?c"
    using make_room_ok [OF ok hash_order_sorted _ refl, of "word_of_nat (length ''hello'')"] by auto
  have hash: "length_hash ''hello'' = ''xxxxx''" by (simp add: length_hash_def)
  have torn: "ac_torn small_cache = (\<lambda>key. Some ''he'')"
    by (simp add: small_cache_def cache_new_def scan_file_def Let_def)
  show ?thesis
    using failed_write_counts_as_stored [of ?c length_hash "''hello''" sorted_list_of_set c0 "''full''" "''he''" 1 2 3, unfolded hash, OF _ c0(1)]
      c0(2,3) torn by (auto simp: small_cache)
qed

end
