(* ===== verification/CacheKey.thy ===== *)
theory CacheKey
  imports CoreTypes "HOL-Library.List_Lexorder" "HOL-Library.Char_ord"
begin

text \<open>
  Cache keys, \<open>crates/cache/src/cache_key.rs\<close>: the hash of the repository, the goal, the toolchain
  and the environment, joined by separators. The environment is a \<open>BTreeMap\<close>, iterated in the
  order of its keys.
\<close>

record CacheKeyBuilder =
  kb_repo_sha :: string
  kb_goal :: string
  kb_env :: "(string, string) fmap"
  kb_toolchain :: string

definition key_builder_new :: "string \<Rightarrow> string \<Rightarrow> CacheKeyBuilder" where
  "key_builder_new repo_sha goal = \<lparr>kb_repo_sha = repo_sha, kb_goal = goal, kb_env = fmempty, kb_toolchain = []\<rparr>"

definition with_env :: "(string \<times> string) list \<Rightarrow> CacheKeyBuilder \<Rightarrow> CacheKeyBuilder" where
  "with_env vars b = b\<lparr>kb_env := fold (\<lambda>(k, v). fmupd k v) vars (kb_env b)\<rparr>"

definition with_toolchain :: "string \<Rightarrow> CacheKeyBuilder \<Rightarrow> CacheKeyBuilder" where
  "with_toolchain t b = b\<lparr>kb_toolchain := t\<rparr>"

definition env_pairs :: "(string, string) fmap \<Rightarrow> (string \<times> string) list" where
  "env_pairs m = map (\<lambda>k. (k, the (fmlookup m k))) (sorted_list_of_set (fmdom' m))"

definition env_text :: "(string \<times> string) list \<Rightarrow> string" where
  "env_text kvs = concat (map (\<lambda>(k, v). k @ ''='' @ v @ '';'') kvs)"

text \<open>The bytes that are hashed.\<close>

definition hashed_text :: "CacheKeyBuilder \<Rightarrow> string" where
  "hashed_text b = kb_repo_sha b @ ''|'' @ kb_goal b @ ''|'' @ kb_toolchain b @ ''|'' @ env_text (env_pairs (kb_env b))"

definition build_key :: "(string \<Rightarrow> string) \<Rightarrow> CacheKeyBuilder \<Rightarrow> string" where
  "build_key sha b = sha (hashed_text b)"

lemma split_at:
  "xs @ c # ys = xs' @ c # ys' \<Longrightarrow> c \<notin> set xs \<Longrightarrow> c \<notin> set xs' \<Longrightarrow> xs = xs' \<and> ys = ys'"
proof (induction xs arbitrary: xs')
  case Nil
  then show ?case by (cases xs') auto
next
  case (Cons x xs)
  then show ?case by (cases xs') auto
qed

definition plain_pair :: "string \<times> string \<Rightarrow> bool" where
  "plain_pair kv \<longleftrightarrow> CHR ''='' \<notin> set (fst kv) \<and> CHR '';'' \<notin> set (snd kv)"

lemma env_text_inj:
  "env_text kvs = env_text kvs' \<Longrightarrow> list_all plain_pair kvs \<Longrightarrow> list_all plain_pair kvs' \<Longrightarrow> kvs = kvs'"
proof (induction kvs arbitrary: kvs')
  case Nil
  then show ?case by (cases kvs') (auto simp: env_text_def)
next
  case (Cons kv kvs)
  obtain k v where kv: "kv = (k, v)" by (cases kv)
  have step: "env_text ((k, v) # r) = k @ CHR ''='' # v @ CHR '';'' # env_text r" for k v r
    by (simp add: env_text_def)
  obtain k' v' r' where kvs': "kvs' = (k', v') # r'"
    using Cons.prems(1) by (cases kvs') (auto simp: env_text_def kv)
  have plain: "CHR ''='' \<notin> set k" "CHR '';'' \<notin> set v" "CHR ''='' \<notin> set k'" "CHR '';'' \<notin> set v'"
    using Cons.prems(2,3) by (simp_all add: kv kvs' plain_pair_def)
  have 1: "k = k' \<and> v @ CHR '';'' # env_text kvs = v' @ CHR '';'' # env_text r'"
    using Cons.prems(1) by (intro split_at [OF _ plain(1,3)]) (simp only: kv kvs' step)
  have 2: "v = v' \<and> env_text kvs = env_text r'" using 1 by (intro split_at [OF _ plain(2,4)]) simp
  then show ?case using 1 Cons.IH [of r'] Cons.prems(2,3) by (simp add: kv kvs')
qed

lemma env_pairs_inj: "env_pairs m = env_pairs m' \<Longrightarrow> m = m'"
proof -
  have rebuild: "map_of (env_pairs m) k = fmlookup m k" for m k
    by (auto simp: env_pairs_def map_of_map_restrict restrict_map_def finite_fmdom' fmdom'_lookup comp_def
        split: option.split)
  assume "env_pairs m = env_pairs m'"
  then show "m = m'" using rebuild [of m] rebuild [of m'] by (intro fmap_ext) simp
qed

definition plain_builder :: "CacheKeyBuilder \<Rightarrow> bool" where
  "plain_builder b \<longleftrightarrow> CHR ''|'' \<notin> set (kb_repo_sha b) \<and> CHR ''|'' \<notin> set (kb_goal b)
     \<and> CHR ''|'' \<notin> set (kb_toolchain b) \<and> list_all plain_pair (env_pairs (kb_env b))"

lemma env_irrelevant_order:
  "map_of (rev vars) = map_of (rev vars') \<Longrightarrow> with_env vars b = with_env vars' b"
proof -
  have fold: "fmlookup (fold (\<lambda>(k, v). fmupd k v) vs m) k = (case map_of (rev vs) k of None \<Rightarrow> fmlookup m k | Some v \<Rightarrow> Some v)"
    for vs m k
    by (induction vs arbitrary: m) (auto simp: map_add_def split: option.split)
  assume "map_of (rev vars) = map_of (rev vars')"
  then show "with_env vars b = with_env vars' b"
    by (auto simp: with_env_def fold intro!: arg_cong [of _ _ "\<lambda>m. b\<lparr>kb_env := m\<rparr>"] fmap_ext)
qed

lemma env_text_collides:
  assumes "k < k'"
  shows "env_text (env_pairs (fmupd k (v @ '';'' @ k' @ ''='' @ v') fmempty))
    = env_text (env_pairs (fmupd k' v' (fmupd k v fmempty)))"
proof -
  have "sorted_list_of_set {k', k} = [k, k']" 
    using assms sorted_list_of_set.idem_if_sorted_distinct [of "[k, k']"] by (simp add: insert_commute less_imp_le)
  then show ?thesis using assms by (auto simp: env_pairs_def env_text_def)
qed

text \<open>
  C40: the key does not depend on the order in which the environment was given. When no separator
  occurs in the inputs, that is no \<open>|\<close> in the repository, the goal and the toolchain, no \<open>=\<close> in a name
  and no \<open>;\<close> in a value of the environment, it determines all of them, unless the hash collides. The
  separators are not escaped, so there are other inputs with equal keys: a separator and the text
  after it can move from the repository to the goal, and a variable into the value of the one before.
\<close>

theorem cache_key_determines:
  "(map_of (rev vars) = map_of (rev vars') \<longrightarrow> build_key sha (with_env vars b) = build_key sha (with_env vars' b))
   \<and> (plain_builder b \<and> plain_builder b' \<and> (sha (hashed_text b) = sha (hashed_text b') \<longrightarrow> hashed_text b = hashed_text b')
        \<and> build_key sha b = build_key sha b' \<longrightarrow> b = b')
   \<and> build_key sha (key_builder_new (r @ ''|'' @ x) g) = build_key sha (key_builder_new r (x @ ''|'' @ g))
   \<and> (k < k' \<longrightarrow> build_key sha (with_env [(k, v @ '';'' @ k' @ ''='' @ v')] (key_builder_new r g))
        = build_key sha (with_env [(k, v), (k', v')] (key_builder_new r g)))"
proof (intro conjI impI)
  show "build_key sha (with_env vars b) = build_key sha (with_env vars' b)" if "map_of (rev vars) = map_of (rev vars')"
    using env_irrelevant_order [OF that] by simp
  assume a: "plain_builder b \<and> plain_builder b' \<and> (sha (hashed_text b) = sha (hashed_text b') \<longrightarrow> hashed_text b = hashed_text b')
        \<and> build_key sha b = build_key sha b'"
  then have eq: "hashed_text b = hashed_text b'" by (simp add: build_key_def)
  have p: "plain_builder b" "plain_builder b'" using a by simp_all
  have 1: "kb_repo_sha b = kb_repo_sha b' \<and> kb_goal b @ CHR ''|'' # kb_toolchain b @ CHR ''|'' # env_text (env_pairs (kb_env b))
      = kb_goal b' @ CHR ''|'' # kb_toolchain b' @ CHR ''|'' # env_text (env_pairs (kb_env b'))"
    using eq p by (intro split_at [where c = "CHR ''|''"]) (simp_all add: hashed_text_def plain_builder_def)
  have 2: "kb_goal b = kb_goal b' \<and> kb_toolchain b @ CHR ''|'' # env_text (env_pairs (kb_env b))
      = kb_toolchain b' @ CHR ''|'' # env_text (env_pairs (kb_env b'))"
    using 1 p by (intro split_at [where c = "CHR ''|''"]) (simp_all add: plain_builder_def)
  have 3: "kb_toolchain b = kb_toolchain b' \<and> env_text (env_pairs (kb_env b)) = env_text (env_pairs (kb_env b'))"
    using 2 p by (intro split_at [where c = "CHR ''|''"]) (simp_all add: plain_builder_def)
  have "kb_env b = kb_env b'"
    using 3 p by (auto simp: plain_builder_def intro!: env_pairs_inj env_text_inj)
  then show "b = b'" using 1 2 3 by (cases b; cases b') simp
next
  show "build_key sha (with_env [(k, v @ '';'' @ k' @ ''='' @ v')] (key_builder_new r g))
      = build_key sha (with_env [(k, v), (k', v')] (key_builder_new r g))" if "k < k'"
    using env_text_collides [OF that, of v v'] by (simp add: build_key_def with_env_def key_builder_new_def hashed_text_def)
qed (simp add: build_key_def key_builder_new_def hashed_text_def)

theorem cache_key_determines_witness:
  "build_key id (with_env [(''a'', ''x;b=y'')] (key_builder_new ''r'' ''g''))
   = build_key id (with_env [(''a'', ''x''), (''b'', ''y'')] (key_builder_new ''r'' ''g''))"
proof -
  have "''a'' < ''b''" by (simp add: less_char_def)
  then show ?thesis
    using cache_key_determines [of "[]" "[]" id "key_builder_new [] []" "key_builder_new [] []" "''r''" "[]" "''g''"
        "''a''" "''b''" "''x''" "''y''"] by simp
qed

end
