(* ===== verification/Sessions.thy ===== *)
theory Sessions
  imports CoreTypes Effects "HOL-Library.Sublist"
begin

text \<open>
  Remote sessions: the configuration and names of \<open>crates/aivcs-session/src/session.rs\<close>, the target
  and the ssh and tmux session manager of \<open>remote.rs\<close>, the target of \<open>execution_location.rs\<close> and
  the session types of \<open>crates/core/src/traits.rs\<close>. A \<open>char\<close> is a Latin-1 code point, so the
  case mapping and the character classes are those of ASCII. Running \<open>ssh\<close> is the parameter
  \<open>ssh\<close> of the operations, and \<open>shell_escape\<close>, a crate, is the parameter \<open>esc\<close>.
\<close>

subsection \<open>Characters\<close>

definition between :: "char \<Rightarrow> char \<Rightarrow> char \<Rightarrow> bool" where
  "between a b c \<longleftrightarrow> (of_char a :: nat) \<le> of_char c \<and> (of_char c :: nat) \<le> of_char b"

definition is_ascii_alphanumeric :: "char \<Rightarrow> bool" where
  "is_ascii_alphanumeric c \<longleftrightarrow> between CHR ''a'' CHR ''z'' c \<or> between CHR ''A'' CHR ''Z'' c \<or> between CHR ''0'' CHR ''9'' c"

definition lower_char :: "char \<Rightarrow> char" where
  "lower_char c = (if between CHR ''A'' CHR ''Z'' c then char_of ((of_char c :: nat) + 32) else c)"

definition to_lowercase :: "string \<Rightarrow> string" where
  "to_lowercase s = map lower_char s"

definition ssh_char :: "char \<Rightarrow> bool" where
  "ssh_char c \<longleftrightarrow> is_ascii_alphanumeric c \<or> c = CHR ''.'' \<or> c = CHR ''-'' \<or> c = CHR ''_''"

subsection \<open>Roles, errors and configurations\<close>

datatype Role = Agent | Runner | Human

primrec role_text :: "Role \<Rightarrow> string" where
  "role_text Agent = ''agent''"
| "role_text Runner = ''runner''"
| "role_text Human = ''human''"

datatype SessionError =
    InvalidRole string
  | RepoPathTraversal string
  | RepoInvalidCharacters string
  | WorkIdInvalidCharacters string
  | SessionNameGeneration
  | RepoNotFound string
  | ConnectionFailed string
  | TmuxFailed string
  | SessionTimeout
  | SessionInternal string
  | InvalidConfig string

primrec session_error_text :: "SessionError \<Rightarrow> string" where
  "session_error_text (InvalidRole s) = ''invalid role: '' @ s"
| "session_error_text (RepoPathTraversal s) = ''repo name contains path traversal: '' @ s"
| "session_error_text (RepoInvalidCharacters s) = ''repo name contains invalid characters: '' @ s"
| "session_error_text (WorkIdInvalidCharacters s) = ''work_id contains invalid characters: '' @ s"
| "session_error_text SessionNameGeneration = ''session name generation failed''"
| "session_error_text (RepoNotFound s) = ''repo directory not found on remote: '' @ s"
| "session_error_text (ConnectionFailed s) = ''SSH connection failed: '' @ s"
| "session_error_text (TmuxFailed s) = ''tmux command failed: '' @ s"
| "session_error_text SessionTimeout = ''timeout waiting for session''"
| "session_error_text (SessionInternal s) = ''internal error: '' @ s"
| "session_error_text (InvalidConfig s) = ''invalid configuration: '' @ s"

definition role_from_str :: "string \<Rightarrow> SessionError + Role" where
  "role_from_str s =
     (if to_lowercase s = ''agent'' then Ok Agent
      else if to_lowercase s = ''runner'' then Ok Runner
      else if to_lowercase s = ''human'' then Ok Human
      else Err (InvalidRole s))"

record SessionConfig =
  sc_repo_name :: string
  sc_work_id :: string
  sc_role :: Role

definition validate_repo_name :: "string \<Rightarrow> SessionError + unit" where
  "validate_repo_name repo =
     (if repo = [] then Err (RepoInvalidCharacters ''empty'')
      else if sublist ''..'' repo \<or> CHR ''/'' \<in> set repo then Err (RepoPathTraversal repo)
      else Ok ())"

definition validate_work_id :: "string \<Rightarrow> SessionError + unit" where
  "validate_work_id work_id = (if work_id = [] then Err (WorkIdInvalidCharacters ''empty'') else Ok ())"

definition session_config_new :: "string \<Rightarrow> string \<Rightarrow> Role \<Rightarrow> SessionError + SessionConfig" where
  "session_config_new repo_name work_id role =
     (case validate_repo_name repo_name of Inl e \<Rightarrow> Err e | Inr _ \<Rightarrow>
      (case validate_work_id work_id of Inl e \<Rightarrow> Err e | Inr _ \<Rightarrow>
        Ok \<lparr>sc_repo_name = repo_name, sc_work_id = work_id, sc_role = role\<rparr>))"

definition sanitize_char :: "char \<Rightarrow> char" where
  "sanitize_char c =
     (if is_ascii_alphanumeric c \<or> c = CHR ''.'' \<or> c = CHR ''_'' \<or> c = CHR ''-'' then c else CHR ''_'')"

definition sanitize_name :: "string \<Rightarrow> SessionError + string" where
  "sanitize_name name =
     (let sanitized = map sanitize_char (to_lowercase name) in
      if sanitized = [] then Err SessionNameGeneration else Ok sanitized)"

definition session_name :: "SessionConfig \<Rightarrow> SessionError + string" where
  "session_name c =
     (case sanitize_name (sc_repo_name c) of Inl e \<Rightarrow> Err e | Inr repo \<Rightarrow>
      (case sanitize_name (sc_work_id c) of Inl e \<Rightarrow> Err e | Inr work \<Rightarrow>
        Ok (''aivcs__'' @ repo @ ''__'' @ work @ ''__'' @ role_text (sc_role c))))"

definition repo_path :: "SessionConfig \<Rightarrow> string" where
  "repo_path c = ''/home/aivcs/engineering/code/clone-base/'' @ sc_repo_name c"

subsection \<open>Targets\<close>

definition validate_ssh_identifier :: "string \<Rightarrow> string \<Rightarrow> SessionError + unit" where
  "validate_ssh_identifier val field_name =
     (if val = [] then Err (InvalidConfig (field_name @ '' cannot be empty''))
      else if \<not> list_all ssh_char val then
        Err (InvalidConfig (field_name @ '' contains invalid characters (only alphanumeric, dots, hyphens, underscores allowed)''))
      else Ok ())"

record RemoteTarget =
  tg_host :: string
  tg_user :: string

definition default_target :: RemoteTarget where
  "default_target = \<lparr>tg_host = ''aivcs.local'', tg_user = ''aivcs''\<rparr>"

definition remote_target_new :: "string \<Rightarrow> string \<Rightarrow> SessionError + RemoteTarget" where
  "remote_target_new host user =
     (case validate_ssh_identifier host ''host'' of Inl e \<Rightarrow> Err e | Inr _ \<Rightarrow>
      (case validate_ssh_identifier user ''user'' of Inl e \<Rightarrow> Err e | Inr _ \<Rightarrow>
        Ok \<lparr>tg_host = host, tg_user = user\<rparr>))"

definition ssh_target :: "RemoteTarget \<Rightarrow> string" where
  "ssh_target t = tg_user t @ ''@'' @ tg_host t"

definition tmux_binary :: "(string \<Rightarrow> string) \<Rightarrow> string" where
  "tmux_binary esc = esc ''/opt/homebrew/bin/tmux''"

text \<open>\<open>RemoteSessionTarget::new\<close> of the core crate.\<close>

definition remote_session_target_new :: "string \<Rightarrow> string \<Rightarrow> string \<Rightarrow> string + RemoteSessionTarget" where
  "remote_session_target_new host user repo_name =
     (if host = [] then Err ''host cannot be empty''
      else if \<not> list_all ssh_char host then Err ''host contains invalid characters''
      else if user = [] then Err ''user cannot be empty''
      else if \<not> list_all ssh_char user then Err ''user contains invalid characters''
      else if repo_name = [] then Err ''repo_name cannot be empty''
      else if sublist ''..'' repo_name then Err ''repo_name contains path traversal (..)''
      else if CHR ''/'' \<in> set repo_name then Err ''repo_name contains path separator''
      else Ok \<lparr>rt_host = host, rt_user = user, rt_repo_name = repo_name\<rparr>)"

subsection \<open>The session traits\<close>

record ExecutionResult =
  xr_exit_code :: i32
  xr_stdout :: string
  xr_stderr :: string

datatype RemoteRole = RemoteRunner | RemoteAgent | RemoteHuman

record RemoteSessionConfig =
  rc_host :: string
  rc_user :: string
  rc_repo_name :: string
  rc_work_id :: string
  rc_role :: RemoteRole

text \<open>\<open>SessionConfig\<close> of the core crate, and the trait with sentinel files, \<open>RemoteSessionManagerTrait\<close>.\<close>

record CoreSessionConfig =
  cc_host :: string
  cc_user :: string
  cc_repo_name :: string

record 's SessionOps =
  ses_ensure :: "CoreSessionConfig \<Rightarrow> ('s, CoreError, string) op"
  ses_run :: "string \<Rightarrow> string \<Rightarrow> string \<Rightarrow> string \<Rightarrow> ('s, CoreError, unit) op"
  ses_poll :: "string \<Rightarrow> ('s, CoreError, i32 option) op"
  ses_cleanup :: "string \<Rightarrow> ('s, CoreError, unit) op"
  ses_kill :: "string \<Rightarrow> ('s, CoreError, unit) op"

text \<open>The other trait, \<open>RemoteSessionManager\<close>.\<close>

record 's RemoteManagerOps =
  rmo_create_or_attach :: "RemoteSessionConfig \<Rightarrow> ('s, CoreError, string) op"
  rmo_run_command :: "string \<Rightarrow> string \<Rightarrow> ('s, CoreError, ExecutionResult) op"
  rmo_kill_session :: "string \<Rightarrow> ('s, CoreError, unit) op"

subsection \<open>Parsing the output\<close>

text \<open>\<open>str::trim\<close>, \<open>str::lines\<close> and \<open>str::parse::<i32>\<close>.\<close>

definition is_space :: "char \<Rightarrow> bool" where
  "is_space c \<longleftrightarrow> (of_char c :: nat) \<in> {9, 10, 11, 12, 13, 32, 133, 160}"

definition trim :: "string \<Rightarrow> string" where
  "trim s = rev (dropWhile is_space (rev (dropWhile is_space s)))"

definition newline :: char where "newline = char_of (10::nat)"
definition carriage_return :: char where "carriage_return = char_of (13::nat)"

fun split_lines :: "string \<Rightarrow> string \<Rightarrow> string list" where
  "split_lines acc [] = (if acc = [] then [] else [acc])"
| "split_lines acc (c # cs) = (if c = newline then acc # split_lines [] cs else split_lines (acc @ [c]) cs)"

definition strip_cr :: "string \<Rightarrow> string" where
  "strip_cr l = (if l \<noteq> [] \<and> last l = carriage_return then butlast l else l)"

text \<open>Only a line that a newline ends loses a carriage return before it.\<close>

definition lines :: "string \<Rightarrow> string list" where
  "lines s = (let ls = split_lines [] s in
     if s \<noteq> [] \<and> last s \<noteq> newline then map strip_cr (butlast ls) @ [last ls] else map strip_cr ls)"

fun digits_value :: "int \<Rightarrow> string \<Rightarrow> int option" where
  "digits_value n [] = Some n"
| "digits_value n (c # cs) =
     (if between CHR ''0'' CHR ''9'' c then digits_value (10 * n + (of_char c - 48)) cs else None)"

definition parse_i32 :: "string \<Rightarrow> i32 option" where
  "parse_i32 s =
     (let (sign, ds) = (case s of [] \<Rightarrow> (1, []) | c # cs \<Rightarrow>
            if c = CHR ''-'' then (- 1, cs) else if c = CHR ''+'' then (1, cs) else (1, s)) in
      if ds = [] then None
      else case digits_value 0 ds of
        None \<Rightarrow> None
      | Some n \<Rightarrow> if - (2 ^ 31) \<le> sign * n \<and> sign * n < 2 ^ 31 then Some (word_of_int (sign * n)) else None)"

subsection \<open>The ssh and tmux session manager\<close>

text \<open>What a finished \<open>ssh\<close> process leaves; \<open>so_code = None\<close>: it was killed by a signal.\<close>

record SshOutput =
  so_success :: bool
  so_code :: "i32 option"
  so_stdout :: string
  so_stderr :: string

type_synonym 's ssh = "string list \<Rightarrow> ('s, string, SshOutput) op"

text \<open>\<open>Command::new("ssh")\<close> with its arguments, run to its end.\<close>

definition run_ssh :: "'s ssh \<Rightarrow> RemoteTarget \<Rightarrow> string \<Rightarrow> ('s, SessionError, SshOutput) op" where
  "run_ssh ssh target command s =
     (case ssh [''-o'', ''ConnectTimeout=5'', ssh_target target, command] s of
        (r, s') \<Rightarrow> (map_err ConnectionFailed r, s'))"

definition expect_success :: "(SshOutput \<Rightarrow> SessionError) \<Rightarrow> SshOutput \<Rightarrow> ('s, SessionError, unit) op" where
  "expect_success err out = (if so_success out then returns () else fails (err out))"

definition tmux_failed :: "SshOutput \<Rightarrow> SessionError" where
  "tmux_failed out = TmuxFailed (so_stderr out)"

definition check_repo_exists :: "'s ssh \<Rightarrow> (string \<Rightarrow> string) \<Rightarrow> RemoteTarget \<Rightarrow> SessionConfig \<Rightarrow> ('s, SessionError, unit) op" where
  "check_repo_exists ssh esc target c =
     try_bind (run_ssh ssh target (''test -d '' @ esc (repo_path c) @ '' && echo ok''))
       (expect_success (\<lambda>_. RepoNotFound (repo_path c)))"

definition tmux_new_session :: "'s ssh \<Rightarrow> (string \<Rightarrow> string) \<Rightarrow> RemoteTarget \<Rightarrow> SessionConfig \<Rightarrow> string
    \<Rightarrow> ('s, SessionError, unit) op" where
  "tmux_new_session ssh esc target c name =
     try_bind (run_ssh ssh target (tmux_binary esc @ '' new-session -A -s '' @ esc name @ '' -c '' @ esc (repo_path c)))
       (expect_success tmux_failed)"

definition attach_or_create :: "'s ssh \<Rightarrow> (string \<Rightarrow> string) \<Rightarrow> RemoteTarget \<Rightarrow> SessionConfig \<Rightarrow> ('s, SessionError, string) op" where
  "attach_or_create ssh esc target c =
     (case session_name c of
        Inl e \<Rightarrow> fails e
      | Inr name \<Rightarrow>
          try_bind (check_repo_exists ssh esc target c) (\<lambda>_.
          try_bind (tmux_new_session ssh esc target c name) (\<lambda>_. returns name)))"

definition list_sessions :: "'s ssh \<Rightarrow> (string \<Rightarrow> string) \<Rightarrow> RemoteTarget \<Rightarrow> ('s, SessionError, string list) op" where
  "list_sessions ssh esc target =
     try_bind (run_ssh ssh target (tmux_binary esc @ '' ls -F '' @ [char_of (39::nat)] @ ''#{session_name}'' @ [char_of (39::nat)])) (\<lambda>out.
     try_bind (expect_success (\<lambda>_. TmuxFailed ''failed to list sessions'') out) (\<lambda>_.
       returns (lines (so_stdout out))))"

definition kill_session :: "'s ssh \<Rightarrow> (string \<Rightarrow> string) \<Rightarrow> RemoteTarget \<Rightarrow> string \<Rightarrow> ('s, SessionError, unit) op" where
  "kill_session ssh esc target name =
     try_bind (run_ssh ssh target (tmux_binary esc @ '' kill-session -t '' @ esc name)) (expect_success tmux_failed)"

definition run_in_session :: "'s ssh \<Rightarrow> (string \<Rightarrow> string) \<Rightarrow> RemoteTarget \<Rightarrow> string \<Rightarrow> string \<Rightarrow> ('s, SessionError, ExecutionResult) op" where
  "run_in_session ssh esc target name cmd =
     try_bind (run_ssh ssh target (tmux_binary esc @ '' send-keys -t '' @ esc name @ '' '' @ esc cmd @ '' Enter'')) (\<lambda>out.
       returns \<lparr>xr_exit_code = (case so_code out of None \<Rightarrow> 1 | Some code \<Rightarrow> code),
         xr_stdout = so_stdout out, xr_stderr = so_stderr out\<rparr>)"

definition run_command_in_session :: "'s ssh \<Rightarrow> (string \<Rightarrow> string) \<Rightarrow> RemoteTarget \<Rightarrow> string \<Rightarrow> string \<Rightarrow> string \<Rightarrow> string
    \<Rightarrow> ('s, SessionError, unit) op" where
  "run_command_in_session ssh esc target name window command sentinel =
     try_bind (run_ssh ssh target
         (tmux_binary esc @ '' send-keys -t '' @ esc name @ '':'' @ esc window @ '' '' @ esc command @ '' Enter''))
       (expect_success tmux_failed)"

definition poll_exit_code :: "'s ssh \<Rightarrow> (string \<Rightarrow> string) \<Rightarrow> RemoteTarget \<Rightarrow> string \<Rightarrow> ('s, SessionError, i32 option) op" where
  "poll_exit_code ssh esc target sentinel =
     try_bind (run_ssh ssh target (''test -f '' @ esc sentinel @ '' && cat '' @ esc sentinel @ '' || echo NOFILE'')) (\<lambda>out.
       if \<not> so_success out then returns None
       else if trim (so_stdout out) = ''NOFILE'' then returns None
       else returns (parse_i32 (trim (so_stdout out))))"

definition cleanup_sentinel :: "'s ssh \<Rightarrow> (string \<Rightarrow> string) \<Rightarrow> RemoteTarget \<Rightarrow> string \<Rightarrow> ('s, SessionError, unit) op" where
  "cleanup_sentinel ssh esc target sentinel =
     try_bind (run_ssh ssh target (''rm -f '' @ esc sentinel)) (\<lambda>_. returns ())"

subsection \<open>The manager behind the two traits\<close>

definition session_failed :: "('s, SessionError, 'a) op \<Rightarrow> ('s, CoreError, 'a) op" where
  "session_failed m s = (case m s of (r, s') \<Rightarrow> (map_err (\<lambda>e. SessionFailed (session_error_text e)) r, s'))"

definition lift_config :: "SessionError + SessionConfig \<Rightarrow> (SessionConfig \<Rightarrow> ('s, CoreError, 'a) op) \<Rightarrow> ('s, CoreError, 'a) op" where
  "lift_config r k = (case r of Inl e \<Rightarrow> fails (SessionFailed (session_error_text e)) | Inr c \<Rightarrow> k c)"

primrec role_of_remote :: "RemoteRole \<Rightarrow> Role" where
  "role_of_remote RemoteRunner = Runner"
| "role_of_remote RemoteAgent = Agent"
| "role_of_remote RemoteHuman = Human"

definition create_or_attach :: "'s ssh \<Rightarrow> (string \<Rightarrow> string) \<Rightarrow> RemoteTarget \<Rightarrow> RemoteSessionConfig \<Rightarrow> ('s, CoreError, string) op" where
  "create_or_attach ssh esc target c =
     lift_config (session_config_new (rc_repo_name c) (rc_work_id c) (role_of_remote (rc_role c)))
       (\<lambda>config. session_failed (attach_or_create ssh esc target config))"

definition ensure_session :: "'s ssh \<Rightarrow> (string \<Rightarrow> string) \<Rightarrow> RemoteTarget \<Rightarrow> CoreSessionConfig \<Rightarrow> ('s, CoreError, string) op" where
  "ensure_session ssh esc target c =
     lift_config (session_config_new (cc_repo_name c) ''default_work_id'' Agent)
       (\<lambda>config. session_failed (attach_or_create ssh esc target config))"

definition ssh_session_ops :: "'s ssh \<Rightarrow> (string \<Rightarrow> string) \<Rightarrow> RemoteTarget \<Rightarrow> 's SessionOps" where
  "ssh_session_ops ssh esc target =
     \<lparr>ses_ensure = ensure_session ssh esc target,
      ses_run = (\<lambda>name window command sentinel.
        session_failed (run_command_in_session ssh esc target name window command sentinel)),
      ses_poll = (\<lambda>sentinel. session_failed (poll_exit_code ssh esc target sentinel)),
      ses_cleanup = (\<lambda>sentinel. session_failed (cleanup_sentinel ssh esc target sentinel)),
      ses_kill = (\<lambda>name. session_failed (kill_session ssh esc target name))\<rparr>"

definition ssh_manager_ops :: "'s ssh \<Rightarrow> (string \<Rightarrow> string) \<Rightarrow> RemoteTarget \<Rightarrow> 's RemoteManagerOps" where
  "ssh_manager_ops ssh esc target =
     \<lparr>rmo_create_or_attach = create_or_attach ssh esc target,
      rmo_run_command = (\<lambda>name cmd. session_failed (run_in_session ssh esc target name cmd)),
      rmo_kill_session = (\<lambda>name. session_failed (kill_session ssh esc target name))\<rparr>"

subsection \<open>Names are safe\<close>

definition name_char :: "char \<Rightarrow> bool" where
  "name_char c \<longleftrightarrow> between CHR ''a'' CHR ''z'' c \<or> between CHR ''0'' CHR ''9'' c \<or> c = CHR ''.'' \<or> c = CHR ''-'' \<or> c = CHR ''_''"

lemma name_char_sanitize: "name_char (sanitize_char (lower_char c))"
proof (cases "between CHR ''A'' CHR ''Z'' c")
  case True
  then have c: "65 \<le> (of_char c :: nat)" "(of_char c :: nat) \<le> 90" by (simp_all add: between_def)
  have "(of_char (char_of ((of_char c :: nat) + 32) :: char) :: nat) = of_char c + 32"
    using c by simp
  then have "between CHR ''a'' CHR ''z'' (char_of ((of_char c :: nat) + 32))" using c by (simp add: between_def)
  then show ?thesis using True by (simp add: lower_char_def sanitize_char_def is_ascii_alphanumeric_def name_char_def)
next
  case False
  then show ?thesis by (auto simp: lower_char_def sanitize_char_def is_ascii_alphanumeric_def name_char_def)
qed

lemma sanitize_name_ok:
  "name \<noteq> [] \<Longrightarrow> \<exists>n. sanitize_name name = Ok n \<and> n = map (sanitize_char \<circ> lower_char) name \<and> list_all name_char n"
  by (simp add: sanitize_name_def to_lowercase_def Let_def list_all_iff name_char_sanitize comp_def)

lemma role_text_chars: "list_all name_char (role_text r)"
  by (cases r) (simp_all add: name_char_def between_def)

lemma session_config_newD:
  "session_config_new repo work r = Ok c \<Longrightarrow> c = \<lparr>sc_repo_name = repo, sc_work_id = work, sc_role = r\<rparr>
    \<and> repo \<noteq> [] \<and> work \<noteq> [] \<and> \<not> sublist ''..'' repo \<and> CHR ''/'' \<notin> set repo"
  by (auto simp: session_config_new_def validate_repo_name_def validate_work_id_def split: if_splits)

lemma session_name_ok:
  assumes "session_config_new repo work r = Ok c"
  shows "session_name c = Ok (''aivcs__'' @ map (sanitize_char \<circ> lower_char) repo @ ''__''
    @ map (sanitize_char \<circ> lower_char) work @ ''__'' @ role_text r)"
  using session_config_newD [OF assms] sanitize_name_ok [of repo] sanitize_name_ok [of work]
  by (auto simp: session_name_def)

text \<open>
  A configuration that is accepted has a session name, made of lower-case letters, digits, dots,
  hyphens and underscores alone, whatever the repository and the work id contain; its repository
  path is a single component below the fixed base, without a parent reference.
\<close>

lemma session_name_safe:
  assumes "session_config_new repo work r = Ok c"
  shows "\<exists>n. session_name c = Ok n \<and> list_all name_char n \<and> prefix ''aivcs__'' n
    \<and> repo_path c = ''/home/aivcs/engineering/code/clone-base/'' @ repo
    \<and> CHR ''/'' \<notin> set repo \<and> \<not> sublist ''..'' repo \<and> repo \<noteq> []"
proof -
  have "list_all name_char (map (sanitize_char \<circ> lower_char) x)" for x
    by (simp add: list_all_iff name_char_sanitize)
  then have "list_all name_char (''aivcs__'' @ map (sanitize_char \<circ> lower_char) repo @ ''__''
      @ map (sanitize_char \<circ> lower_char) work @ ''__'' @ role_text r)"
    using role_text_chars [of r] by (simp add: name_char_def between_def)
  then show ?thesis using session_name_ok [OF assms] session_config_newD [OF assms]
    by (simp add: repo_path_def)
qed

text \<open>
  The session that the manager ensures for a task depends on the name of the repository alone,
  and only up to case and special characters: two tasks share a session, which a cancellation of
  either kills, exactly when those agree. The host and the user of the task's target are ignored: all
  commands go to the manager's own target.
\<close>

lemma sessions_shared:
  assumes "ensure_session ssh esc target c1 s1 = (Ok n1, t1)" and "ensure_session ssh esc target c2 s2 = (Ok n2, t2)"
  shows "(n1 = n2 \<longleftrightarrow> map (sanitize_char \<circ> lower_char) (cc_repo_name c1) = map (sanitize_char \<circ> lower_char) (cc_repo_name c2))
    \<and> ensure_session ssh esc target (c1\<lparr>cc_host := host, cc_user := user\<rparr>) s1 = (Ok n1, t1)"
proof -
  have name: "n = ''aivcs__'' @ map (sanitize_char \<circ> lower_char) (cc_repo_name c) @ ''__''
      @ map (sanitize_char \<circ> lower_char) ''default_work_id'' @ ''__'' @ role_text Agent"
    if e: "ensure_session ssh esc target c s = (Ok n, t)" for c s n t
  proof (cases "session_config_new (cc_repo_name c) ''default_work_id'' Agent")
    case (Inr config)
    from session_name_ok [OF this] e show ?thesis
      by (auto simp: ensure_session_def lift_config_def Inr session_failed_def attach_or_create_def try_bind_def
          map_err_def split: prod.splits sum.splits)
  qed (use e in \<open>simp add: ensure_session_def lift_config_def\<close>)
  have "ensure_session ssh esc target (c1\<lparr>cc_host := host, cc_user := user\<rparr>) s1 = ensure_session ssh esc target c1 s1"
    by (simp add: ensure_session_def)
  then show ?thesis using name [OF assms(1)] name [OF assms(2)] assms(1) by simp
qed

definition working_ssh :: "unit ssh" where
  "working_ssh args s = (Ok \<lparr>so_success = True, so_code = Some 0, so_stdout = [], so_stderr = []\<rparr>, s)"

end
