(* ===== verification/SshExecutor.thy ===== *)
theory SshExecutor
  imports WorkerRuntime Sessions "HOL-Library.List_Lexorder" "HOL-Library.Char_ord"
begin

text \<open>
  Execution in remote sessions: the executor of \<open>crates/worker/src/ssh_tmux_executor.rs\<close> with the
  quoting of its commands, the dispatcher and the placeholder executor, and the fake session managers
  of \<open>fake_session_manager.rs\<close> and \<open>remote_executor.rs\<close>.
\<close>

subsection \<open>Quoting\<close>

abbreviation dquote :: char where "dquote \<equiv> CHR 0x22"
abbreviation backslash :: char where "backslash \<equiv> CHR 0x5C"
abbreviation dollar :: char where "dollar \<equiv> CHR 0x24"
abbreviation backtick :: char where "backtick \<equiv> CHR 0x60"

definition replace_char :: "char \<Rightarrow> string \<Rightarrow> string \<Rightarrow> string" where
  "replace_char c t s = concat (map (\<lambda>x. if x = c then t else [x]) s)"

definition shell_escape_sh_double :: "string \<Rightarrow> string" where
  "shell_escape_sh_double s =
     replace_char backtick [backslash, backtick]
      (replace_char dollar [backslash, dollar]
        (replace_char dquote [backslash, dquote]
          (replace_char backslash [backslash, backslash] s)))"

fun join_with :: "string \<Rightarrow> string list \<Rightarrow> string" where
  "join_with sep [] = []"
| "join_with sep [x] = x"
| "join_with sep (x # y # xs) = x @ sep @ join_with sep (y # xs)"

definition shell_join :: "string list \<Rightarrow> string" where
  "shell_join args = join_with '' '' (map (\<lambda>a. [dquote] @ shell_escape_sh_double a @ [dquote]) args)"

definition build_wrapped_command :: "string list \<Rightarrow> string \<Rightarrow> string" where
  "build_wrapped_command args sentinel_path =
     (let inner = ''('' @ shell_join args @ ''); echo $? > '' @ sentinel_path in
      ''sh -c '' @ [dquote] @ shell_escape_sh_double inner @ [dquote])"

text \<open>The hexadecimal text of a UUID without its hyphens: four bits to a digit, the highest first.\<close>

definition hex_digit :: "nat \<Rightarrow> char" where
  "hex_digit n = (if n < 10 then char_of (48 + n) else char_of (87 + n))"

definition uuid_hex :: "uuid \<Rightarrow> string" where
  "uuid_hex u = map (\<lambda>i. hex_digit (unat u div 16 ^ (31 - i) mod 16)) [0..<32]"

definition sentinel_path_for_task :: "TaskId \<Rightarrow> string" where
  "sentinel_path_for_task t = ''/tmp/kc_exit_'' @ take 12 (uuid_hex (task_uuid t))"

subsection \<open>The executor\<close>

definition POLL_INTERVAL_MS :: u64 where "POLL_INTERVAL_MS = 500"
definition POLL_TIMEOUT_SECS :: u64 where "POLL_TIMEOUT_SECS = 3600"

text \<open>
  The polling and the cancellation race. A \<open>Wake\<close> is what ends the task's current wait, for the answer
  of a poll or for the poll interval: what it waits for is \<open>Ready\<close>, the hour of the timeout has
  \<open>Elapsed\<close>, or the cancellation, which \<open>select!\<close> watches all the time, is \<open>Noticed\<close>; when several
  have happened, any of them may be it. The hour is over at the latest when the list of wakes is.
  The last two drop the future that is awaited: \<open>dropped\<close> is what has happened by then, of a poll in
  flight and of the rest of the system. \<open>pause\<close> is a whole sleep, in which the rest of the system runs.
\<close>

datatype Wake = Ready | Elapsed | Noticed

datatype PollEnd = Polled ExitOutcome | CancelledDuringPoll

definition outcome_of_code :: "i32 \<Rightarrow> ExitOutcome" where
  "outcome_of_code code = (if code = 0 then Success else FailedWithCode code)"

fun poll_for_exit :: "'s SessionOps \<Rightarrow> ('s \<Rightarrow> 's) \<Rightarrow> ('s \<Rightarrow> 's) \<Rightarrow> string \<Rightarrow> Wake list \<Rightarrow> 's \<Rightarrow> PollEnd \<times> 's"
  and sleep_interval :: "'s SessionOps \<Rightarrow> ('s \<Rightarrow> 's) \<Rightarrow> ('s \<Rightarrow> 's) \<Rightarrow> string \<Rightarrow> Wake list \<Rightarrow> 's \<Rightarrow> PollEnd \<times> 's" where
  "poll_for_exit ops dropped pause path [] s = (Polled (FailedWithCode 124), dropped s)"
| "poll_for_exit ops dropped pause path (Elapsed # wakes) s = (Polled (FailedWithCode 124), dropped s)"
| "poll_for_exit ops dropped pause path (Noticed # wakes) s = (CancelledDuringPoll, dropped s)"
| "poll_for_exit ops dropped pause path (Ready # wakes) s =
     (case ses_poll ops path s of
        (Inr (Some code), s') \<Rightarrow> (Polled (outcome_of_code code), s')
      | (Inr None, s') \<Rightarrow> sleep_interval ops dropped pause path wakes s'
      | (Inl e, s') \<Rightarrow> (Polled (FailedWithCode 1), s'))"
| "sleep_interval ops dropped pause path [] s = (Polled (FailedWithCode 124), dropped s)"
| "sleep_interval ops dropped pause path (Elapsed # wakes) s = (Polled (FailedWithCode 124), dropped s)"
| "sleep_interval ops dropped pause path (Noticed # wakes) s = (CancelledDuringPoll, dropped s)"
| "sleep_interval ops dropped pause path (Ready # wakes) s = poll_for_exit ops dropped pause path wakes (pause s)"

definition session_config_of :: "ExecutionLocation \<Rightarrow> CoreSessionConfig" where
  "session_config_of loc =
     (case loc of
        RemoteSession t \<Rightarrow> \<lparr>cc_host = rt_host t, cc_user = rt_user t, cc_repo_name = rt_repo_name t\<rparr>
      | Local \<Rightarrow> \<lparr>cc_host = ''aivcs.local'', cc_user = ''aivcs'', cc_repo_name = ''unknown''\<rparr>)"

definition ssh_execute :: "(TaskId \<Rightarrow> string) \<Rightarrow> 's SessionOps \<Rightarrow> ('s \<Rightarrow> 's) \<Rightarrow> ('s \<Rightarrow> 's) \<Rightarrow> Wake list \<Rightarrow> SpawnParams
    \<Rightarrow> ('s, WorkerError, ExitOutcome) op" where
  "ssh_execute id_text ops dropped pause wakes params s =
     (let path = sentinel_path_for_task (sp_task_id params) in
      if sp_command params = [] then (Err (SpawnFailed ''empty command''), s)
      else case ses_ensure ops (session_config_of (sp_location params)) s of
        (Inl e, s1) \<Rightarrow> (Err (WorkerInternal (''ensure_session failed: '' @ core_error_text id_text e)), s1)
      | (Inr name, s1) \<Rightarrow>
          (case ses_run ops name ''main'' (build_wrapped_command (sp_command params) path) path s1 of
             (Inl e, s2) \<Rightarrow> (Err (WorkerInternal (''run_command_in_session failed: '' @ core_error_text id_text e)), s2)
           | (Inr _, s2) \<Rightarrow>
               (case poll_for_exit ops dropped pause path wakes s2 of
                  (Polled outcome, s3) \<Rightarrow> (Ok outcome, snd (ses_cleanup ops path s3))
                | (CancelledDuringPoll, s3) \<Rightarrow>
                    (Ok (FailedWithCode 137), snd (ses_cleanup ops path (snd (ses_kill ops name s3)))))))"

subsection \<open>Dispatch\<close>

definition dispatch :: "(SpawnParams \<Rightarrow> ('s, WorkerError, ExitOutcome) op) \<Rightarrow> (SpawnParams \<Rightarrow> ('s, WorkerError, ExitOutcome) op)
    \<Rightarrow> SpawnParams \<Rightarrow> ('s, WorkerError, ExitOutcome) op" where
  "dispatch local remote params =
     (case sp_location params of Local \<Rightarrow> local params | RemoteSession _ \<Rightarrow> remote params)"

definition remote_process_execute :: "SpawnParams \<Rightarrow> ('s, WorkerError, ExitOutcome) op" where
  "remote_process_execute params =
     fails (WorkerInternal ''remote execution requires RemoteSessionConfig from TaskDescriptor.location'')"

subsection \<open>The fake session manager\<close>

record CallRecord =
  cr_method :: string
  cr_session_name :: "string option"
  cr_window_name :: "string option"
  cr_sentinel_path :: "string option"

datatype ExitCodeBehavior = CodeSuccess | FailCode i32 | NeverComplete | FailEnsureSession string

record FakeSessions =
  fs_calls :: "CallRecord list"
  fs_behaviors :: "(string, ExitCodeBehavior) fmap"
  fs_default_behavior :: ExitCodeBehavior

definition fake_sessions_new :: FakeSessions where
  "fake_sessions_new = \<lparr>fs_calls = [], fs_behaviors = fmempty, fs_default_behavior = CodeSuccess\<rparr>"

definition fs_with_behavior :: "string \<Rightarrow> ExitCodeBehavior \<Rightarrow> FakeSessions \<Rightarrow> FakeSessions" where
  "fs_with_behavior name behavior m = m\<lparr>fs_behaviors := fmupd name behavior (fs_behaviors m)\<rparr>"

definition drain_calls :: "FakeSessions \<Rightarrow> CallRecord list \<times> FakeSessions" where
  "drain_calls m = (fs_calls m, m\<lparr>fs_calls := []\<rparr>)"

definition note_call :: "string \<Rightarrow> string option \<Rightarrow> string option \<Rightarrow> string option \<Rightarrow> FakeSessions \<Rightarrow> FakeSessions" where
  "note_call m name window path f =
     f\<lparr>fs_calls := fs_calls f @ [\<lparr>cr_method = m, cr_session_name = name, cr_window_name = window, cr_sentinel_path = path\<rparr>]\<rparr>"

definition fs_ensure :: "CoreSessionConfig \<Rightarrow> (FakeSessions, CoreError, string) op" where
  "fs_ensure c m =
     (let name = ''fake_session_'' @ cc_user c @ ''_'' @ cc_repo_name c;
          m' = note_call ''ensure_session'' (Some name) None None m in
      case fmlookup (fs_behaviors m') name of
        Some (FailEnsureSession err) \<Rightarrow> (Err (SessionFailed err), m')
      | _ \<Rightarrow> (Ok name, m'))"

definition fs_run :: "string \<Rightarrow> string \<Rightarrow> string \<Rightarrow> string \<Rightarrow> (FakeSessions, CoreError, unit) op" where
  "fs_run name window command path m = (Ok (), note_call ''run_command_in_session'' (Some name) (Some window) (Some path) m)"

text \<open>\<open>ord\<close> is the iteration order of the behaviours, of which the first value counts.\<close>

definition first_behavior :: "(string set \<Rightarrow> string list) \<Rightarrow> FakeSessions \<Rightarrow> ExitCodeBehavior" where
  "first_behavior ord m =
     (case ord (fmdom' (fs_behaviors m)) of
        [] \<Rightarrow> fs_default_behavior m
      | k # _ \<Rightarrow> the (fmlookup (fs_behaviors m) k))"

definition fs_poll :: "(string set \<Rightarrow> string list) \<Rightarrow> string \<Rightarrow> (FakeSessions, CoreError, i32 option) op" where
  "fs_poll ord path m =
     (let m' = note_call ''poll_exit_code'' None None (Some path) m in
      case first_behavior ord m' of
        CodeSuccess \<Rightarrow> (Ok (Some 0), m')
      | FailCode code \<Rightarrow> (Ok (Some code), m')
      | NeverComplete \<Rightarrow> (Ok None, m')
      | FailEnsureSession _ \<Rightarrow> (Ok (Some 1), m'))"

definition fs_cleanup :: "string \<Rightarrow> (FakeSessions, CoreError, unit) op" where
  "fs_cleanup path m = (Ok (), note_call ''cleanup_sentinel'' None None (Some path) m)"

definition fs_kill :: "string \<Rightarrow> (FakeSessions, CoreError, unit) op" where
  "fs_kill name m = (Ok (), note_call ''kill_session'' (Some name) None None m)"

definition fake_session_ops :: "(string set \<Rightarrow> string list) \<Rightarrow> FakeSessions SessionOps" where
  "fake_session_ops ord = \<lparr>ses_ensure = fs_ensure, ses_run = fs_run, ses_poll = fs_poll ord, ses_cleanup = fs_cleanup,
     ses_kill = fs_kill\<rparr>"

subsection \<open>The fake manager of the synchronous trait\<close>

record FakeRemoteManager =
  fr_responses :: "(CoreError + ExecutionResult) list"
  fr_sessions :: "string list"

definition fake_remote_new :: FakeRemoteManager where
  "fake_remote_new = \<lparr>fr_responses = [], fr_sessions = []\<rparr>"

definition inject_response :: "CoreError + ExecutionResult \<Rightarrow> FakeRemoteManager \<Rightarrow> FakeRemoteManager" where
  "inject_response r m = m\<lparr>fr_responses := fr_responses m @ [r]\<rparr>"

definition inject_success :: "i32 \<Rightarrow> string \<Rightarrow> string \<Rightarrow> FakeRemoteManager \<Rightarrow> FakeRemoteManager" where
  "inject_success code out err = inject_response (Ok \<lparr>xr_exit_code = code, xr_stdout = out, xr_stderr = err\<rparr>)"

definition inject_failure :: "CoreError \<Rightarrow> FakeRemoteManager \<Rightarrow> FakeRemoteManager" where
  "inject_failure e = inject_response (Err e)"

definition fr_create_or_attach :: "RemoteSessionConfig \<Rightarrow> (FakeRemoteManager, CoreError, string) op" where
  "fr_create_or_attach c m =
     (let name = ''aivcs__'' @ rc_repo_name c @ ''__'' @ rc_work_id c @ ''__'' @ role_text (role_of_remote (rc_role c)) in
      (Ok name, m\<lparr>fr_sessions := fr_sessions m @ [name]\<rparr>))"

definition fr_run_command :: "string \<Rightarrow> string \<Rightarrow> (FakeRemoteManager, CoreError, ExecutionResult) op" where
  "fr_run_command name cmd m =
     (case fr_responses m of
        [] \<Rightarrow> (Ok \<lparr>xr_exit_code = 0, xr_stdout = [], xr_stderr = []\<rparr>, m)
      | r # rest \<Rightarrow> (r, m\<lparr>fr_responses := rest\<rparr>))"

definition fr_kill_session :: "string \<Rightarrow> (FakeRemoteManager, CoreError, unit) op" where
  "fr_kill_session name m = (Ok (), m\<lparr>fr_sessions := filter (\<lambda>s. s \<noteq> name) (fr_sessions m)\<rparr>)"

definition fake_remote_ops :: "FakeRemoteManager RemoteManagerOps" where
  "fake_remote_ops = \<lparr>rmo_create_or_attach = fr_create_or_attach, rmo_run_command = fr_run_command,
     rmo_kill_session = fr_kill_session\<rparr>"

subsection \<open>Quoting is undone by the shell\<close>

text \<open>
  How a POSIX shell reads a double-quoted string, up to its closing quote: a backslash quotes a
  dollar sign, a backtick, a double quote and a backslash, it removes a newline, and it is itself
  before any other character; an unquoted dollar sign or backtick starts an expansion (\<open>None\<close>).
\<close>

fun read_dquoted :: "string \<Rightarrow> (string \<times> string) option" where
  "read_dquoted [] = None"
| "read_dquoted (c # cs) =
     (if c = dquote then Some ([], cs)
      else if c = dollar \<or> c = backtick then None
      else if c \<noteq> backslash then map_option (\<lambda>(w, r). (c # w, r)) (read_dquoted cs)
      else case cs of
        [] \<Rightarrow> None
      | d # ds \<Rightarrow>
          if d \<in> {dollar, backtick, dquote, backslash} then map_option (\<lambda>(w, r). (d # w, r)) (read_dquoted ds)
          else if d = newline then read_dquoted ds
          else map_option (\<lambda>(w, r). (c # w, r)) (read_dquoted cs))"

text \<open>Double-quoted words separated by single spaces.\<close>

inductive quoted_words :: "string \<Rightarrow> string list \<Rightarrow> bool" where
  last_word: "read_dquoted s = Some (w, []) \<Longrightarrow> quoted_words (dquote # s) [w]"
| next_word: "read_dquoted s = Some (w, CHR '' '' # rest) \<Longrightarrow> quoted_words rest ws \<Longrightarrow> quoted_words (dquote # s) (w # ws)"

inductive_cases quoted_wordsE: "quoted_words s ws"

definition needs_escape :: "char \<Rightarrow> bool" where
  "needs_escape c \<longleftrightarrow> c \<in> {dollar, backtick, dquote, backslash}"

lemma replace_char_simps [simp]:
  "replace_char c t [] = []" "replace_char c t (x # xs) = (if x = c then t else [x]) @ replace_char c t xs"
  by (simp_all add: replace_char_def)

lemma shell_escape_simps [simp]:
  "shell_escape_sh_double [] = []"
  "shell_escape_sh_double (c # cs) = (if needs_escape c then [backslash, c] else [c]) @ shell_escape_sh_double cs"
  by (simp_all add: shell_escape_sh_double_def needs_escape_def)

lemma read_escaped: "read_dquoted (shell_escape_sh_double s @ dquote # rest) = Some (s, rest)"
proof (induction s)
  case (Cons c cs)
  then show ?case by (cases "needs_escape c") (auto simp: needs_escape_def)
qed simp

lemma quoted_words_join: "args \<noteq> [] \<Longrightarrow> quoted_words (shell_join args) args"
proof (induction args rule: induct_list012)
  case (2 a)
  show ?case using read_escaped [of a "[]"] by (auto simp: shell_join_def intro: last_word)
next
  case (3 a b args)
  have "shell_join (a # b # args) = dquote # shell_escape_sh_double a @ dquote # CHR '' '' # shell_join (b # args)"
    by (simp add: shell_join_def)
  then show ?case using next_word [OF read_escaped [of a "CHR '' '' # shell_join (b # args)"]] 3 by simp
qed simp

lemma quoted_words_unique: "quoted_words s ws \<Longrightarrow> quoted_words s ws' \<Longrightarrow> ws = ws'"
proof (induction arbitrary: ws' rule: quoted_words.induct)
  case (last_word s w)
  from last_word(2) show ?case by (rule quoted_wordsE) (use last_word(1) in auto)
next
  case (next_word s w rest ws)
  from next_word(4) show ?case by (rule quoted_wordsE) (use next_word(1,3) in auto)
qed

text \<open>
  C38: whatever characters the arguments hold, the shell that is typed the wrapped command runs
  \<open>sh -c\<close> with exactly the inner script, and that script's command reads back as exactly the
  argument list, and as no other.
\<close>

theorem wrapped_command_roundtrip:
  assumes "args \<noteq> []"
  shows "\<exists>q. build_wrapped_command args path = ''sh -c '' @ dquote # q
    \<and> read_dquoted q = Some (''('' @ shell_join args @ ''); echo $? > '' @ path, [])
    \<and> (\<forall>ws. quoted_words (shell_join args) ws \<longleftrightarrow> ws = args)"
proof -
  let ?inner = "''('' @ shell_join args @ ''); echo $? > '' @ path"
  have "read_dquoted (shell_escape_sh_double ?inner @ [dquote]) = Some (?inner, [])"
    using read_escaped [of ?inner "[]"] by simp
  moreover have "build_wrapped_command args path = ''sh -c '' @ dquote # shell_escape_sh_double ?inner @ [dquote]"
    by (simp add: build_wrapped_command_def Let_def)
  moreover have "quoted_words (shell_join args) ws \<longleftrightarrow> ws = args" for ws
    using quoted_words_join [OF assms] quoted_words_unique by blast
  ultimately show ?thesis by blast
qed

theorem wrapped_command_roundtrip_witness:
  "\<forall>ws. quoted_words (shell_join [''echo'', ''a b; rm $HOME'' @ [dquote, backslash]]) ws
     \<longleftrightarrow> ws = [''echo'', ''a b; rm $HOME'' @ [dquote, backslash]]"
  using wrapped_command_roundtrip [of "[''echo'', ''a b; rm $HOME'' @ [dquote, backslash]]" "[]"] by blast

subsection \<open>Outcomes of a remote execution\<close>

text \<open>
  The execution goes on after some wakes: each was \<open>Ready\<close> and each poll found no exit code. It then
  waits, for the answer of a poll or for the interval to pass, in the given state.
\<close>

datatype 's Wait = InPoll 's | InPause 's

fun goes_on :: "'s SessionOps \<Rightarrow> ('s \<Rightarrow> 's) \<Rightarrow> string \<Rightarrow> Wake list \<Rightarrow> 's Wait \<Rightarrow> 's Wait option" where
  "goes_on ops pause path [] w = Some w"
| "goes_on ops pause path (Ready # wakes) (InPoll s) =
     (case ses_poll ops path s of (Inr None, s') \<Rightarrow> goes_on ops pause path wakes (InPause s') | _ \<Rightarrow> None)"
| "goes_on ops pause path (Ready # wakes) (InPause s) = goes_on ops pause path wakes (InPoll (pause s))"
| "goes_on ops pause path _ w = None"

primrec resume :: "'s SessionOps \<Rightarrow> ('s \<Rightarrow> 's) \<Rightarrow> ('s \<Rightarrow> 's) \<Rightarrow> string \<Rightarrow> Wake list \<Rightarrow> 's Wait \<Rightarrow> PollEnd \<times> 's" where
  "resume ops dropped pause path wakes (InPoll s) = poll_for_exit ops dropped pause path wakes s"
| "resume ops dropped pause path wakes (InPause s) = sleep_interval ops dropped pause path wakes s"

primrec wait_state :: "'s Wait \<Rightarrow> 's" where
  "wait_state (InPoll s) = s"
| "wait_state (InPause s) = s"

lemma resume_goes_on:
  "goes_on ops pause path wakes w = Some w' \<Longrightarrow>
   resume ops dropped pause path (wakes @ wakes') w = resume ops dropped pause path wakes' w'"
  by (induction ops pause path wakes w rule: goes_on.induct) (auto split: prod.splits sum.splits option.splits)

lemma resume_ends:
  "resume ops dropped pause path [] w = (Polled (FailedWithCode 124), dropped (wait_state w))"
  "resume ops dropped pause path (Elapsed # wakes) w = (Polled (FailedWithCode 124), dropped (wait_state w))"
  "resume ops dropped pause path (Noticed # wakes) w = (CancelledDuringPoll, dropped (wait_state w))"
  by (cases w, simp_all)+

text \<open>
  C39: once the command has been submitted, whatever polls have found no exit code: a cancellation
  that is noticed next, also while a poll is in flight or the task sleeps, kills the session and
  gives code 137; when the hour is over, also with a poll in flight, the code is 124; a poll
  that is answered gives the code it finds, or code 1 if it fails, even when a cancellation
  came during it but was not noticed first. Each time the sentinel file is removed last. Only a cancellation
  kills the session: after a timeout the command is left running.
\<close>

theorem ssh_execute_outcome:
  assumes "sp_command params \<noteq> []" and "path = sentinel_path_for_task (sp_task_id params)"
    and "ses_ensure ops (session_config_of (sp_location params)) s = (Ok name, s1)"
    and "ses_run ops name ''main'' (build_wrapped_command (sp_command params) path) path s1 = (Ok (), s2)"
    and "goes_on ops pause path wakes (InPoll s2) = Some w"
  shows "ssh_execute id_text ops dropped pause (wakes @ Noticed # rest) params s
        = (Ok (FailedWithCode 137), snd (ses_cleanup ops path (snd (ses_kill ops name (dropped (wait_state w))))))
    \<and> ssh_execute id_text ops dropped pause (wakes @ Elapsed # rest) params s
        = (Ok (FailedWithCode 124), snd (ses_cleanup ops path (dropped (wait_state w))))
    \<and> ssh_execute id_text ops dropped pause wakes params s
        = (Ok (FailedWithCode 124), snd (ses_cleanup ops path (dropped (wait_state w))))
    \<and> (w = InPoll s3 \<and> ses_poll ops path s3 = (Ok (Some code), s4) \<longrightarrow>
         ssh_execute id_text ops dropped pause (wakes @ Ready # rest) params s
           = (Ok (outcome_of_code code), snd (ses_cleanup ops path s4)))
    \<and> (w = InPoll s3 \<and> ses_poll ops path s3 = (Err e, s4) \<longrightarrow>
         ssh_execute id_text ops dropped pause (wakes @ Ready # rest) params s
           = (Ok (FailedWithCode 1), snd (ses_cleanup ops path s4)))"
proof -
  have "ssh_execute id_text ops dropped pause (wakes @ next) params s =
    (case resume ops dropped pause path next w of
       (Polled outcome, s3) \<Rightarrow> (Ok outcome, snd (ses_cleanup ops path s3))
     | (CancelledDuringPoll, s3) \<Rightarrow> (Ok (FailedWithCode 137), snd (ses_cleanup ops path (snd (ses_kill ops name s3)))))"
    for "next"
    using resume_goes_on [OF assms(5), of dropped "next"] assms(1,3,4)
    by (simp add: ssh_execute_def Let_def flip: assms(2))
  note run = this this [of "[]", unfolded append_Nil2]
  show ?thesis by (auto simp: run resume_ends)
qed

definition example_params :: SpawnParams where
  "example_params = \<lparr>sp_task_id = TaskId 1, sp_command = [''true''], sp_working_dir = [], sp_env = fmempty,
     sp_location = RemoteSession \<lparr>rt_host = ''h'', rt_user = ''u'', rt_repo_name = ''r''\<rparr>\<rparr>"

text \<open>A task whose session never reports an exit code is cancelled while its second poll is in flight.\<close>

theorem ssh_execute_outcome_witness:
  "fst (ssh_execute (\<lambda>_. []) (fake_session_ops sorted_list_of_set) id id ([Ready, Ready] @ [Noticed]) example_params
     (fake_sessions_new\<lparr>fs_default_behavior := NeverComplete\<rparr>)) = Ok (FailedWithCode 137)"
proof -
  let ?path = "sentinel_path_for_task (sp_task_id example_params)" and ?ops = "fake_session_ops sorted_list_of_set"
  let ?m0 = "fake_sessions_new\<lparr>fs_default_behavior := NeverComplete\<rparr>"
  let ?m1 = "note_call ''ensure_session'' (Some ''fake_session_u_r'') None None ?m0"
  let ?m2 = "note_call ''run_command_in_session'' (Some ''fake_session_u_r'') (Some ''main'') (Some ?path) ?m1"
  let ?m3 = "note_call ''poll_exit_code'' None None (Some ?path) ?m2"
  have 1: "sp_command example_params \<noteq> []" by (simp add: example_params_def)
  have 2: "ses_ensure ?ops (session_config_of (sp_location example_params)) ?m0 = (Ok ''fake_session_u_r'', ?m1)"
    by (simp add: example_params_def fake_session_ops_def fs_ensure_def Let_def session_config_of_def note_call_def
        fake_sessions_new_def)
  have 3: "ses_run ?ops ''fake_session_u_r'' ''main'' (build_wrapped_command (sp_command example_params) ?path) ?path ?m1 = (Ok (), ?m2)"
    by (simp add: fake_session_ops_def fs_run_def)
  have 4: "goes_on ?ops id ?path [Ready, Ready] (InPoll ?m2) = Some (InPoll ?m3)"
    by (simp add: fake_session_ops_def fs_poll_def first_behavior_def Let_def note_call_def fake_sessions_new_def)
  show ?thesis using ssh_execute_outcome [OF 1 refl 2 3 4, of "\<lambda>_. []" id "[]"] by simp
qed

end
