(* ===== verification/SessionCli.thy ===== *)
theory SessionCli
  imports Sessions
begin

text \<open>
  The commands of the \<open>aivcs-session\<close> program (\<open>crates/aivcs-session/src/main.rs\<close>), after \<open>clap\<close>
  has parsed the command line and filled in its defaults. The value is what is printed, line by line.
\<close>

subsection \<open>Commands\<close>

datatype Command =
    CmdAttach (cmd_repo: string) (cmd_work_id: string) (cmd_role: string) (cmd_host: string) (cmd_user: string)
  | CmdList (cmd_host: string) (cmd_user: string)
  | CmdKill (cmd_session: string) (cmd_host: string) (cmd_user: string)

definition checked :: "'e + 'a \<Rightarrow> ('a \<Rightarrow> ('s, 'e, 'b) op) \<Rightarrow> ('s, 'e, 'b) op" where
  "checked r k = (case r of Inl e \<Rightarrow> fails e | Inr x \<Rightarrow> k x)"

fun run_cli :: "'s ssh \<Rightarrow> (string \<Rightarrow> string) \<Rightarrow> Command \<Rightarrow> ('s, SessionError, string list) op" where
  "run_cli ssh esc (CmdAttach repo work_id role host user) =
     checked (role_from_str role) (\<lambda>role.
     checked (session_config_new repo work_id role) (\<lambda>config.
     checked (remote_target_new host user) (\<lambda>target.
     try_bind (attach_or_create ssh esc target config) (\<lambda>name. returns [name]))))"
| "run_cli ssh esc (CmdList host user) =
     checked (remote_target_new host user) (\<lambda>target. list_sessions ssh esc target)"
| "run_cli ssh esc (CmdKill session host user) =
     checked (remote_target_new host user) (\<lambda>target.
     try_bind (kill_session ssh esc target session) (\<lambda>_. returns [''Killed session: '' @ session]))"

lemma checked_simps [simp]: "checked (Inl e) k = fails e" "checked (Inr x) k = k x"
  by (simp_all add: checked_def)

subsection \<open>What reaches ssh\<close>

text \<open>An \<open>ssh\<close> that records its argument lists and gives the answers of a list, the last one for ever.\<close>

definition recording :: "(string list \<Rightarrow> string + SshOutput) \<Rightarrow> (string list list) ssh" where
  "recording answer args calls = (answer args, calls @ [args])"

definition safe_args :: "string \<Rightarrow> string \<Rightarrow> string list \<Rightarrow> bool" where
  "safe_args host user args \<longleftrightarrow> host \<noteq> [] \<and> user \<noteq> [] \<and> list_all ssh_char host \<and> list_all ssh_char user
     \<and> (\<exists>command. args = [''-o'', ''ConnectTimeout=5'', user @ ''@'' @ host, command])"

definition calls_safe :: "string \<Rightarrow> string \<Rightarrow> (string list list, SessionError, 'a) op \<Rightarrow> bool" where
  "calls_safe host user m \<longleftrightarrow> (\<forall>s. \<exists>new. snd (m s) = s @ new \<and> list_all (safe_args host user) new)"

lemma calls_safe_intros:
  "calls_safe h u (returns x)" "calls_safe h u (fails e)"
  "calls_safe h u m \<Longrightarrow> (\<And>x. calls_safe h u (k x)) \<Longrightarrow> calls_safe h u (try_bind m k)"
proof -
  show "calls_safe h u (try_bind m k)" if m: "calls_safe h u m" and k: "\<And>x. calls_safe h u (k x)"
    unfolding calls_safe_def
  proof
    fix s
    obtain r s' where ms: "m s = (r, s')" by fastforce
    then obtain n1 where n1: "s' = s @ n1" "list_all (safe_args h u) n1" using m unfolding calls_safe_def by (metis snd_conv)
    show "\<exists>new. snd (try_bind m k s) = s @ new \<and> list_all (safe_args h u) new"
    proof (cases r)
      case (Inr x)
      obtain n2 where "snd (k x s') = s' @ n2" "list_all (safe_args h u) n2" using k unfolding calls_safe_def by metis
      then show ?thesis using n1 Inr by (intro exI [of _ "n1 @ n2"]) (simp add: try_bind_def ms)
    qed (use n1 in \<open>simp add: try_bind_def ms\<close>)
  qed
qed (simp_all add: calls_safe_def)

lemma calls_safe_run:
  assumes "remote_target_new host user = Ok target"
  shows "calls_safe host user (run_ssh (recording answer) target command)"
proof -
  have "target = \<lparr>tg_host = host, tg_user = user\<rparr> \<and> host \<noteq> [] \<and> user \<noteq> [] \<and> list_all ssh_char host \<and> list_all ssh_char user"
    using assms by (auto simp: remote_target_new_def validate_ssh_identifier_def split: if_splits)
  then show ?thesis
    by (simp add: calls_safe_def run_ssh_def recording_def safe_args_def ssh_target_def)
qed

lemma calls_safe_expect: "calls_safe h u (expect_success f out)"
  by (simp add: expect_success_def calls_safe_intros)

lemma calls_safe_checked: "(\<And>x. r = Inr x \<Longrightarrow> calls_safe h u (k x)) \<Longrightarrow> calls_safe h u (checked r k)"
  by (cases r) (simp_all add: calls_safe_intros)

text \<open>
  Whatever its arguments, the program calls \<open>ssh\<close> only with a destination it has validated: one
  argument \<open>user@host\<close> of letters, digits, dots, hyphens and underscores. An invalid host or user, a
  wrong role or a repository with a path separator ends it before the first call.
\<close>

lemma cli_calls_validated:
  "(\<exists>new. snd (run_cli (recording answer) esc cmd calls) = calls @ new
      \<and> list_all (safe_args (cmd_host cmd) (cmd_user cmd)) new)
    \<and> (snd (run_cli (recording answer) esc (CmdAttach repo work_id role host user) calls) \<noteq> calls \<longrightarrow>
        is_ok (role_from_str role) \<and> CHR ''/'' \<notin> set repo \<and> \<not> sublist ''..'' repo \<and> repo \<noteq> [] \<and> work_id \<noteq> [])"
proof -
  note intros = calls_safe_intros calls_safe_run calls_safe_expect calls_safe_checked
  have "calls_safe (cmd_host cmd) (cmd_user cmd) (run_cli (recording answer) esc cmd)"
    by (cases cmd) (auto intro!: intros simp: attach_or_create_def check_repo_exists_def tmux_new_session_def
        list_sessions_def kill_session_def split: sum.split)
  moreover have "is_ok (role_from_str role) \<and> is_ok (session_config_new repo work_id r)"
    if "snd (run_cli (recording answer) esc (CmdAttach repo work_id role host user) calls) \<noteq> calls"
      "role_from_str role = Inr r" for r
    using that by (cases "session_config_new repo work_id r") simp_all
  ultimately show ?thesis unfolding calls_safe_def
    by (cases "role_from_str role") (auto elim!: is_okE dest!: session_config_newD)
qed

definition quiet_answer :: "string list \<Rightarrow> string + SshOutput" where
  "quiet_answer args = Ok \<lparr>so_success = True, so_code = Some 0, so_stdout = [], so_stderr = []\<rparr>"

text \<open>The validation does not look at the first character, so the destination can be an option of \<open>ssh\<close>.\<close>

lemma ssh_target_option:
  "\<exists>t. remote_target_new ''host'' ''-v'' = Ok t \<and> hd (ssh_target t) = CHR ''-''"
  by (simp add: remote_target_new_def validate_ssh_identifier_def ssh_char_def is_ascii_alphanumeric_def between_def
      ssh_target_def)

end
