(* ===== verification/PersistentLease.thy ===== *)
theory PersistentLease
  imports LeaseManager "HOL-Library.List_Lexorder" "HOL-Library.Char_ord" "HOL-Library.Countable" "HOL-Library.Sublist"
begin

text \<open>
  The persistent lease store of \<open>crates/core/src/persistent_lease.rs\<close>. The database is the rows of
  its table; an error it returns is the argument \<open>db\<close> of the operation, its text. \<open>serde_json\<close>,
  the texts of identifiers and dates and the order in which the database delivers rows are the
  parameters of \<open>lease_format\<close>. An instant counts from the Unix epoch.
\<close>

subsection \<open>Rows and operations\<close>

record lease_row =
  lw_task_id :: string
  lw_lease_id :: string
  lw_worker_id :: string
  lw_state :: string
  lw_acquired_at :: string
  lw_expires_at :: string
  lw_attempt :: u32
  lw_json :: string

record SqliteLeaseStore =
  sl_rows :: "lease_row list"
  sl_poisoned :: bool

record lease_format =
  lf_task :: "TaskId \<Rightarrow> string"
  lf_lease :: "LeaseId \<Rightarrow> string"
  lf_worker :: "WorkerId \<Rightarrow> string"
  lf_to_json :: "Lease \<Rightarrow> string + string"
  lf_from_json :: "string \<Rightarrow> string + Lease"
  lf_rfc3339 :: "instant \<Rightarrow> string"
  lf_datetime :: "instant \<Rightarrow> string"
  lf_order :: "lease_row list \<Rightarrow> lease_row list"
  lf_unique :: string

primrec lease_state_text :: "LeaseState \<Rightarrow> string" where
  "lease_state_text Active = ''Active''"
| "lease_state_text Completed = ''Completed''"
| "lease_state_text (Failed _) = ''Failed''"
| "lease_state_text Expired = ''Expired''"
| "lease_state_text Cancelled = ''Cancelled''"

text \<open>Opening the file: the rows that earlier runs left are there.\<close>

definition sq_open :: "lease_row list \<Rightarrow> SqliteLeaseStore" where
  "sq_open rows = \<lparr>sl_rows = rows, sl_poisoned = False\<rparr>"

definition with_conn :: "(SqliteLeaseStore, CoreError, 'a) op \<Rightarrow> (SqliteLeaseStore, CoreError, 'a) op" where
  "with_conn m s = (if sl_poisoned s then (Err (LockPoisoned ''lease store''), s) else m s)"

text \<open>The conversions of the question mark operator and the explicit one of \<open>insert\<close> and \<open>update\<close>.\<close>

definition execute_sql :: "(string \<Rightarrow> CoreError) \<Rightarrow> string option \<Rightarrow> (SqliteLeaseStore, CoreError, 'a) op
    \<Rightarrow> (SqliteLeaseStore, CoreError, 'a) op" where
  "execute_sql err db m = (case db of Some e \<Rightarrow> fails (err e) | None \<Rightarrow> m)"

definition as_json :: "lease_format \<Rightarrow> Lease \<Rightarrow> (string \<Rightarrow> (SqliteLeaseStore, CoreError, 'a) op)
    \<Rightarrow> (SqliteLeaseStore, CoreError, 'a) op" where
  "as_json F l k = (case lf_to_json F l of Inl e \<Rightarrow> fails (SerializationError e) | Inr json \<Rightarrow> k json)"

definition insert_failed :: "string \<Rightarrow> CoreError" where
  "insert_failed e = Internal (''Failed to insert lease: '' @ e)"

definition lease_row_of :: "lease_format \<Rightarrow> Lease \<Rightarrow> string \<Rightarrow> lease_row" where
  "lease_row_of F l json =
     \<lparr>lw_task_id = lf_task F (ls_task_id l), lw_lease_id = lf_lease F (ls_lease_id l),
      lw_worker_id = lf_worker F (ls_worker_id l), lw_state = lease_state_text (ls_state l),
      lw_acquired_at = lf_rfc3339 F (ls_acquired_at l), lw_expires_at = lf_rfc3339 F (ls_expires_at l),
      lw_attempt = ls_attempt l, lw_json = json\<rparr>"

text \<open>The task id is the primary key.\<close>

definition sq_insert :: "lease_format \<Rightarrow> string option \<Rightarrow> Lease \<Rightarrow> (SqliteLeaseStore, CoreError, unit) op" where
  "sq_insert F db l =
     with_conn (as_json F l (\<lambda>json. execute_sql insert_failed db (\<lambda>s.
       if list_ex (\<lambda>r. lw_task_id r = lf_task F (ls_task_id l)) (sl_rows s)
       then (Err (insert_failed (lf_unique F)), s)
       else (Ok (), s\<lparr>sl_rows := sl_rows s @ [lease_row_of F l json]\<rparr>))))"

definition corrupt_lease :: "string \<Rightarrow> CoreError" where
  "corrupt_lease e = Internal (''corrupt lease JSON: '' @ e)"

definition sq_get :: "lease_format \<Rightarrow> string option \<Rightarrow> TaskId \<Rightarrow> (SqliteLeaseStore, CoreError, Lease option) op" where
  "sq_get F db t =
     with_conn (execute_sql DatabaseError db (\<lambda>s.
       case find (\<lambda>r. lw_task_id r = lf_task F t) (sl_rows s) of
         None \<Rightarrow> (Ok None, s)
       | Some r \<Rightarrow> (map_err corrupt_lease (map_sum id Some (lf_from_json F (lw_json r))), s)))"

definition update_failed :: "string \<Rightarrow> CoreError" where
  "update_failed e = Internal (''Failed to update lease: '' @ e)"

definition updated_row :: "lease_format \<Rightarrow> Lease \<Rightarrow> string \<Rightarrow> lease_row \<Rightarrow> lease_row" where
  "updated_row F l json r =
     (if lw_task_id r = lf_task F (ls_task_id l)
      then r\<lparr>lw_state := lease_state_text (ls_state l), lw_expires_at := lf_rfc3339 F (ls_expires_at l),
             lw_attempt := ls_attempt l, lw_json := json\<rparr>
      else r)"

definition sq_update :: "lease_format \<Rightarrow> string option \<Rightarrow> Lease \<Rightarrow> (SqliteLeaseStore, CoreError, unit) op" where
  "sq_update F db l =
     with_conn (as_json F l (\<lambda>json. execute_sql update_failed db (\<lambda>s.
       (Ok (), s\<lparr>sl_rows := map (updated_row F l json) (sl_rows s)\<rparr>))))"

definition sq_remove :: "lease_format \<Rightarrow> string option \<Rightarrow> TaskId \<Rightarrow> (SqliteLeaseStore, CoreError, unit) op" where
  "sq_remove F db t =
     with_conn (execute_sql DatabaseError db (\<lambda>s.
       (Ok (), s\<lparr>sl_rows := filter (\<lambda>r. lw_task_id r \<noteq> lf_task F t) (sl_rows s)\<rparr>)))"

text \<open>Decoding stops at the first corrupt row.\<close>

fun decode_leases :: "lease_format \<Rightarrow> string list \<Rightarrow> CoreError + Lease list" where
  "decode_leases F [] = Ok []"
| "decode_leases F (json # rest) =
     (case lf_from_json F json of
        Inl e \<Rightarrow> Err (corrupt_lease e)
      | Inr l \<Rightarrow> (case decode_leases F rest of Inl e \<Rightarrow> Err e | Inr ls \<Rightarrow> Ok (l # ls)))"

definition select_leases :: "lease_format \<Rightarrow> string option \<Rightarrow> (lease_row \<Rightarrow> bool) \<Rightarrow> (SqliteLeaseStore, CoreError, Lease list) op" where
  "select_leases F db P =
     with_conn (execute_sql DatabaseError db (\<lambda>s.
       (decode_leases F (map lw_json (lf_order F (filter P (sl_rows s)))), s)))"

definition sq_active :: "lease_format \<Rightarrow> string option \<Rightarrow> (SqliteLeaseStore, CoreError, Lease list) op" where
  "sq_active F db = select_leases F db (\<lambda>r. lw_state r = ''Active'')"

text \<open>Both compare the stored text with the text of \<open>datetime('now')\<close>.\<close>

definition recover_active_leases :: "lease_format \<Rightarrow> string option \<Rightarrow> instant \<Rightarrow> (SqliteLeaseStore, CoreError, Lease list) op" where
  "recover_active_leases F db now = select_leases F db (\<lambda>r. lw_expires_at r > lf_datetime F now)"

definition find_expired_leases :: "lease_format \<Rightarrow> string option \<Rightarrow> instant \<Rightarrow> (SqliteLeaseStore, CoreError, Lease list) op" where
  "find_expired_leases F db now = select_leases F db (\<lambda>r. lw_expires_at r \<le> lf_datetime F now)"

definition sqlite_store :: "lease_format \<Rightarrow> SqliteLeaseStore LeaseStoreOps" where
  "sqlite_store F = \<lparr>store_insert = sq_insert F None, store_get = sq_get F None, store_update = sq_update F None,
     store_remove = sq_remove F None, store_active = sq_active F None\<rparr>"

lemma sqlite_store_simps [simp]:
  "store_insert (sqlite_store F) = sq_insert F None" "store_get (sqlite_store F) = sq_get F None"
  "store_update (sqlite_store F) = sq_update F None" "store_remove (sqlite_store F) = sq_remove F None"
  "store_active (sqlite_store F) = sq_active F None"
  by (simp_all add: sqlite_store_def)

subsection \<open>The store is a map of leases\<close>

text \<open>
  What the store relies on of the formats: different tasks have different texts, a lease's text is
  read back as the lease, and the database delivers each selected row once.
\<close>

definition lease_format_ok :: "lease_format \<Rightarrow> bool" where
  "lease_format_ok F \<longleftrightarrow> inj (lf_task F) \<and> (\<forall>l. \<exists>json. lf_to_json F l = Ok json \<and> lf_from_json F json = Ok l)
     \<and> (\<forall>rows. mset (lf_order F rows) = mset rows)"

definition row_lease :: "lease_format \<Rightarrow> lease_row \<Rightarrow> Lease" where
  "row_lease F r = projr (lf_from_json F (lw_json r))"

definition row_ok :: "lease_format \<Rightarrow> lease_row \<Rightarrow> bool" where
  "row_ok F r \<longleftrightarrow> lf_from_json F (lw_json r) = Ok (row_lease F r)
     \<and> lw_task_id r = lf_task F (ls_task_id (row_lease F r))
     \<and> lw_state r = lease_state_text (ls_state (row_lease F r))
     \<and> lw_expires_at r = lf_rfc3339 F (ls_expires_at (row_lease F r))"

definition sqlite_valid :: "lease_format \<Rightarrow> SqliteLeaseStore \<Rightarrow> bool" where
  "sqlite_valid F s \<longleftrightarrow> \<not> sl_poisoned s \<and> list_all (row_ok F) (sl_rows s) \<and> distinct (map lw_task_id (sl_rows s))"

definition sqlite_view :: "lease_format \<Rightarrow> SqliteLeaseStore \<Rightarrow> TaskId \<Rightarrow> Lease option" where
  "sqlite_view F s t = map_option (row_lease F) (find (\<lambda>r. lw_task_id r = lf_task F t) (sl_rows s))"

lemma lease_format_okE:
  assumes "lease_format_ok F"
  obtains json where "lf_to_json F l = Ok json" "lf_from_json F json = Ok l"
  using assms by (auto simp: lease_format_ok_def)

lemma lf_task_eq [simp]: "lease_format_ok F \<Longrightarrow> lf_task F t = lf_task F u \<longleftrightarrow> t = u"
  by (auto simp: lease_format_ok_def inj_eq)

lemma row_ok_new:
  "lf_from_json F json = Ok l \<Longrightarrow> row_ok F (lease_row_of F l json) \<and> row_lease F (lease_row_of F l json) = l"
  by (simp add: row_ok_def row_lease_def lease_row_of_def)

lemma row_ok_updated:
  "lf_from_json F json = Ok l \<Longrightarrow> lw_task_id r = lf_task F (ls_task_id l) \<Longrightarrow>
    row_ok F (updated_row F l json r) \<and> row_lease F (updated_row F l json r) = l"
  by (simp add: row_ok_def row_lease_def updated_row_def)

lemma updated_row_key [simp]: "lw_task_id (updated_row F l json r) = lw_task_id r"
  by (simp add: updated_row_def)

lemma decode_rows_ok:
  "list_all (row_ok F) rows \<Longrightarrow> decode_leases F (map lw_json rows) = Ok (map (row_lease F) rows)"
  by (induction rows) (simp_all add: row_ok_def)

text \<open>A selection delivers the leases of the selected rows.\<close>

lemma select_ok:
  assumes F: "lease_format_ok F" and s: "sqlite_valid F s"
  shows "select_leases F None P s = (Ok (map (row_lease F) (lf_order F (filter P (sl_rows s)))), s)"
proof -
  have "set (lf_order F (filter P (sl_rows s))) = set (filter P (sl_rows s))"
    using F by (metis lease_format_ok_def mset_eq_setD)
  then have "list_all (row_ok F) (lf_order F (filter P (sl_rows s)))"
    using s by (simp add: sqlite_valid_def list_all_iff)
  then show ?thesis using s
    by (simp add: select_leases_def with_conn_def execute_sql_def sqlite_valid_def decode_rows_ok)
qed

lemma order_set: "lease_format_ok F \<Longrightarrow> set (lf_order F rows) = set rows"
  by (metis lease_format_ok_def mset_eq_setD)

lemma order_distinct:
  assumes "lease_format_ok F" "distinct (map f rows)"
  shows "distinct (map f (lf_order F rows))"
proof -
  have "mset (map f (lf_order F rows)) = mset (map f rows)"
    using assms(1) by (simp add: lease_format_ok_def)
  then show ?thesis using assms(2) by (metis mset_eq_imp_distinct_iff)
qed

lemma find_map_same:
  "(\<And>x. P (f x) \<longleftrightarrow> P x) \<Longrightarrow> find P (map f xs) = map_option f (find P xs)"
  by (induction xs) auto

lemma find_snoc: "find P (xs @ [x]) = (case find P xs of None \<Rightarrow> if P x then Some x else None | Some y \<Rightarrow> Some y)"
  by (induction xs) auto

lemma find_unique:
  "distinct (map f xs) \<Longrightarrow> x \<in> set xs \<Longrightarrow> find (\<lambda>y. f y = f x) xs = Some x"
  by (induction xs) force+

lemma find_Some: "find P xs = Some x \<Longrightarrow> x \<in> set xs \<and> P x"
  by (metis find_Some_iff nth_mem)

lemma view_row:
  assumes "lease_format_ok F" "sqlite_valid F s"
  shows "sqlite_view F s t = Some l \<longleftrightarrow> (\<exists>r \<in> set (sl_rows s). lw_task_id r = lf_task F t \<and> row_lease F r = l)"
proof
  assume "sqlite_view F s t = Some l"
  then show "\<exists>r \<in> set (sl_rows s). lw_task_id r = lf_task F t \<and> row_lease F r = l"
    by (auto simp: sqlite_view_def dest: find_Some)
next
  assume "\<exists>r \<in> set (sl_rows s). lw_task_id r = lf_task F t \<and> row_lease F r = l"
  then obtain r where r: "r \<in> set (sl_rows s)" "lw_task_id r = lf_task F t" "row_lease F r = l" by blast
  then show "sqlite_view F s t = Some l"
    using find_unique [of lw_task_id "sl_rows s" r] assms(2) by (simp add: sqlite_view_def sqlite_valid_def)
qed

lemma row_task:
  assumes "lease_format_ok F" "row_ok F r" "lw_task_id r = lf_task F t"
  shows "ls_task_id (row_lease F r) = t"
  using assms by (simp add: row_ok_def)

lemma view_none: "sqlite_view F s t = None \<longleftrightarrow> (\<forall>r \<in> set (sl_rows s). lw_task_id r \<noteq> lf_task F t)"
  by (auto simp: sqlite_view_def find_None_iff)

lemma insert_step:
  assumes F: "lease_format_ok F" and s: "sqlite_valid F s" and n: "sqlite_view F s (ls_task_id l) = None"
  shows "\<exists>s'. sq_insert F None l s = (Ok (), s') \<and> sqlite_valid F s'
    \<and> sqlite_view F s' = (sqlite_view F s)(ls_task_id l \<mapsto> l)"
proof -
  obtain json where j: "lf_to_json F l = Ok json" "lf_from_json F json = Ok l" using F by (rule lease_format_okE)
  note r = row_ok_new [OF j(2)]
  have n': "\<forall>r \<in> set (sl_rows s). lw_task_id r \<noteq> lf_task F (ls_task_id l)" using n by (simp add: view_none)
  let ?s = "s\<lparr>sl_rows := sl_rows s @ [lease_row_of F l json]\<rparr>"
  have key: "lw_task_id (lease_row_of F l json) = lf_task F (ls_task_id l)" by (simp add: lease_row_of_def)
  have "sq_insert F None l s = (Ok (), ?s)"
    using s n' by (auto simp: sq_insert_def with_conn_def as_json_def execute_sql_def j(1) sqlite_valid_def list_ex_iff)
  moreover have v: "sqlite_valid F ?s" using s r n' key by (auto simp: sqlite_valid_def)
  moreover have "sqlite_view F ?s = (sqlite_view F s)(ls_task_id l \<mapsto> l)"
    using n r key F by (auto simp: sqlite_view_def find_snoc fun_eq_iff split: option.splits)
  ultimately show ?thesis by blast
qed

lemma insert_refused_step:
  assumes F: "lease_format_ok F" and s: "sqlite_valid F s" and n: "sqlite_view F s (ls_task_id l) \<noteq> None"
  shows "sq_insert F None l s = (Err (insert_failed (lf_unique F)), s)"
proof -
  obtain json where j: "lf_to_json F l = Ok json" using F by (rule lease_format_okE)
  have "list_ex (\<lambda>r. lw_task_id r = lf_task F (ls_task_id l)) (sl_rows s)"
    using n unfolding view_none by (simp add: list_ex_iff)
  then show ?thesis
    using s by (simp add: sq_insert_def with_conn_def as_json_def execute_sql_def j sqlite_valid_def)
qed

lemma update_step:
  assumes F: "lease_format_ok F" and s: "sqlite_valid F s" and n: "sqlite_view F s (ls_task_id l) \<noteq> None"
  shows "\<exists>s'. sq_update F None l s = (Ok (), s') \<and> sqlite_valid F s'
    \<and> sqlite_view F s' = (sqlite_view F s)(ls_task_id l \<mapsto> l)"
proof -
  obtain json where j: "lf_to_json F l = Ok json" "lf_from_json F json = Ok l" using F by (rule lease_format_okE)
  note r = row_ok_updated [OF j(2)]
  let ?s = "s\<lparr>sl_rows := map (updated_row F l json) (sl_rows s)\<rparr>"
  have "sq_update F None l s = (Ok (), ?s)"
    using s by (simp add: sq_update_def with_conn_def as_json_def execute_sql_def j(1) sqlite_valid_def)
  moreover have "row_ok F (updated_row F l json x)" if "row_ok F x" for x
    using that r [of x] by (cases "lw_task_id x = lf_task F (ls_task_id l)") (simp_all add: updated_row_def)
  then have "sqlite_valid F ?s" using s by (auto simp: sqlite_valid_def list_all_iff comp_def)
  moreover have "sqlite_view F ?s t = ((sqlite_view F s)(ls_task_id l \<mapsto> l)) t" for t
  proof -
    have "sqlite_view F ?s t = map_option (row_lease F \<circ> updated_row F l json) (find (\<lambda>x. lw_task_id x = lf_task F t) (sl_rows s))"
      by (simp add: sqlite_view_def find_map_same option.map_comp)
    moreover have "row_lease F (updated_row F l json x) = (if t = ls_task_id l then l else row_lease F x)"
      if "find (\<lambda>x. lw_task_id x = lf_task F t) (sl_rows s) = Some x" for x
      using find_Some [OF that] r [of x] F by (auto simp: updated_row_def)
    ultimately show ?thesis
      using n by (cases "find (\<lambda>x. lw_task_id x = lf_task F t) (sl_rows s)") (auto simp: sqlite_view_def)
  qed
  ultimately show ?thesis by blast
qed

lemma find_filter_other:
  "lease_format_ok F \<Longrightarrow> find (\<lambda>r. lw_task_id r = lf_task F u) (filter (\<lambda>r. lw_task_id r \<noteq> lf_task F t) rs)
     = (if u = t then None else find (\<lambda>r. lw_task_id r = lf_task F u) rs)"
  by (induction rs) auto

lemma remove_step:
  assumes F: "lease_format_ok F" and s: "sqlite_valid F s"
  shows "\<exists>s'. sq_remove F None t s = (Ok (), s') \<and> sqlite_valid F s' \<and> sqlite_view F s' = (sqlite_view F s)(t := None)"
proof -
  let ?s = "s\<lparr>sl_rows := filter (\<lambda>r. lw_task_id r \<noteq> lf_task F t) (sl_rows s)\<rparr>"
  have "sq_remove F None t s = (Ok (), ?s)"
    using s by (simp add: sq_remove_def with_conn_def execute_sql_def sqlite_valid_def)
  moreover have "sqlite_valid F ?s" using s by (auto simp: sqlite_valid_def list_all_iff distinct_map_filter)
  moreover have "sqlite_view F ?s u = ((sqlite_view F s)(t := None)) u" for u
    by (simp add: sqlite_view_def find_filter_other [OF F])
  ultimately show ?thesis by blast
qed

lemma get_step:
  assumes s: "sqlite_valid F s"
  shows "sq_get F None t s = (Ok (sqlite_view F s t), s)"
proof (cases "find (\<lambda>r. lw_task_id r = lf_task F t) (sl_rows s)")
  case (Some r)
  then have "row_ok F r" using s find_Some [OF Some] by (simp add: sqlite_valid_def list_all_iff)
  then show ?thesis using Some s
    by (simp add: sq_get_def with_conn_def execute_sql_def sqlite_valid_def sqlite_view_def row_ok_def)
qed (use s in \<open>simp add: sq_get_def with_conn_def execute_sql_def sqlite_valid_def sqlite_view_def\<close>)

lemma state_text_Active [simp]: "lease_state_text st = ''Active'' \<longleftrightarrow> st = Active"
  by (cases st) simp_all

lemma active_step:
  assumes F: "lease_format_ok F" and s: "sqlite_valid F s"
  shows "\<exists>ls. sq_active F None s = (Ok ls, s) \<and> distinct (map ls_task_id ls)
    \<and> set ls = {l. sqlite_view F s (ls_task_id l) = Some l \<and> ls_state l = Active}"
proof -
  let ?rs = "lf_order F (filter (\<lambda>r. lw_state r = ''Active'') (sl_rows s))"
  have ok: "\<forall>r \<in> set (sl_rows s). row_ok F r" using s by (simp add: sqlite_valid_def list_all_iff)
  have rs: "set ?rs = {r \<in> set (sl_rows s). lw_state r = ''Active''}" using order_set [OF F] by simp
  have "distinct (map lw_task_id ?rs)"
    by (rule order_distinct [OF F distinct_map_filter]) (use s in \<open>simp add: sqlite_valid_def\<close>)
  moreover have "map lw_task_id ?rs = map (lf_task F) (map ls_task_id (map (row_lease F) ?rs))"
    using rs ok by (auto simp: row_ok_def)
  ultimately have "distinct (map ls_task_id (map (row_lease F) ?rs))" by (metis distinct_map)
  moreover have "set (map (row_lease F) ?rs) = {l. sqlite_view F s (ls_task_id l) = Some l \<and> ls_state l = Active}"
    unfolding view_row [OF F s] using rs ok by (fastforce simp: row_ok_def)
  ultimately show ?thesis using select_ok [OF F s] by (auto simp: sq_active_def)
qed

lemma sqlite_key:
  assumes "lease_format_ok F" "sqlite_valid F s" "sqlite_view F s t = Some l"
  shows "ls_task_id l = t"
  using assms(3) row_task [OF assms(1)] assms(2)
  unfolding view_row [OF assms(1,2)] by (auto simp: sqlite_valid_def list_all_iff)

lemma sqlite_lease_map:
  "lease_format_ok F \<Longrightarrow> lease_map (sqlite_store F) (sqlite_valid F) (sqlite_view F)"
  by unfold_locales
    (use sqlite_key get_step insert_step insert_refused_step update_step remove_step active_step in \<open>fastforce+\<close>)

subsection \<open>The calls of the store and what they promise\<close>

text \<open>
  The calls of the trait, each with the error of the database if it has one, and opening the file
  again after the process has ended.
\<close>

datatype StoreCall = StInsert Lease | StGet TaskId | StUpdate Lease | StRemove TaskId | StActive | StReopen

datatype StoreReply =
    StDone "CoreError + unit"
  | StFound "CoreError + Lease option"
  | StListed "CoreError + Lease list"
  | StOpened

primrec sq_call :: "lease_format \<Rightarrow> string option \<Rightarrow> StoreCall \<Rightarrow> SqliteLeaseStore \<Rightarrow> StoreReply \<times> SqliteLeaseStore" where
  "sq_call F db (StInsert l) s = map_prod StDone id (sq_insert F db l s)"
| "sq_call F db (StGet t) s = map_prod StFound id (sq_get F db t s)"
| "sq_call F db (StUpdate l) s = map_prod StDone id (sq_update F db l s)"
| "sq_call F db (StRemove t) s = map_prod StDone id (sq_remove F db t s)"
| "sq_call F db StActive s = map_prod StListed id (sq_active F db s)"
| "sq_call F db StReopen s = (StOpened, sq_open (sl_rows s))"

fun sq_calls :: "lease_format \<Rightarrow> (StoreCall \<times> string option) list \<Rightarrow> SqliteLeaseStore
    \<Rightarrow> StoreReply list \<times> SqliteLeaseStore" where
  "sq_calls F [] s = ([], s)"
| "sq_calls F ((call, db) # calls) s =
     (case sq_call F db call s of (r, s1) \<Rightarrow> case sq_calls F calls s1 of (rs, s2) \<Rightarrow> (r # rs, s2))"

text \<open>A map from tasks to leases, and what each call answers and does to it.\<close>

inductive map_call :: "lease_format \<Rightarrow> string option \<Rightarrow> StoreCall \<Rightarrow> (TaskId \<Rightarrow> Lease option) \<Rightarrow> StoreReply
    \<Rightarrow> (TaskId \<Rightarrow> Lease option) \<Rightarrow> bool" for F where
  insert_free: "m (ls_task_id l) = None \<Longrightarrow> map_call F None (StInsert l) m (StDone (Ok ())) (m(ls_task_id l \<mapsto> l))"
| insert_taken: "m (ls_task_id l) \<noteq> None \<Longrightarrow>
    map_call F None (StInsert l) m (StDone (Err (insert_failed (lf_unique F)))) m"
| insert_fails: "map_call F (Some e) (StInsert l) m (StDone (Err (insert_failed e))) m"
| get_found: "map_call F None (StGet t) m (StFound (Ok (m t))) m"
| get_fails: "map_call F (Some e) (StGet t) m (StFound (Err (DatabaseError e))) m"
| update_held: "m (ls_task_id l) \<noteq> None \<Longrightarrow> map_call F None (StUpdate l) m (StDone (Ok ())) (m(ls_task_id l \<mapsto> l))"
| update_absent: "m (ls_task_id l) = None \<Longrightarrow> map_call F None (StUpdate l) m (StDone (Ok ())) m"
| update_fails: "map_call F (Some e) (StUpdate l) m (StDone (Err (update_failed e))) m"
| remove_done: "map_call F None (StRemove t) m (StDone (Ok ())) (m(t := None))"
| remove_fails: "map_call F (Some e) (StRemove t) m (StDone (Err (DatabaseError e))) m"
| active_listed: "distinct (map ls_task_id ls) \<Longrightarrow> set ls = {l. m (ls_task_id l) = Some l \<and> ls_state l = Active} \<Longrightarrow>
    map_call F None StActive m (StListed (Ok ls)) m"
| active_fails: "map_call F (Some e) StActive m (StListed (Err (DatabaseError e))) m"
| reopened: "map_call F db StReopen m StOpened m"

inductive map_calls :: "lease_format \<Rightarrow> (StoreCall \<times> string option) list \<Rightarrow> (TaskId \<Rightarrow> Lease option) \<Rightarrow> StoreReply list
    \<Rightarrow> (TaskId \<Rightarrow> Lease option) \<Rightarrow> bool" for F where
  no_call: "map_calls F [] m [] m"
| next_call: "map_call F db call m r m1 \<Longrightarrow> map_calls F calls m1 rs m2 \<Longrightarrow> map_calls F ((call, db) # calls) m (r # rs) m2"

lemma update_absent_step:
  assumes F: "lease_format_ok F" and s: "sqlite_valid F s" and n: "sqlite_view F s (ls_task_id l) = None"
  shows "sq_update F None l s = (Ok (), s)"
proof -
  obtain json where j: "lf_to_json F l = Ok json" using F by (rule lease_format_okE)
  have "map (updated_row F l json) (sl_rows s) = sl_rows s"
    using n unfolding view_none by (simp add: map_idI updated_row_def)
  then show ?thesis using s by (simp add: sq_update_def with_conn_def as_json_def execute_sql_def j sqlite_valid_def)
qed

lemma failing_call:
  assumes "lease_format_ok F" "sqlite_valid F s"
  shows "map_call F (Some e) call (sqlite_view F s) (fst (sq_call F (Some e) call s)) (sqlite_view F s)
    \<and> snd (sq_call F (Some e) call s) = s"
proof -
  have "lf_to_json F l \<noteq> Err x" for l x using assms(1) by (metis lease_format_okE sum.distinct(1))
  moreover have "sq_open (sl_rows s) = s" using assms(2) by (simp add: sq_open_def sqlite_valid_def)
  moreover have "\<not> sl_poisoned s" using assms(2) by (simp add: sqlite_valid_def)
  ultimately show ?thesis
    by (cases call) (auto simp: sq_insert_def sq_get_def sq_update_def sq_remove_def sq_active_def select_leases_def
        with_conn_def as_json_def execute_sql_def intro: map_call.intros split: sum.split)
qed

lemma working_call:
  assumes F: "lease_format_ok F" and s: "sqlite_valid F s"
  shows "map_call F None call (sqlite_view F s) (fst (sq_call F None call s)) (sqlite_view F (snd (sq_call F None call s)))
    \<and> sqlite_valid F (snd (sq_call F None call s))"
proof (cases call)
  case (StInsert l)
  show ?thesis
  proof (cases "sqlite_view F s (ls_task_id l)")
    case None
    then show ?thesis using insert_step [OF F s None] StInsert by (auto intro: map_call.insert_free)
  next
    case (Some x)
    then show ?thesis
      using insert_refused_step [OF F s, of l] s StInsert by (auto intro: map_call.insert_taken)
  qed
next
  case (StUpdate l)
  show ?thesis
  proof (cases "sqlite_view F s (ls_task_id l)")
    case None
    then show ?thesis using update_absent_step [OF F s None] s StUpdate by (auto intro: map_call.update_absent)
  next
    case (Some x)
    then show ?thesis using update_step [OF F s, of l] map_call.update_held [of "sqlite_view F s" l F] StUpdate by auto
  qed
next
  case (StGet t)
  then show ?thesis using get_step [OF s, of t] s by (simp add: map_call.get_found)
next
  case (StRemove t)
  then show ?thesis using remove_step [OF F s, of t] by (auto intro: map_call.remove_done)
next
  case StActive
  then show ?thesis using active_step [OF F s] s by (auto intro: map_call.active_listed)
next
  case StReopen
  have "sq_open (sl_rows s) = s" using s by (simp add: sq_open_def sqlite_valid_def)
  then show ?thesis using s StReopen by (simp add: map_call.reopened)
qed

subsection \<open>A concrete format\<close>

text \<open>
  Decimal days of ten digits, identifiers and leases as unary numerals, rows in insertion order.
\<close>

primrec decimal :: "nat \<Rightarrow> nat \<Rightarrow> string" where
  "decimal 0 n = []"
| "decimal (Suc k) n = decimal k (n div 10) @ [char_of (48 + n mod 10)]"

definition unary :: "nat \<Rightarrow> string" where
  "unary n = replicate n CHR ''x''"

primrec lease_uuid :: "LeaseId \<Rightarrow> uuid" where "lease_uuid (LeaseId u) = u"
primrec worker_uuid :: "WorkerId \<Rightarrow> uuid" where "worker_uuid (WorkerId u) = u"

fun state_code :: "LeaseState \<Rightarrow> nat" where
  "state_code Active = 0"
| "state_code Completed = 1"
| "state_code Expired = 2"
| "state_code Cancelled = 3"
| "state_code (Failed n) = 4 + unat n"

definition code_state :: "nat \<Rightarrow> LeaseState" where
  "code_state n = (if n = 0 then Active else if n = 1 then Completed else if n = 2 then Expired
     else if n = 3 then Cancelled else Failed (of_nat (n - 4)))"

definition lease_code :: "Lease \<Rightarrow> nat" where
  "lease_code l = list_encode [unat (lease_uuid (ls_lease_id l)), unat (task_uuid (ls_task_id l)),
     unat (worker_uuid (ls_worker_id l)), state_code (ls_state l), int_encode (ls_acquired_at l),
     int_encode (ls_expires_at l), unat (ls_attempt l)]"

definition code_lease :: "nat \<Rightarrow> string + Lease" where
  "code_lease n = (case list_decode n of
      [i, t, w, st, a, e, k] \<Rightarrow> Ok \<lparr>ls_lease_id = LeaseId (of_nat i), ls_task_id = TaskId (of_nat t),
        ls_worker_id = WorkerId (of_nat w), ls_state = code_state st, ls_acquired_at = int_decode a,
        ls_expires_at = int_decode e, ls_attempt = of_nat k\<rparr>
    | _ \<Rightarrow> Err ''not a lease'')"

definition day_ns :: int where "day_ns = 86400 * 10 ^ 9"

definition plain_format :: lease_format where
  "plain_format = \<lparr>lf_task = unary \<circ> unat \<circ> task_uuid, lf_lease = unary \<circ> unat \<circ> lease_uuid,
     lf_worker = unary \<circ> unat \<circ> worker_uuid, lf_to_json = Ok \<circ> unary \<circ> lease_code, lf_from_json = code_lease \<circ> length,
     lf_rfc3339 = (\<lambda>i. decimal 10 (nat (i div day_ns)) @ ''T''), lf_datetime = (\<lambda>i. decimal 10 (nat (i div day_ns)) @ '' ''),
     lf_order = (\<lambda>rows. rows), lf_unique = ''UNIQUE constraint failed: leases.task_id''\<rparr>"

lemma code_state_code [simp]: "code_state (state_code st) = st"
  by (cases st) (simp_all add: code_state_def)

lemma code_lease_code [simp]: "code_lease (lease_code l) = Ok l"
  by (cases l; cases "ls_lease_id l"; cases "ls_task_id l"; cases "ls_worker_id l")
    (simp add: code_lease_def lease_code_def list_encode_inverse int_encode_inverse)

lemma unary_eq [simp]: "unary n = unary m \<longleftrightarrow> n = m"
  by (metis length_replicate unary_def)

lemma plain_format_ok: "lease_format_ok plain_format"
proof -
  have "t = u" if "unat (task_uuid t) = unat (task_uuid u)" for t u :: TaskId
    using that by (cases t; cases u) (simp add: word_unat_eq_iff)
  then show ?thesis by (auto simp: lease_format_ok_def plain_format_def inj_def unary_def)
qed

interpretation sqlite: lease_map "sqlite_store plain_format" "sqlite_valid plain_format" "sqlite_view plain_format"
  by (rule sqlite_lease_map [OF plain_format_ok])

subsection \<open>Properties\<close>

text \<open>
  C20: the SQLite store is a map from tasks to leases, for every sequence of calls, of which any may
  meet an error of the database, with any openings of the file in between: each answer and each effect is
  that of the map, which a failing call leaves as it is. A second insert for a task is refused, with an
  internal error though, not \<open>AlreadyLeased\<close>, the error the callers look for; and updating a lease
  that is not there succeeds and does nothing, where the in-memory store reports an error.
\<close>

theorem sqlite_store_is_map:
  assumes "lease_format_ok F" and "sqlite_valid F s" and "sq_calls F calls s = (rs, s')"
  shows "map_calls F calls (sqlite_view F s) rs (sqlite_view F s') \<and> sqlite_valid F s'"
  using assms(2,3)
proof (induction calls arbitrary: s rs)
  case Nil
  then show ?case by (simp add: map_calls.no_call)
next
  case (Cons x calls)
  obtain call db where x: "x = (call, db)" by (cases x)
  obtain r s1 where c: "sq_call F db call s = (r, s1)" by fastforce
  obtain rs1 where rs: "sq_calls F calls s1 = (rs1, s')" "rs = r # rs1"
    using Cons.prems(2) c x by (auto split: prod.splits)
  have "map_call F db call (sqlite_view F s) r (sqlite_view F s1) \<and> sqlite_valid F s1"
    using failing_call [OF assms(1) Cons.prems(1), of "the db" call] working_call [OF assms(1) Cons.prems(1), of call] c Cons.prems(1)
    by (cases db) auto
  then show ?case using Cons.IH [OF _ rs(1)] rs(2) x by (auto intro: map_calls.next_call)
qed

definition example_calls :: "(StoreCall \<times> string option) list" where
  "example_calls = [(StInsert (example_lease (TaskId 1) (WorkerId 1) 1), None), (StReopen, None),
     (StInsert (example_lease (TaskId 1) (WorkerId 2) 2), None), (StGet (TaskId 1), None)]"

text \<open>
  After a restart the lease of the first worker is found, and the second worker's lease is refused.
\<close>

inductive_simps map_calls_simps:
  "map_calls F [] m rs m'" "map_calls F ((call, db) # calls) m rs m'"

inductive_simps map_call_simps:
  "map_call F None (StInsert l) m r m'" "map_call F None StReopen m r m'" "map_call F None (StGet t) m r m'"

theorem sqlite_store_is_map_witness:
  "fst (sq_calls plain_format example_calls (sq_open []))
     = [StDone (Ok ()), StOpened, StDone (Err (insert_failed (lf_unique plain_format))),
        StFound (Ok (Some (example_lease (TaskId 1) (WorkerId 1) 1)))]"
proof -
  have v: "sqlite_valid plain_format (sq_open [])" "sqlite_view plain_format (sq_open []) = Map.empty"
    by (auto simp: sqlite_valid_def sqlite_view_def sq_open_def)
  obtain rs s' where run: "sq_calls plain_format example_calls (sq_open []) = (rs, s')" by fastforce
  have "ls_task_id (example_lease (TaskId 1) w k) = TaskId 1" for w k by (simp add: example_lease_def lease_new_def)
  then show ?thesis using sqlite_store_is_map [OF plain_format_ok v(1) run] run
    by (auto simp: v(2) example_calls_def map_calls_simps map_call_simps)
qed

text \<open>
  Leases stay exclusive under the lease manager, across restarts too: a task that has acquired a lease
  is refused another one after any number of renewals, completions, failures, cancellations and
  collections before and after the database is opened again.
\<close>

lemma persistent_lease_exclusive:
  assumes "lease_format_ok F" and "sqlite_valid F s" and "lm_acquire (sqlite_store F) l s = (Ok (), s1)"
    and "ls_task_id l' = ls_task_id l"
  shows "fst (lm_acquire (sqlite_store F) l' (fold (lease_step (sqlite_store F)) ops'
      (sq_open (sl_rows (fold (lease_step (sqlite_store F)) ops s1)))))
    = Err (Internal (''Failed to insert lease: '' @ lf_unique F))"
proof -
  note m = sqlite_lease_map [OF assms(1)]
  let ?step = "lease_step (sqlite_store F)"
  define s2 where "s2 = fold ?step ops s1"
  have "sqlite_valid F s2 \<and> sqlite_view F s2 (ls_task_id l) \<noteq> None"
    using lease_map.acquired_stays [OF m assms(2,3)] by (simp add: s2_def)
  moreover from this have "sq_open (sl_rows s2) = s2" by (simp add: sq_open_def sqlite_valid_def)
  ultimately have "sqlite_valid F (fold ?step ops' (sq_open (sl_rows s2)))
      \<and> sqlite_view F (fold ?step ops' (sq_open (sl_rows s2))) (ls_task_id l') \<noteq> None"
    using lease_map.steps_dom [OF m, of s2 "ls_task_id l" ops'] assms(4) by simp
  then show ?thesis
    using insert_refused_step [OF assms(1)] by (simp add: lm_acquire_def s2_def insert_failed_def)
qed

text \<open>
  What the queries rely on of the dates, between the epoch and the year 9999: a date has ten
  characters and later dates are later texts; an RFC 3339 text goes on with \<open>T\<close> after the date, the
  text of SQLite's \<open>datetime\<close> with a space.
\<close>

definition last_day :: int where "last_day = 2932896"

definition dated :: "instant \<Rightarrow> bool" where
  "dated i \<longleftrightarrow> 0 \<le> i div day_ns \<and> i div day_ns \<le> last_day"

definition dates_ok :: "(int \<Rightarrow> string) \<Rightarrow> lease_format \<Rightarrow> bool" where
  "dates_ok D F \<longleftrightarrow> (\<forall>n m. 0 \<le> n \<and> n < m \<and> m \<le> last_day \<longrightarrow> D n < D m)
    \<and> (\<forall>n. 0 \<le> n \<and> n \<le> last_day \<longrightarrow> length (D n) = 10)
    \<and> (\<forall>i. dated i \<longrightarrow> prefix (D (i div day_ns) @ ''T'') (lf_rfc3339 F i)
         \<and> prefix (D (i div day_ns) @ '' '') (lf_datetime F i))"

lemma less_same_length: "xs < ys \<Longrightarrow> length xs = length ys \<Longrightarrow> xs @ us < ys @ (vs :: 'a::linorder list)"
  unfolding list_less_def by (rule lexord_sufI) simp_all

lemma less_same_prefix: "us < vs \<Longrightarrow> xs @ us < xs @ (vs :: 'a::linorder list)"
  by (induction xs) simp_all

lemma date_texts_compare:
  assumes D: "dates_ok D F" and i: "dated i" and now: "dated now"
  shows "lf_datetime F now < lf_rfc3339 F i \<longleftrightarrow> now div day_ns \<le> i div day_ns"
proof -
  let ?n = "now div day_ns" and ?m = "i div day_ns"
  obtain u v where uv: "lf_rfc3339 F i = D ?m @ CHR ''T'' # u" "lf_datetime F now = D ?n @ CHR '' '' # v"
    using D i now by (fastforce simp: dates_ok_def prefix_def)
  have len: "length (D ?m) = length (D ?n)" using D i now by (simp add: dates_ok_def dated_def)
  have lt: "D a < D b" if "a < b" "0 \<le> a" "b \<le> last_day" for a b using that D by (simp add: dates_ok_def)
  consider "?n < ?m" | "?n = ?m" | "?m < ?n" by linarith
  then show ?thesis
  proof cases
    case 1
    then have "D ?n < D ?m" using lt i now by (simp add: dated_def)
    then show ?thesis using 1 less_same_length [of "D ?n" "D ?m"] len unfolding uv by simp
  next
    case 2
    have "CHR '' '' # v < CHR ''T'' # u" by (simp add: less_char_def)
    then show ?thesis unfolding uv using 2 by (simp add: less_same_prefix)
  next
    case 3
    then have "D ?m < D ?n" using lt i now by (simp add: dated_def)
    then have "D ?m @ CHR ''T'' # u < D ?n @ CHR '' '' # v" by (rule less_same_length [OF _ len])
    then show ?thesis unfolding uv using 3 by (auto dest: less_asym)
  qed
qed

text \<open>
  After a restart \<open>recover_active_leases\<close> returns every lease, in whatever state, that expires on
  the current UTC day or later, and \<open>find_expired_leases\<close> those that expired on an earlier day: the
  stored texts and SQLite's have different separators, so a lease that ran out today counts as
  running until midnight, and completed leases are recovered as active ones.
\<close>

lemma recovery_by_day:
  assumes F: "lease_format_ok F" and D: "dates_ok D F" and s: "sqlite_valid F s" and now: "dated now"
    and dated: "\<forall>t l. sqlite_view F s t = Some l \<longrightarrow> dated (ls_expires_at l)"
  shows "\<exists>ls es. recover_active_leases F None now s = (Ok ls, s) \<and> find_expired_leases F None now s = (Ok es, s)
    \<and> set ls = {l. sqlite_view F s (ls_task_id l) = Some l \<and> now div day_ns \<le> ls_expires_at l div day_ns}
    \<and> set es = {l. sqlite_view F s (ls_task_id l) = Some l \<and> ls_expires_at l div day_ns < now div day_ns}"
proof -
  have row: "lw_task_id r = lf_task F (ls_task_id (row_lease F r))
      \<and> (lf_datetime F now < lw_expires_at r \<longleftrightarrow> now div day_ns \<le> ls_expires_at (row_lease F r) div day_ns)"
    if "r \<in> set (sl_rows s)" for r
  proof -
    have ok: "row_ok F r" using s that by (simp add: sqlite_valid_def list_all_iff)
    then have "sqlite_view F s (ls_task_id (row_lease F r)) = Some (row_lease F r)"
      unfolding view_row [OF F s] using that by (auto simp: row_ok_def)
    then show ?thesis using date_texts_compare [OF D _ now] dated ok by (simp add: row_ok_def)
  qed
  have img: "row_lease F ` {r \<in> set (sl_rows s). P (row_lease F r)}
      = {l. sqlite_view F s (ls_task_id l) = Some l \<and> P l}" for P
    unfolding view_row [OF F s] using row by auto
  have "set (lf_order F (filter (\<lambda>r. lw_expires_at r > lf_datetime F now) (sl_rows s)))
      = {r \<in> set (sl_rows s). now div day_ns \<le> ls_expires_at (row_lease F r) div day_ns}"
    "set (lf_order F (filter (\<lambda>r. lw_expires_at r \<le> lf_datetime F now) (sl_rows s)))
      = {r \<in> set (sl_rows s). ls_expires_at (row_lease F r) div day_ns < now div day_ns}"
    using row by (auto simp: order_set [OF F] not_less [symmetric])
  then show ?thesis
    using img [of "\<lambda>l. now div day_ns \<le> ls_expires_at l div day_ns"] img [of "\<lambda>l. ls_expires_at l div day_ns < now div day_ns"]
    by (simp add: recover_active_leases_def find_expired_leases_def select_ok [OF F s])
qed

lemma decimal_length [simp]: "length (decimal k n) = k"
  by (induction k arbitrary: n) simp_all

lemma decimal_less: "n < m \<Longrightarrow> m < 10 ^ k \<Longrightarrow> decimal k n < decimal k m"
proof (induction k arbitrary: n m)
  case (Suc k)
  show ?case
  proof (cases "n div 10 < m div 10")
    case True
    have "m div 10 < 10 ^ k" using Suc.prems by (simp add: less_mult_imp_div_less mult.commute)
    then have "decimal k (n div 10) < decimal k (m div 10)" using True Suc.IH by blast
    then show ?thesis by (simp add: less_same_length)
  next
    case False
    then have d: "n div 10 = m div 10" using Suc.prems div_le_mono [of n m 10] by simp
    then have "n mod 10 < m mod 10" using Suc.prems by (metis div_mult_mod_eq nat_add_left_cancel_less)
    moreover have "m mod 10 < 10" by simp
    ultimately have "[char_of (48 + n mod 10)] < ([char_of (48 + m mod 10)] :: string)"
      by (simp add: less_char_def)
    then show ?thesis by (simp add: d less_same_prefix)
  qed
qed simp

lemma plain_dates_ok: "dates_ok (\<lambda>n. decimal 10 (nat n)) plain_format"
  by (auto simp: dates_ok_def plain_format_def last_day_def intro!: decimal_less)

definition finished_lease :: Lease where
  "finished_lease = (example_lease (TaskId 1) (WorkerId 1) 1)\<lparr>ls_state := Completed\<rparr>"

definition recovered_store :: SqliteLeaseStore where
  "recovered_store = snd (sq_insert plain_format None finished_lease (sq_open []))"

end
