(* ===== verification/ProcessExecutor.thy ===== *)
theory ProcessExecutor
  imports LocalNode DagInvariant
begin

text \<open>
  Processes: \<open>crates/worker/src/process.rs\<close>, the cancel token of \<open>cancel_token.rs\<close> and the real
  executor of \<open>worker_runtime.rs\<close>. Processes, signals and pipes are the operating system's: the
  record \<open>Os\<close> of operations on handles \<open>'c\<close>. Waiting lets the rest of the system run.
\<close>

subsection \<open>Cancel tokens\<close>

datatype CancelSignal = SignalRunning | SignalCancelled

text \<open>The watch channel: its value, and whether the token, its only sender, is still there.\<close>

record CancelChannel =
  ch_signal :: CancelSignal
  ch_sender :: bool

definition cancel_token_new :: CancelChannel where
  "cancel_token_new = \<lparr>ch_signal = SignalRunning, ch_sender = True\<rparr>"

definition token_cancel :: "CancelChannel \<Rightarrow> CancelChannel" where
  "token_cancel ch = ch\<lparr>ch_signal := SignalCancelled\<rparr>"

definition token_drop :: "CancelChannel \<Rightarrow> CancelChannel" where
  "token_drop ch = ch\<lparr>ch_sender := False\<rparr>"

definition guard_is_cancelled :: "CancelChannel \<Rightarrow> bool" where
  "guard_is_cancelled ch \<longleftrightarrow> ch_signal ch = SignalCancelled"

text \<open>
  \<open>cancelled().await\<close>, given the channel at each of its wake-ups: what is left of them when it
  returns, \<open>None\<close> while it waits. A receiver whose sender is gone fails in \<open>changed\<close>, which ends
  the loop as well.
\<close>

fun guard_cancelled :: "CancelChannel list \<Rightarrow> CancelChannel list option" where
  "guard_cancelled [] = None"
| "guard_cancelled (ch # chs) =
     (if ch_signal ch = SignalRunning then if ch_sender ch then guard_cancelled chs else Some chs else Some chs)"

lemma guard_cancelled_first:
  "guard_cancelled chs = (case dropWhile (\<lambda>ch. \<not> guard_is_cancelled ch \<and> ch_sender ch) chs of
     [] \<Rightarrow> None | _ # rest \<Rightarrow> Some rest)"
  by (induction chs rule: guard_cancelled.induct) (auto simp: guard_is_cancelled_def intro: CancelSignal.exhaust)

subsection \<open>Exit statuses\<close>

datatype ExitStatus = ExitedWith i32 | TerminatedBy i32 | OtherStatus

definition status_code :: "ExitStatus \<Rightarrow> i32 option" where
  "status_code st = (case st of ExitedWith c \<Rightarrow> Some c | _ \<Rightarrow> None)"

definition status_signal :: "ExitStatus \<Rightarrow> i32 option" where
  "status_signal st = (case st of TerminatedBy g \<Rightarrow> Some g | _ \<Rightarrow> None)"

definition status_success :: "ExitStatus \<Rightarrow> bool" where
  "status_success st \<longleftrightarrow> status_code st = Some 0"

definition outcome_of_status :: "ExitStatus \<Rightarrow> ExitOutcome" where
  "outcome_of_status st =
     (if status_success st then Success
      else case status_code st of
        Some code \<Rightarrow> FailedWithCode code
      | None \<Rightarrow> (case status_signal st of Some g \<Rightarrow> KilledBySignal g | None \<Rightarrow> FailedWithCode 1))"

lemma outcome_of_status_simps [simp]:
  "outcome_of_status (ExitedWith c) = (if c = 0 then Success else FailedWithCode c)"
  "outcome_of_status (TerminatedBy g) = KilledBySignal g" "outcome_of_status OtherStatus = FailedWithCode 1"
  by (simp_all add: outcome_of_status_def status_success_def status_code_def status_signal_def)

subsection \<open>The operating system\<close>

record SpawnRequest =
  sr_program :: string
  sr_args :: "string list"
  sr_current_dir :: string
  sr_env :: "(string, string) fmap"
  sr_piped :: bool
  sr_own_group :: bool

datatype Signal = SIGTERM | SIGKILL

text \<open>
  \<open>os_wait_within\<close> waits at most for the grace period (\<open>None\<close>: it is over), \<open>os_wait_unless\<close> until
  the child ends or the cancel guard fires (\<open>None\<close>). A negative process id is a process group.
  \<open>os_output\<close> is what the lines of a pipe will be, with the time each is read; an error of the pipe
  or a line that is not text is \<open>Inl\<close>.
\<close>

record ('c, 's) Os =
  os_spawn :: "SpawnRequest \<Rightarrow> ('s, string, 'c) op"
  os_id :: "'c \<Rightarrow> 's \<Rightarrow> u32 option"
  os_kill :: "i32 \<Rightarrow> Signal \<Rightarrow> 's \<Rightarrow> 's"
  os_wait :: "'c \<Rightarrow> ('s, string, ExitStatus) op"
  os_wait_within :: "'c \<Rightarrow> duration \<Rightarrow> 's \<Rightarrow> (string + ExitStatus) option \<times> 's"
  os_wait_unless :: "'c \<Rightarrow> 's \<Rightarrow> (string + ExitStatus) option \<times> 's"
  os_output :: "'c \<Rightarrow> LogSource \<Rightarrow> (instant \<times> (string + string)) list"

definition wait_failed :: "string \<Rightarrow> WorkerError" where
  "wait_failed e = ProcessError (''wait failed: '' @ e)"

definition waited :: "string + ExitStatus \<Rightarrow> WorkerError + ExitOutcome" where
  "waited r = (case r of Inl e \<Rightarrow> Err (wait_failed e) | Inr st \<Rightarrow> Ok (outcome_of_status st))"

definition handle_wait :: "('c, 's) Os \<Rightarrow> 'c \<Rightarrow> ('s, WorkerError, ExitOutcome) op" where
  "handle_wait os c s = (case os_wait os c s of (r, s') \<Rightarrow> (waited r, s'))"

definition signal_group :: "('c, 's) Os \<Rightarrow> 'c \<Rightarrow> Signal \<Rightarrow> 's \<Rightarrow> 's" where
  "signal_group os c g s = (case os_id os c s of Some pid \<Rightarrow> os_kill os (- pid) g s | None \<Rightarrow> s)"

definition kill_gracefully :: "('c, 's) Os \<Rightarrow> 'c \<Rightarrow> duration \<Rightarrow> ('s, WorkerError, ExitOutcome) op" where
  "kill_gracefully os c grace s =
     (case os_wait_within os c grace (signal_group os c SIGTERM s) of
        (Some r, s') \<Rightarrow> (waited r, s')
      | (None, s') \<Rightarrow>
          (case os_wait os c (signal_group os c SIGKILL s') of
             (Inl e, s'') \<Rightarrow> (Err (wait_failed e), s'')
           | (Inr st, s'') \<Rightarrow>
               (Ok (case status_signal st of Some g \<Rightarrow> KilledBySignal g | None \<Rightarrow> FailedWithCode 1), s'')))"

subsection \<open>Spawning and the log readers\<close>

text \<open>A log reader: its number for the next line, and the lines that \<open>next_line\<close> will deliver.\<close>

record LogPump =
  lp_task :: TaskId
  lp_source :: LogSource
  lp_seq :: u64
  lp_items :: "(instant \<times> (string + string)) list"

definition pump_new :: "TaskId \<Rightarrow> LogSource \<Rightarrow> (instant \<times> (string + string)) list \<Rightarrow> LogPump" where
  "pump_new t src items = \<lparr>lp_task = t, lp_source = src, lp_seq = 0, lp_items = items\<rparr>"

definition pump_turn :: "'s SinkOps \<Rightarrow> LogPump \<Rightarrow> 's \<Rightarrow> LogPump \<times> 's" where
  "pump_turn K p s =
     (case lp_items p of
        [] \<Rightarrow> (p, s)
      | (now, Inl e) # _ \<Rightarrow> (p\<lparr>lp_items := []\<rparr>, s)
      | (now, Inr line) # rest \<Rightarrow>
          (p\<lparr>lp_seq := lp_seq p + 1, lp_items := rest\<rparr>,
           snd (sink_log K (log_line_new now (lp_task p) (lp_seq p) (lp_source p) line) s)))"

definition spawn_request :: "SpawnParams \<Rightarrow> WorkerError + SpawnRequest" where
  "spawn_request params =
     (case sp_command params of
        [] \<Rightarrow> Err (SpawnFailed ''empty command'')
      | program # args \<Rightarrow> Ok \<lparr>sr_program = program, sr_args = args, sr_current_dir = sp_working_dir params,
          sr_env = sp_env params, sr_piped = True, sr_own_group = True\<rparr>)"

text \<open>The handle, and the two readers that run beside it.\<close>

record 'c ProcessHandle =
  ph_task_id :: TaskId
  ph_child :: 'c
  ph_readers :: "LogPump list"

definition process_handle :: "('c, 's) Os \<Rightarrow> TaskId \<Rightarrow> 'c \<Rightarrow> 'c ProcessHandle" where
  "process_handle os t c = \<lparr>ph_task_id = t, ph_child = c,
     ph_readers = map (\<lambda>src. pump_new t src (os_output os c src)) [Stdout, Stderr]\<rparr>"

definition process_spawn :: "('c, 's) Os \<Rightarrow> SpawnParams \<Rightarrow> ('s, WorkerError, 'c ProcessHandle) op" where
  "process_spawn os params s =
     (case spawn_request params of
        Inl e \<Rightarrow> (Err e, s)
      | Inr req \<Rightarrow> (case os_spawn os req s of
          (Inl e, s') \<Rightarrow> (Err (SpawnFailed (''failed to spawn '' @ sr_program req @ '': '' @ e)), s')
        | (Inr c, s') \<Rightarrow> (Ok (process_handle os (sp_task_id params) c), s')))"

subsection \<open>The executor\<close>

definition real_execute :: "('c, 's) Os \<Rightarrow> SpawnParams \<Rightarrow> ('s, WorkerError, ExitOutcome) op" where
  "real_execute os params =
     try_bind (process_spawn os params) (\<lambda>handle s.
       case os_wait_unless os (ph_child handle) s of
         (Some r, s') \<Rightarrow> (waited r, s')
       | (None, s') \<Rightarrow> kill_gracefully os (ph_child handle) (from_secs 5) s')"

subsection \<open>Log lines keep their order\<close>

fun readable_lines :: "(instant \<times> (string + string)) list \<Rightarrow> (instant \<times> string) list" where
  "readable_lines [] = []"
| "readable_lines ((now, Inl _) # _) = []"
| "readable_lines ((now, Inr line) # rest) = (now, line) # readable_lines rest"

definition numbered :: "TaskId \<Rightarrow> LogSource \<Rightarrow> nat \<Rightarrow> (instant \<times> string) list \<Rightarrow> LogLine list" where
  "numbered t src k ls = map (\<lambda>(i, (now, line)). log_line_new now t (word_of_nat i) src line) (List.enumerate k ls)"

text \<open>A schedule of the two readers: \<open>Stdout\<close> or \<open>Stderr\<close> takes the next turn.\<close>

fun run_pumps :: "'s SinkOps \<Rightarrow> LogSource list \<Rightarrow> LogPump \<Rightarrow> LogPump \<Rightarrow> 's \<Rightarrow> 's" where
  "run_pumps K [] po pe s = s"
| "run_pumps K (Stdout # sched) po pe s = (case pump_turn K po s of (po', s') \<Rightarrow> run_pumps K sched po' pe s')"
| "run_pumps K (Stderr # sched) po pe s = (case pump_turn K pe s of (pe', s') \<Rightarrow> run_pumps K sched po pe' s')"

definition fake_sink :: "FakeWorker SinkOps" where
  "fake_sink = \<lparr>sink_event = fake_emit_event, sink_log = fake_emit_log\<rparr>"

abbreviation lines_from :: "LogSource \<Rightarrow> FakeWorker \<Rightarrow> LogLine list" where
  "lines_from src f \<equiv> filter (\<lambda>l. ll_source l = src) (fake_logs f)"

lemma numbered_simps [simp]:
  "numbered t src k [] = []"
  "numbered t src k ((now, line) # ls) = log_line_new now t (word_of_nat k) src line # numbered t src (Suc k) ls"
  by (simp_all add: numbered_def)

text \<open>One turn emits the next readable line, if there is one, and numbers it.\<close>

lemma pump_turn_fake:
  assumes p: "lp_seq p = word_of_nat k" and turn: "pump_turn fake_sink p f = (p', f')"
  shows "lp_task p' = lp_task p \<and> lp_source p' = lp_source p
    \<and> (case readable_lines (lp_items p) of
         [] \<Rightarrow> readable_lines (lp_items p') = [] \<and> f' = f \<and> lp_seq p' = word_of_nat k
       | (now, line) # ls \<Rightarrow> readable_lines (lp_items p') = ls \<and> lp_seq p' = word_of_nat (Suc k)
           \<and> f' = f\<lparr>fake_logs := fake_logs f @ [log_line_new now (lp_task p) (word_of_nat k) (lp_source p) line]\<rparr>)"
proof (cases "readable_lines (lp_items p)")
  case Nil
  then show ?thesis using assms
    by (auto simp: pump_turn_def split: list.splits prod.splits sum.splits elim: readable_lines.elims)
next
  case (Cons x ls)
  then obtain now line rest where "lp_items p = (now, Inr line) # rest" "x = (now, line)" "readable_lines rest = ls"
    by (auto elim: readable_lines.elims)
  then show ?thesis using assms Cons
    by (auto simp: pump_turn_def fake_sink_def fake_emit_log_def)
qed

lemma run_pumps_lines:
  assumes "lp_seq po = word_of_nat i" "lp_source po = Stdout" "lp_seq pe = word_of_nat j" "lp_source pe = Stderr"
  shows "lines_from Stdout (run_pumps fake_sink sched po pe f) = lines_from Stdout f
      @ numbered (lp_task po) Stdout i (take (count_list sched Stdout) (readable_lines (lp_items po)))
    \<and> lines_from Stderr (run_pumps fake_sink sched po pe f) = lines_from Stderr f
      @ numbered (lp_task pe) Stderr j (take (count_list sched Stderr) (readable_lines (lp_items pe)))"
  using assms
proof (induction sched arbitrary: po pe f i j)
  case (Cons src sched)
  show ?case
  proof (cases src)
    case Stdout
    obtain po' f' where t: "pump_turn fake_sink po f = (po', f')" by fastforce
    note p = pump_turn_fake [OF Cons.prems(1) t]
    show ?thesis
    proof (cases "readable_lines (lp_items po)")
      case Nil
      then show ?thesis using p Cons.IH [of po' i pe j f'] Cons.prems Stdout t by simp
    next
      case (Cons x ls)
      then show ?thesis using p Cons.IH [of po' "Suc i" pe j f'] Cons.prems Stdout t
        by (cases x) (simp add: log_line_new_def)
    qed
  next
    case Stderr
    obtain pe' f' where t: "pump_turn fake_sink pe f = (pe', f')" by fastforce
    note p = pump_turn_fake [OF Cons.prems(3) t]
    show ?thesis
    proof (cases "readable_lines (lp_items pe)")
      case Nil
      then show ?thesis using p Cons.IH [of po i pe' j f'] Cons.prems Stderr t by simp
    next
      case (Cons x ls)
      then show ?thesis using p Cons.IH [of po i pe' "Suc j" f'] Cons.prems Stderr t
        by (cases x) (simp add: log_line_new_def)
    qed
  qed
qed simp

text \<open>
  C19: however the two readers are interleaved, the log holds the lines of each source complete, in
  their order and numbered from zero, as far as the reader has got; a reader ends at the first line
  it cannot read, so everything after that line is lost.
\<close>

theorem log_lines_numbered:
  fixes t :: TaskId and outs errs :: "(instant \<times> (string + string)) list"
  shows "lines_from Stdout (run_pumps fake_sink sched (pump_new t Stdout outs) (pump_new t Stderr errs) f)
      = lines_from Stdout f @ numbered t Stdout 0 (take (count_list sched Stdout) (readable_lines outs))
    \<and> lines_from Stderr (run_pumps fake_sink sched (pump_new t Stdout outs) (pump_new t Stderr errs) f)
      = lines_from Stderr f @ numbered t Stderr 0 (take (count_list sched Stderr) (readable_lines errs))"
  using run_pumps_lines [of "pump_new t Stdout outs" 0 "pump_new t Stderr errs" 0 sched f]
  by (simp add: pump_new_def)

subsection \<open>A cancelled process\<close>

lemma failed_stays:
  assumes "fmlookup (dag_states s) t = Some Running"
  shows "\<exists>s'. inner_discard ord t s = (Ok (), s') \<and> fmlookup (dag_states s') t = Some TaskFailed"
proof -
  have r: "fmlookup (dag_states s) t \<in> {Some Pending, Some Ready, Some Running}" using assms by simp
  let ?st = "fmupd t TaskFailed (dag_states s)"
  have "fmlookup (cascade ord (dag_successors s) [t] ?st) t = Some TaskFailed"
    using only_failsD [OF cascade_only_fails [of ?st ord "dag_successors s" "[t]"], of t] by auto
  then show ?thesis using inner_fail_ok(1,2) [OF r, of ord]
    by (cases "inner_fail ord t s") (simp add: inner_discard_def)
qed

lemma discard_then_requeue:
  assumes "fmlookup (dag_states (dag_inner (w_dag s))) t = Some Running" "\<not> dag_poisoned (w_dag s)"
  obtains d where "inner_discard sorted_list_of_set t (dag_inner (w_dag s)) = (Ok (), d)"
    "fst (inner_requeue now t n d) = Ok ()" "fmlookup (dag_states (snd (inner_requeue now t n d))) t = Some TaskFailed"
proof -
  obtain d where d: "inner_discard sorted_list_of_set t (dag_inner (w_dag s)) = (Ok (), d)"
    "fmlookup (dag_states d) t = Some TaskFailed" using failed_stays [OF assms(1)] by blast
  then show ?thesis using that inner_requeue_Ok inner_requeue_states [of now t n d t] by simp
qed

text \<open>How an operating system ends a process group that has been sent the two signals in turn.\<close>

definition kills_group :: "('c, 's) Os \<Rightarrow> 'c \<Rightarrow> i32 \<Rightarrow> bool" where
  "kills_group os c g \<longleftrightarrow>
     (\<forall>s pid sig. os_kill os pid sig s = s)
     \<and> ((\<forall>s. os_wait_within os c (from_secs 5) s = (Some (Ok (TerminatedBy g)), s))
        \<or> (\<forall>s. os_wait_within os c (from_secs 5) s = (None, s) \<and> os_wait os c s = (Ok (TerminatedBy g), s)))"

lemma kills_groupD: "kills_group os c g \<Longrightarrow> kill_gracefully os c (from_secs 5) s = (Ok (KilledBySignal g), s)"
  by (auto simp: kills_group_def kill_gracefully_def signal_group_def waited_def status_signal_def split: option.splits)

text \<open>
  C17: a task that is cancelled while its process runs is treated as one that failed: the process is
  killed, and as a killed process is to be retried the runtime announces a retry after the
  cancellation, and the lease that the cancellation set to \<open>Cancelled\<close> ends as \<open>Failed\<close>. Only the
  scheduler, which the cancellation has told that the task failed, keeps it from becoming ready.
\<close>

theorem cancelled_task_announces_retry:
  assumes cmd: "spawn_request (spawn_params task) = Ok req" and spawn: "\<And>v. os_spawn os req v = (Ok c, v)"
    and cancel: "\<And>v. os_wait_unless os c v = (None, snd (cancel_task (local_runtime me ex wt') (td_task_id task) v))"
    and kill: "kills_group os c g"
    and none: "fmlookup (w_leases (wk_world w)) (td_task_id task) = None"
    and allow: "fake_resource_behavior (w_fake (wk_world w)) = AlwaysAllow"
    and lock: "\<not> dag_poisoned (w_dag (wk_world w))"
    and running: "dag_state w (td_task_id task) = Some Running"
    and retry: "decide (KilledBySignal g) (td_policy task) (td_attempt task) = Some (Retry delay)"
    and run: "execute_task (local_runtime me (real_execute os) (\<lambda>d v. v)) fresh now task w = (r, w')"
  shows "r = Ok ()
    \<and> map_option ls_state (fmlookup (w_leases (wk_world w')) (td_task_id task)) = Some (Failed (td_attempt task + 1))
    \<and> dag_state w' (td_task_id task) = Some TaskFailed
    \<and> fake_events (w_fake (wk_world w')) = fake_events (w_fake (wk_world w)) @
        [EvAcquired (td_task_id task) me (td_attempt task), EvCancelled (td_task_id task),
         EvCompleted (td_task_id task) (KilledBySignal g),
         EvWillRetry (td_task_id task) (td_attempt task + 1) (word_of_nat (as_millis delay))]"
proof -
  let ?s = "wk_world w"
  obtain d where d: "inner_discard sorted_list_of_set (td_task_id task) (dag_inner (w_dag ?s)) = (Ok (), d)"
    "fst (inner_requeue (w_now ?s) (td_task_id task) (td_attempt task + 1) d) = Ok ()"
    "fmlookup (dag_states (snd (inner_requeue (w_now ?s) (td_task_id task) (td_attempt task + 1) d))) (td_task_id task)
      = Some TaskFailed"
    using discard_then_requeue [OF running lock] by blast
  then obtain d' where d': "inner_requeue (w_now ?s) (td_task_id task) (td_attempt task + 1) d = (Ok (), d')"
    "fmlookup (dag_states d') (td_task_id task) = Some TaskFailed"
    by (metis prod.collapse)
  have exe: "real_execute os (spawn_params task) v
      = (Ok (KilledBySignal g), snd (cancel_task (local_runtime me ex wt') (td_task_id task) v))" for v
    by (simp add: real_execute_def try_bind_def process_spawn_def process_handle_def cmd spawn cancel kills_groupD [OF kill])
  from run [symmetric] show ?thesis
    using none allow lock running retry d d'
    by (simp add: run_defs Let_def exe cancel_task_def lm_cancel_def)
qed

text \<open>An operating system on which the task is cancelled and its process ignores the first signal.\<close>

definition stubborn_os :: "(unit, World Worker) Os" where
  "stubborn_os = \<lparr>os_spawn = (\<lambda>req v. (Ok (), v)), os_id = (\<lambda>c v. Some 7), os_kill = (\<lambda>pid sig v. v),
     os_wait = (\<lambda>c v. (Ok (TerminatedBy 9), v)), os_wait_within = (\<lambda>c d v. (None, v)),
     os_wait_unless = (\<lambda>c v. (None, snd (cancel_task
       (local_runtime (WorkerId 1) (\<lambda>p v. (Ok Success, v)) (\<lambda>d v. v)) (TaskId 1) v))),
     os_output = (\<lambda>c src. [])\<rparr>"

theorem cancelled_task_announces_retry_witness:
  "\<exists>r w'. execute_task (local_runtime (WorkerId 1) (real_execute stubborn_os) (\<lambda>d v. v)) (LeaseId 9) 5
      (example_task 1 [] High) example_worker = (r, w')
    \<and> map_option ls_state (fmlookup (w_leases (wk_world w')) (TaskId 1)) = Some (Failed 1)
    \<and> EvCancelled (TaskId 1) \<in> set (fake_events (w_fake (wk_world w')))"
proof -
  let ?t = "example_task 1 [] High"
  obtain d where "backoff_for default_retry_policy 0 = Some d"
    using backoff_some [OF _ _ default_cap, of 2 0] by (auto simp: default_retry_policy_def)
  then have dec: "decide (KilledBySignal 9) (td_policy ?t) (td_attempt ?t) = Some (Retry d)"
    by (simp add: decide_def example_task_def default_retry_policy_def word_le_nat_alt)
  obtain req where req: "spawn_request (spawn_params ?t) = Ok req"
    by (simp add: spawn_request_def spawn_params_def example_task_def)
  have kill: "kills_group stubborn_os () 9" by (simp add: kills_group_def stubborn_os_def)
  obtain r w' where run: "execute_task (local_runtime (WorkerId 1) (real_execute stubborn_os) (\<lambda>d v. v)) (LeaseId 9) 5
      ?t example_worker = (r, w')" by fastforce
  have "map_option ls_state (fmlookup (w_leases (wk_world w')) (td_task_id ?t)) = Some (Failed (td_attempt ?t + 1))
    \<and> EvCancelled (td_task_id ?t) \<in> set (fake_events (w_fake (wk_world w')))"
    using cancelled_task_announces_retry [where me = "WorkerId 1" and ex = "\<lambda>p v. (Ok Success, v)" and wt' = "\<lambda>d v. v",
        OF req _ _ kill _ _ _ _ dec run]
    by (simp add: stubborn_os_def example_node_defs example_task_def)
  then show ?thesis using run by (simp add: example_task_def)
qed

end
