(* ===== verification/NodeProgress.thy ===== *)
theory NodeProgress
  imports LocalNode DagProgress
begin

text \<open>
  The runtime over the DAG scheduler, followed over any number of turns of its loops: what it
  never tells the scheduler.
\<close>

subsection \<open>Turns of the loops\<close>

datatype RuntimeTurn =
    WorkerTurn LeaseId instant
  | ReaperTurn instant
  | HeartbeatTurn instant TaskId

text \<open>\<open>None\<close>: the worker loop has panicked.\<close>

fun runtime_turn :: "'s Runtime \<Rightarrow> RuntimeTurn \<Rightarrow> 's Worker \<Rightarrow> 's Worker option" where
  "runtime_turn R (WorkerTurn fresh now) w = worker_iteration R fresh now w"
| "runtime_turn R (ReaperTurn now) w = Some (snd (reaper_tick R now w))"
| "runtime_turn R (HeartbeatTurn now t) w = Some (heartbeat_tick R now t w)"

primrec runtime_turns :: "'s Runtime \<Rightarrow> RuntimeTurn list \<Rightarrow> 's Worker \<Rightarrow> 's Worker option" where
  "runtime_turns R [] w = Some w"
| "runtime_turns R (turn # turns) w = Option.bind (runtime_turn R turn w) (runtime_turns R turns)"

subsection \<open>What no turn changes\<close>

text \<open>The tasks that wait for dependencies, and those that are complete, are the same.\<close>

definition same_waiting :: "World Worker \<Rightarrow> World Worker \<Rightarrow> bool" where
  "same_waiting w w' \<longleftrightarrow> (\<forall>t. (dag_state w' t = Some Pending \<longleftrightarrow> dag_state w t = Some Pending)
     \<and> (dag_state w' t = Some TaskCompleted \<longleftrightarrow> dag_state w t = Some TaskCompleted))"

definition op_same :: "(World Worker \<Rightarrow> 'a \<times> World Worker) \<Rightarrow> bool" where
  "op_same m \<longleftrightarrow> (\<forall>w. same_waiting w (snd (m w)))"

named_theorems same_intros

lemma same_refl [simp, intro]: "same_waiting w w"
  by (simp add: same_waiting_def)

lemma same_trans: "same_waiting a b \<Longrightarrow> same_waiting b c \<Longrightarrow> same_waiting a c"
  by (simp add: same_waiting_def)

lemma op_sameD: "op_same m \<Longrightarrow> m w = (r, w') \<Longrightarrow> same_waiting w w'"
  by (metis op_same_def snd_conv)

lemma same_try_bind [same_intros]: "op_same m \<Longrightarrow> (\<And>x. op_same (k x)) \<Longrightarrow> op_same (try_bind m k)"
  unfolding op_same_def try_bind_def by (auto split: prod.split sum.split) (metis same_trans snd_conv)+

lemma same_then_with [same_intros]: "op_same m \<Longrightarrow> (\<And>r. op_same (k r)) \<Longrightarrow> op_same (then_with m k)"
  unfolding op_same_def then_with_def by (auto split: prod.split) (metis same_trans snd_conv)

lemma same_with_guard [same_intros]: "(\<And>w. same_waiting w (f w)) \<Longrightarrow> op_same m \<Longrightarrow> op_same (with_guard f m)"
  unfolding op_same_def with_guard_def by (auto split: prod.split) (metis same_trans snd_conv)

lemma same_perform [same_intros]: "(\<And>w. same_waiting w (f w)) \<Longrightarrow> op_same (perform f)"
  by (simp add: op_same_def)

lemma same_returns [same_intros]: "op_same (returns x)" "op_same (fails e)" "op_same (Pair r)"
  by (simp_all add: op_same_def)

lemma same_process [same_intros]: "op_same m \<Longrightarrow> op_same (process m)"
  by (simp add: op_same_def process_def split_beta)

text \<open>Everything but the queue leaves the scheduler alone.\<close>

definition dag_frame :: "(World, CoreError, 'a) op \<Rightarrow> bool" where
  "dag_frame m \<longleftrightarrow> (\<forall>s. w_dag (snd (m s)) = w_dag s)"

lemma same_frame: "dag_frame m \<Longrightarrow> op_same (core m)"
  by (simp add: op_same_def core_def dag_frame_def same_waiting_def split_beta)

lemma frame_fake [simp]: "dag_frame (on_fake f)"
  by (simp add: dag_frame_def on_fake_def split_beta)

lemma frame_leases [simp]: "dag_frame (on_leases f)"
  by (simp add: dag_frame_def on_leases_def split_beta)

lemma frame_try_bind [simp]: "dag_frame m \<Longrightarrow> (\<And>x. dag_frame (k x)) \<Longrightarrow> dag_frame (try_bind m k)"
  unfolding dag_frame_def try_bind_def by (auto split: prod.split sum.split) (metis snd_conv)+

lemma frame_returns [simp]: "dag_frame (returns x)" "dag_frame (fails e)"
  by (simp_all add: dag_frame_def)

lemma frame_modify [simp]: "dag_frame (lm_modify world_leases f t)"
  unfolding lm_modify_def by (auto intro!: frame_try_bind split: option.split)

lemma frame_manager [simp]:
  "dag_frame (lm_acquire world_leases l)" "dag_frame (lm_complete world_leases t)"
  "dag_frame (lm_fail world_leases t n)" "dag_frame (lm_renew world_leases now t ttl)"
  by (simp_all add: lm_acquire_def lm_complete_def lm_fail_def lm_renew_def)

lemma frame_collect [simp]: "dag_frame (lm_collect_expired world_leases now)"
proof -
  have "dag_frame (lm_collect_loop world_leases now ls es)" for ls es
    by (induction ls arbitrary: es) (auto simp: Let_def intro!: frame_try_bind split: option.split)
  then show ?thesis by (simp add: lm_collect_expired_def)
qed

lemma same_requeue [same_intros]: "op_same (core (queue_requeue dag_queue t n))"
proof -
  have "same_waiting w (snd (core (queue_requeue dag_queue t n) w))" for w :: "World Worker"
    by (simp add: same_waiting_def core_def on_dag_def with_lock_def split_beta inner_requeue_states)
  then show ?thesis by (simp add: op_same_def)
qed

lemma same_dequeue [same_intros]: "op_same (core (queue_dequeue dag_queue me))"
proof -
  have "same_waiting w (snd (core (queue_dequeue dag_queue me) w))" for w :: "World Worker"
    using inner_dequeue_states [of "w_now (wk_world w)" "dag_inner (w_dag (wk_world w))"]
    by (auto simp: same_waiting_def core_def on_dag_def with_lock_def split_beta split: if_splits)
  then show ?thesis by (simp add: op_same_def)
qed

subsection \<open>The loops keep it\<close>

lemma same_execute:
  assumes ex: "\<And>p. op_same (ex p)" and wt: "\<And>d w. same_waiting w (wt d w)"
  shows "op_same (execute_task (local_runtime me ex wt) fresh now task)"
proof -
  let ?R = "local_runtime me ex wt"
  note intros = same_intros same_frame ex wt frame_fake frame_manager
  have settle: "op_same (settle ?R task outcome)" for outcome
    unfolding settle_def Let_def by (auto intro!: intros split: option.split RetryDecision.split)
  have leased: "op_same (run_leased ?R task)"
    unfolding run_leased_def Let_def
    by (auto intro!: intros settle simp: same_waiting_def drop_active_guard_def wt [unfolded same_waiting_def])
  have "op_same (run_with_lease ?R fresh now task)"
    unfolding run_with_lease_def Let_def by (auto intro!: intros leased split: sum.split)
  moreover have "same_waiting w (drop_resource_guard ?R req w)" for req w
    by (simp add: drop_resource_guard_def same_waiting_def on_fake_def split_beta)
  ultimately show ?thesis unfolding execute_task_def by (auto intro!: intros)
qed

lemma same_turn:
  assumes ex: "\<And>p. op_same (ex p)" and wt: "\<And>d w. same_waiting w (wt d w)"
    and turn: "runtime_turn (local_runtime me ex wt) turn w = Some w'"
  shows "same_waiting w w'"
proof (cases turn)
  case (WorkerTurn fresh now)
  obtain r w1 where d: "core (queue_dequeue (rt_queue (local_runtime me ex wt)) me) w = (r, w1)" by fastforce
  then have "same_waiting w w1" using op_sameD [OF same_dequeue] by simp
  moreover have "same_waiting w1 w'"
    using turn d WorkerTurn wt op_sameD [OF same_execute [OF ex wt]]
    by (auto simp: worker_iteration_def split: sum.splits option.splits prod.splits Failure.splits)
  ultimately show ?thesis by (rule same_trans)
next
  case (ReaperTurn now)
  have "op_same (reap_all (local_runtime me ex wt) ls)" for ls
    by (induction ls) (auto intro!: same_intros same_frame)
  then have "op_same (reaper_tick (local_runtime me ex wt) now)"
    unfolding reaper_tick_def by (auto intro!: same_intros same_frame split: sum.split)
  then show ?thesis using turn ReaperTurn by (auto simp: op_same_def)
next
  case (HeartbeatTurn now t)
  have frame: "w_dag (snd (m s)) = w_dag s" if "dag_frame m" for m :: "(World, CoreError, 'a) op" and s
    using that by (simp add: dag_frame_def)
  have "w_dag (wk_world w') = w_dag (wk_world w)"
    using turn HeartbeatTurn frame [OF frame_leases [of "mem_get t"], of "wk_world w"]
      frame [OF frame_manager(4) [of now t "from_secs 30"]]
    by (auto simp: heartbeat_tick_def on_leases_def split: prod.splits sum.splits option.splits)
  then show ?thesis by (simp add: same_waiting_def)
qed

text \<open>
  C18: the runtime never tells the scheduler that a task has completed: over any number of turns of
  its worker loop, reaper and heartbeats, and whatever the outcomes of the processes, the completed
  tasks stay the same, and a task that waits for a dependency waits for ever.
\<close>

theorem dependents_wait_forever:
  assumes ex: "\<And>p v. same_waiting v (snd (ex p v))" and wt: "\<And>d v. same_waiting v (wt d v)"
    and run: "runtime_turns (local_runtime me ex wt) turns w = Some w'"
  shows "(dag_state w t = Some Pending \<longrightarrow> dag_state w' t = Some Pending)
    \<and> (dag_state w' t = Some TaskCompleted \<longleftrightarrow> dag_state w t = Some TaskCompleted)"
proof -
  have "op_same (ex p)" for p using ex by (simp add: op_same_def)
  then have step: "same_waiting v v'" if "runtime_turn (local_runtime me ex wt) turn v = Some v'" for turn v v'
    using same_turn [OF _ wt that] by blast
  have "same_waiting w w'" using run
    by (induction turns arbitrary: w) (auto simp: bind_eq_Some_conv intro: same_trans step)
  then show ?thesis by (simp add: same_waiting_def)
qed

definition dependent_world :: "World Worker" where
  "dependent_world = \<lparr>wk_world = \<lparr>w_dag = \<lparr>dag_inner = example_enqueued, dag_poisoned = False\<rparr>, w_leases = fmempty,
     w_fake = fake_new, w_now = 7\<rparr>, wk_active = fmempty, wk_heartbeats = []\<rparr>"

theorem dependents_wait_forever_witness:
  "\<exists>w'. runtime_turns (local_runtime (WorkerId 1) (\<lambda>p v. (Ok Success, v)) (\<lambda>d v. v)) [WorkerTurn (LeaseId 9) 5]
      dependent_world = Some w'
    \<and> map_option ls_state (fmlookup (w_leases (wk_world w')) (TaskId 1)) = Some Completed
    \<and> dag_state w' (TaskId 2) = Some Pending"
proof -
  let ?R = "local_runtime (WorkerId 1) (\<lambda>p v. (Ok Success, v)) (\<lambda>d v. v)"
  have "snd (inner_dequeue 7 example_enqueued) = example_started" using example_step_start by simp
  moreover have "fst (inner_dequeue 7 example_enqueued) = Ok (Some example_first)"
    by (simp add: example_defs dag_eval)
  ultimately have d: "inner_dequeue 7 example_enqueued = (Ok (Some example_first), example_started)"
    by (metis prod.collapse)
  have "\<exists>w'. runtime_turns ?R [WorkerTurn (LeaseId 9) 5] dependent_world = Some w'
      \<and> map_option ls_state (fmlookup (w_leases (wk_world w')) (TaskId 1)) = Some Completed"
    by (simp add: worker_iteration_def dependent_world_def on_dag_def with_lock_def d run_defs fake_new_def Let_def
        example_first_def example_task_def decide_def)
  then show ?thesis
    using dependents_wait_forever [where ex = "\<lambda>p v. (Ok Success, v)" and wt = "\<lambda>d v. v" and t = "TaskId 2" and w = dependent_world]
    by (fastforce simp: dependent_world_def example_defs)
qed

end
