(* ===== verification/WorkerPool.thy ===== *)
theory WorkerPool
  imports LocalNode DagProgress DagExample
begin

text \<open>
  Any number of workers on one scheduler and one lease store, interleaved at every point where
  \<open>execute_task\<close> and its callees give up control: each await of the worker loop is a turn, and the
  test and the insertion of the in-memory \<open>insert\<close> are two. The reaper, the heartbeats, cancellations
  and the clients of the scheduler take turns in between.
\<close>

subsection \<open>The phases of a worker\<close>

datatype Phase =
    Idle
  | Dequeued TaskDescriptor
  | Refused TaskDescriptor
  | Admitted TaskDescriptor
  | Allocated TaskDescriptor
  | Checked TaskDescriptor Lease
  | Leased TaskDescriptor
  | Executing TaskDescriptor
  | Ended TaskDescriptor ExitOutcome
  | Announced TaskDescriptor
  | Delayed TaskDescriptor
  | Dead

definition released :: "TaskDescriptor \<Rightarrow> World \<Rightarrow> World" where
  "released task s = snd (on_fake (fake_release (td_resources task)) s)"

definition emitted :: "TaskEvent \<Rightarrow> World \<Rightarrow> World" where
  "emitted e s = snd (on_fake (fake_emit_event e) s)"

text \<open>
  What a worker does in one turn; \<open>outcome\<close> is how the process ends, if it ends in this turn. The
  resource guard releases at the end of \<open>execute_task\<close>; a panic ends the worker loop.
\<close>

fun phase_turn :: "WorkerId \<Rightarrow> LeaseId \<Rightarrow> instant \<Rightarrow> WorkerError + ExitOutcome \<Rightarrow> Phase \<Rightarrow> World \<Rightarrow> Phase \<times> World" where
  "phase_turn me fresh now outcome Idle s =
     (case queue_dequeue dag_queue me s of (Inr (Some task), s') \<Rightarrow> (Dequeued task, s') | (_, s') \<Rightarrow> (Idle, s'))"
| "phase_turn me fresh now outcome (Dequeued task) s =
     (case on_fake (fake_can_allocate (td_resources task)) s of
        (Inr ok, s') \<Rightarrow> (if ok then Admitted task else Refused task, s')
      | (Inl e, s') \<Rightarrow> (Idle, s'))"
| "phase_turn me fresh now outcome (Refused task) s =
     (Idle, snd (queue_requeue dag_queue (td_task_id task) (td_attempt task) s))"
| "phase_turn me fresh now outcome (Admitted task) s =
     (case on_fake (fake_allocate (td_resources task)) s of
        (Inr _, s') \<Rightarrow> (Allocated task, s') | (Inl e, s') \<Rightarrow> (Idle, s'))"
| "phase_turn me fresh now outcome (Allocated task) s =
     (let l = lease_new fresh now (td_task_id task) me (from_secs 30) (td_attempt task) in
      if insert_check l (w_leases s) then (Checked task l, s) else (Idle, released task s))"
| "phase_turn me fresh now outcome (Checked task l) s = (Leased task, s\<lparr>w_leases := insert_put l (w_leases s)\<rparr>)"
| "phase_turn me fresh now outcome (Leased task) s =
     (Executing task, emitted (EvAcquired (td_task_id task) me (td_attempt task)) s)"
| "phase_turn me fresh now outcome (Executing task) s =
     (case outcome of
        Inl e \<Rightarrow> (Idle, released task s)
      | Inr oc \<Rightarrow> (Ended task oc, emitted (EvCompleted (td_task_id task) oc) s))"
| "phase_turn me fresh now outcome (Ended task oc) s =
     (let t = td_task_id task in
      case decide oc (td_policy task) (td_attempt task) of
        None \<Rightarrow> (Dead, released task s)
      | Some RetryDecision.Complete \<Rightarrow> (Idle, released task (snd (lm_complete world_leases t s)))
      | Some (Retry delay) \<Rightarrow>
          (Announced task, emitted (EvWillRetry t (td_attempt task + 1) (word_of_nat (as_millis delay))) s)
      | Some Abandon \<Rightarrow>
          (Idle, released task (snd (lm_fail world_leases t (td_attempt task) (emitted (EvAbandoned t ''max attempts exceeded'') s)))))"
| "phase_turn me fresh now outcome (Announced task) s =
     (case lm_fail world_leases (td_task_id task) (td_attempt task + 1) s of
        (Inr _, s') \<Rightarrow> (Delayed task, s') | (Inl e, s') \<Rightarrow> (Idle, released task s'))"
| "phase_turn me fresh now outcome (Delayed task) s =
     (Idle, released task (snd (queue_requeue dag_queue (td_task_id task) (td_attempt task + 1) s)))"
| "phase_turn me fresh now outcome Dead s = (Dead, s)"

subsection \<open>The phases are those of \<open>execute_task\<close>\<close>

text \<open>All turns of a worker without interruption, until it is idle or dead again.\<close>

fun run_phases :: "nat \<Rightarrow> WorkerId \<Rightarrow> LeaseId \<Rightarrow> instant \<Rightarrow> WorkerError + ExitOutcome \<Rightarrow> Phase \<Rightarrow> World \<Rightarrow> Phase \<times> World" where
  "run_phases 0 me fresh now outcome ph s = (ph, s)"
| "run_phases (Suc n) me fresh now outcome ph s =
     (if ph = Idle \<or> ph = Dead then (ph, s)
      else case phase_turn me fresh now outcome ph s of (ph', s') \<Rightarrow> run_phases n me fresh now outcome ph' s')"

lemma run_phases_done [simp]: "run_phases n me fresh now outcome Idle s = (Idle, s)" "run_phases n me fresh now outcome Dead s = (Dead, s)"
  by (cases n; simp)+


lemma fake_calls [simp]:
  "on_fake (fake_can_allocate req) s = (Ok (fake_resource_behavior (w_fake s) = AlwaysAllow), s)"
  "on_fake (fake_allocate req) s = (Ok (), s)"
  "on_fake (fake_release req) s = (Ok (), s)"
  "on_fake (fake_emit_event e) s = (Ok (), emitted e s)"
  by (auto simp: on_fake_def fake_can_allocate_def fake_allocate_def fake_release_def fake_emit_event_def emitted_def
      split: ResourceBehavior.split)

lemma emitted_simps [simp]:
  "w_dag (emitted e s) = w_dag s" "w_leases (emitted e s) = w_leases s" "released task s = s"
  by (simp_all add: emitted_def on_fake_def fake_emit_event_def released_def fake_release_def)

lemma acquire_halves:
  "lm_acquire world_leases l s = (if insert_check l (w_leases s)
     then (Ok (), s\<lparr>w_leases := insert_put l (w_leases s)\<rparr>) else (Err AlreadyLeased, s))"
  by (simp add: lm_acquire_def on_leases_def mem_insert_halves)

lemma core_not_panicked [simp]:
  "map_err (Failing \<circ> Core) r \<noteq> Err Panicked" "map_err (Failing \<circ> Core) r \<noteq> Inl Panicked"
  by (cases r; simp add: map_err_def)+

lemmas turn_defs = core_def process_def with_guard_def then_with_def try_bind_def
  drop_active_guard_def drop_resource_guard_def

lemma run_phases_execute_task:
  assumes "10 \<le> n"
  shows "run_phases n me fresh now outcome (Dequeued task) (wk_world w)
    = (let (r, w') = execute_task (local_runtime me (\<lambda>p v. (outcome, v)) (\<lambda>d v. v)) fresh now task w in
       (if r = Err Panicked then Dead else Idle, wk_world w'))"
proof -
  obtain m where "n = m + 10" using assms by (metis add.commute le_Suc_ex)
  then have n: "n = Suc (Suc (Suc (Suc (Suc (Suc (Suc (Suc (Suc (Suc m)))))))))" by simp
  let ?R = "local_runtime me (\<lambda>p v. (outcome, v)) (\<lambda>d v. v)"
  have ended: "run_phases (Suc (Suc (Suc (Suc k)))) me fresh now outcome (Ended task oc) (wk_world v)
      = (let (r, w') = settle ?R task oc v in (if r = Err Panicked then Dead else Idle, wk_world w'))"
    if "fmlookup (w_leases (wk_world v)) (td_task_id task) = Some l" "ls_task_id l = td_task_id task" for oc v l k
    using that
    by (auto simp: settle_def core_def try_bind_def lm_fail_def lm_complete_def lm_modify_def
        on_leases_def on_dag_def with_lock_def mem_get_def mem_update_def Let_def
        split: option.splits RetryDecision.splits prod.splits sum.splits)
  have leased: "run_phases (Suc (Suc (Suc (Suc (Suc (Suc k)))))) me fresh now outcome (Leased task) (wk_world v)
      = (let (r, w') = run_leased ?R task v in (if r = Err Panicked then Dead else Idle, wk_world w'))"
    if l: "fmlookup (w_leases (wk_world v)) (td_task_id task) = Some l" "ls_task_id l = td_task_id task" for v l k
  proof (cases outcome)
    case (Inr oc)
    let ?e = "emitted (EvAcquired (td_task_id task) me (td_attempt task)) (wk_world v)"
    let ?v = "v\<lparr>wk_active := fmupd (td_task_id task) False (wk_active v), wk_heartbeats := td_task_id task # wk_heartbeats v,
        wk_world := emitted (EvCompleted (td_task_id task) oc) ?e\<rparr>"
    have "fmlookup (w_leases (wk_world ?v)) (td_task_id task) = Some l" using l by simp
    from ended [OF this l(2), of k oc]
    have "run_phases (Suc (Suc (Suc (Suc k)))) me fresh now outcome (Ended task oc) (wk_world ?v)
      = (case settle ?R task oc ?v of (r, w') \<Rightarrow> (if r = Err Panicked then Dead else Idle, wk_world w'))"
      by (simp add: Let_def)
    moreover have "run_phases (Suc (Suc K)) me fresh now outcome (Leased task) (wk_world v)
        = run_phases K me fresh now outcome (Ended task oc) (wk_world ?v)" for K
      using Inr by simp
    moreover have "run_leased ?R task v = (case settle ?R task oc ?v of (r, w') \<Rightarrow> (r, drop_active_guard (td_task_id task) w'))"
      using Inr by (simp add: run_leased_def turn_defs Let_def)
    ultimately show ?thesis by (simp only:) (simp add: drop_active_guard_def split: prod.split)
  qed (simp add: run_leased_def turn_defs Let_def)
  show ?thesis
  proof (cases "fake_resource_behavior (w_fake (wk_world w)) = AlwaysAllow")
    case False
    then show ?thesis by (auto simp: n execute_task_def turn_defs split: prod.split sum.split)
  next
    case True
    let ?l = "lease_new fresh now (td_task_id task) me (from_secs 30) (td_attempt task)"
    let ?v = "w\<lparr>wk_world := (wk_world w)\<lparr>w_leases := insert_put ?l (w_leases (wk_world w))\<rparr>\<rparr>"
    have exec: "execute_task ?R fresh now task w = with_guard (drop_resource_guard ?R (td_resources task))
        (run_with_lease ?R fresh now task) w"
      using True by (simp add: execute_task_def turn_defs)
    show ?thesis
    proof (cases "insert_check ?l (w_leases (wk_world w))")
      case False
      then show ?thesis using True
        by (simp add: n exec run_with_lease_def turn_defs acquire_halves Let_def)
    next
      case ok: True
      have "fmlookup (w_leases (wk_world ?v)) (td_task_id task) = Some ?l" "ls_task_id ?l = td_task_id task"
        by (simp_all add: insert_put_def lease_new_def)
      from leased [OF this, of m] have "run_phases (Suc (Suc (Suc (Suc (Suc (Suc m)))))) me fresh now outcome (Leased task) (wk_world ?v)
        = (case run_leased ?R task ?v of (r, w') \<Rightarrow> (if r = Err Panicked then Dead else Idle, wk_world w'))"
        by (simp add: Let_def)
      moreover have "run_phases (Suc (Suc (Suc (Suc K)))) me fresh now outcome (Dequeued task) (wk_world w)
          = run_phases K me fresh now outcome (Leased task) (wk_world ?v)" for K
        using True ok by (simp add: Let_def)
      then have "run_phases (Suc (Suc (Suc (Suc (Suc (Suc (Suc (Suc (Suc (Suc m)))))))))) me fresh now outcome (Dequeued task) (wk_world w)
          = run_phases (Suc (Suc (Suc (Suc (Suc (Suc m)))))) me fresh now outcome (Leased task) (wk_world ?v)" .
      moreover have "execute_task ?R fresh now task w = run_leased ?R task ?v"
        using ok by (simp add: exec run_with_lease_def turn_defs acquire_halves Let_def split: prod.split)
      ultimately show ?thesis by (simp only: n Let_def)
    qed
  qed
qed

text \<open>
  Left alone, the turns of a worker are \<open>execute_task\<close>: from the dequeued task, at most ten of
  them reach the same state of the node and leave the worker ready for its next task, or dead where
  \<open>execute_task\<close> panics, whatever the process does.
\<close>

lemma phases_are_execute_task:
  "run_phases 10 me fresh now outcome (Dequeued task) (wk_world w)
    = (let (r, w') = execute_task (local_runtime me (\<lambda>p v. (outcome, v)) (\<lambda>d v. v)) fresh now task w in
       (if r = Err Panicked then Dead else Idle, wk_world w'))"
  by (rule run_phases_execute_task) simp

subsection \<open>The pool\<close>

text \<open>
  \<open>pl_reaping\<close> are the expired leases the reaper has yet to report and requeue; \<open>pl_started\<close> lists
  the tasks whose executor was called, in order.
\<close>

record Pool =
  pl_world :: World
  pl_phase :: "WorkerId \<Rightarrow> Phase"
  pl_reaping :: "Lease list"
  pl_started :: "TaskId list"

definition pool_start :: "World \<Rightarrow> Pool" where
  "pool_start s = \<lparr>pl_world = s, pl_phase = (\<lambda>_. Idle), pl_reaping = [], pl_started = []\<rparr>"

definition on_world :: "(World \<Rightarrow> World) \<Rightarrow> Pool \<Rightarrow> Pool" where
  "on_world f p = p\<lparr>pl_world := f (pl_world p)\<rparr>"

text \<open>
  The write that ends \<open>renew\<close>, \<open>complete\<close>, \<open>fail\<close> or \<open>cancel\<close> may carry a stale copy, as may the one
  of an iteration of \<open>collect_expired\<close>: \<open>PtWrite\<close> and \<open>PtExpire\<close> write any lease. \<open>PtReap\<close> is an
  iteration of the reaper loop; the last six are the clients of the scheduler, \<open>cancel_task\<close>, the
  clock and the monitor.
\<close>

datatype PoolTurn =
    PtWorker WorkerId LeaseId instant "WorkerError + ExitOutcome"
  | PtWrite Lease
  | PtExpire Lease
  | PtReap
  | PtEnqueue TaskDescriptor
  | PtComplete TaskId
  | PtFail TaskId
  | PtDiscard TaskId
  | PtClock u64
  | PtMonitor ResourceBehavior

definition worker_turn :: "WorkerId \<Rightarrow> LeaseId \<Rightarrow> instant \<Rightarrow> WorkerError + ExitOutcome \<Rightarrow> Pool \<Rightarrow> Pool" where
  "worker_turn me fresh now outcome p =
     (case phase_turn me fresh now outcome (pl_phase p me) (pl_world p) of (ph, s) \<Rightarrow>
        p\<lparr>pl_phase := (pl_phase p)(me := ph), pl_world := s,
          pl_started := pl_started p @ (case pl_phase p me of Leased task \<Rightarrow> [td_task_id task] | _ \<Rightarrow> [])\<rparr>)"

fun pool_turn :: "PoolTurn \<Rightarrow> Pool \<Rightarrow> Pool" where
  "pool_turn (PtWorker me fresh now outcome) p = worker_turn me fresh now outcome p"
| "pool_turn (PtWrite l) p = on_world (snd \<circ> on_leases (mem_update l)) p"
| "pool_turn (PtExpire l) p =
     (case on_leases (mem_update l) (pl_world p) of
        (Inr _, s) \<Rightarrow> p\<lparr>pl_world := s, pl_reaping := pl_reaping p @ [l]\<rparr>
      | (Inl e, s) \<Rightarrow> p\<lparr>pl_world := s\<rparr>)"
| "pool_turn PtReap p =
     (case pl_reaping p of
        [] \<Rightarrow> p
      | l # ls \<Rightarrow> on_world (snd \<circ> queue_requeue dag_queue (ls_task_id l) (ls_attempt l + 1))
          (on_world (emitted (EvLeaseExpired (ls_task_id l))) (p\<lparr>pl_reaping := ls\<rparr>)))"
| "pool_turn (PtEnqueue task) p = on_world (\<lambda>s. snd (on_dag (with_lock (inner_enqueue sorted_list_of_set (w_now s) task)) s)) p"
| "pool_turn (PtComplete t) p = on_world (\<lambda>s. snd (on_dag (with_lock (inner_complete sorted_list_of_set (w_now s) t)) s)) p"
| "pool_turn (PtFail t) p = on_world (snd \<circ> on_dag (with_lock (inner_fail sorted_list_of_set t))) p"
| "pool_turn (PtDiscard t) p = on_world (snd \<circ> queue_discard dag_queue t) p"
| "pool_turn (PtClock now) p = on_world (w_now_update (\<lambda>_. now)) p"
| "pool_turn (PtMonitor b) p = on_world (w_fake_update (fake_set_resource_behavior b)) p"

subsection \<open>The invariant\<close>

fun before_lease :: "Phase \<Rightarrow> TaskId option" where
  "before_lease (Dequeued task) = Some (td_task_id task)"
| "before_lease (Refused task) = Some (td_task_id task)"
| "before_lease (Admitted task) = Some (td_task_id task)"
| "before_lease (Allocated task) = Some (td_task_id task)"
| "before_lease (Checked task l) = Some (td_task_id task)"
| "before_lease _ = None"

fun after_lease :: "Phase \<Rightarrow> TaskId option" where
  "after_lease (Leased task) = Some (td_task_id task)"
| "after_lease (Executing task) = Some (td_task_id task)"
| "after_lease (Ended task oc) = Some (td_task_id task)"
| "after_lease (Announced task) = Some (td_task_id task)"
| "after_lease (Delayed task) = Some (td_task_id task)"
| "after_lease _ = None"

fun executing :: "Phase \<Rightarrow> TaskId option" where
  "executing (Leased task) = Some (td_task_id task)"
| "executing (Executing task) = Some (td_task_id task)"
| "executing _ = None"

text \<open>A task that the scheduler will not hand out again unless it is requeued.\<close>

definition taken :: "Inner \<Rightarrow> TaskId \<Rightarrow> bool" where
  "taken d t \<longleftrightarrow> fmlookup (dag_states d) t \<notin> {None, Some Pending, Some Ready}"

abbreviation pl_dag :: "Pool \<Rightarrow> Inner" where
  "pl_dag p \<equiv> dag_inner (w_dag (pl_world p))"

text \<open>A task without a lease was never started and has at most one holder, for whom it was taken.\<close>

definition unleased_ok :: "Pool \<Rightarrow> TaskId \<Rightarrow> bool" where
  "unleased_ok p t \<longleftrightarrow> t \<notin> set (pl_started p)
     \<and> (\<forall>w. before_lease (pl_phase p w) = Some t \<longrightarrow> taken (pl_dag p) t)
     \<and> (\<forall>w w'. before_lease (pl_phase p w) = Some t \<and> before_lease (pl_phase p w') = Some t \<longrightarrow> w = w')"

definition leased_ok :: "Pool \<Rightarrow> bool" where
  "leased_ok p \<longleftrightarrow> keyed (w_leases (pl_world p))
     \<and> (\<forall>w t. after_lease (pl_phase p w) = Some t \<longrightarrow> fmlookup (w_leases (pl_world p)) t \<noteq> None)
     \<and> (\<forall>l \<in> set (pl_reaping p). fmlookup (w_leases (pl_world p)) (ls_task_id l) \<noteq> None)
     \<and> (\<forall>w task l. pl_phase p w = Checked task l \<longrightarrow>
          ls_task_id l = td_task_id task \<and> fmlookup (w_leases (pl_world p)) (td_task_id task) = None)"

definition started_ok :: "Pool \<Rightarrow> bool" where
  "started_ok p \<longleftrightarrow> distinct (pl_started p)
     \<and> (\<forall>w task. pl_phase p w = Leased task \<longrightarrow> td_task_id task \<notin> set (pl_started p))
     \<and> (\<forall>w w' t. executing (pl_phase p w) = Some t \<and> executing (pl_phase p w') = Some t \<longrightarrow> w = w')"

definition pool_inv :: "Pool \<Rightarrow> bool" where
  "pool_inv p \<longleftrightarrow> dag_inv (pl_dag p) \<and> leased_ok p \<and> started_ok p
     \<and> (\<forall>t. fmlookup (w_leases (pl_world p)) t = None \<longrightarrow> unleased_ok p t)"

lemmas pool_inv_defs = pool_inv_def leased_ok_def started_ok_def unleased_ok_def

subsection \<open>What the turns keep\<close>

text \<open>A change of the scheduler that gives back no task that a worker holds without a lease.\<close>

lemma pool_inv_dag:
  assumes p: "pool_inv p" and d: "dag_inv (dag_inner (w_dag s))" and l: "w_leases s = w_leases (pl_world p)"
    and t: "\<And>w t. before_lease (pl_phase p w) = Some t \<Longrightarrow> fmlookup (w_leases s) t = None \<Longrightarrow> taken (pl_dag p) t
      \<Longrightarrow> taken (dag_inner (w_dag s)) t"
  shows "pool_inv (p\<lparr>pl_world := s\<rparr>)"
  using p d t unfolding pool_inv_defs by (simp add: l) blast

lemma pool_inv_leases:
  assumes p: "pool_inv p" and k: "keyed m" and d: "\<And>t. fmlookup m t = None \<longleftrightarrow> fmlookup (w_leases (pl_world p)) t = None"
  shows "pool_inv (p\<lparr>pl_world := (pl_world p)\<lparr>w_leases := m\<rparr>\<rparr>)"
  using p k unfolding pool_inv_defs by (simp add: d taken_def)

text \<open>A worker that gives up its task, or goes on with it.\<close>

lemma pool_inv_phases:
  assumes p: "pool_inv p"
    and b: "\<And>w t. before_lease (f w) = Some t \<Longrightarrow> before_lease (pl_phase p w) = Some t"
    and a: "\<And>w t. after_lease (f w) = Some t \<Longrightarrow> after_lease (pl_phase p w) = Some t"
    and e: "\<And>w t. executing (f w) = Some t \<Longrightarrow> executing (pl_phase p w) = Some t"
    and c: "\<And>w task l. f w = Checked task l \<Longrightarrow> pl_phase p w = Checked task l"
    and d: "\<And>w task. f w = Leased task \<Longrightarrow> pl_phase p w = Leased task"
  shows "pool_inv (p\<lparr>pl_phase := f\<rparr>)"
proof -
  have l: "leased_ok p" and st: "started_ok p" and u: "\<And>t. fmlookup (w_leases (pl_world p)) t = None \<Longrightarrow> unleased_ok p t"
    using p by (simp_all add: pool_inv_def)
  have "leased_ok (p\<lparr>pl_phase := f\<rparr>)"
    using l a c unfolding leased_ok_def by (simp del: not_None_eq) metis
  moreover have "started_ok (p\<lparr>pl_phase := f\<rparr>)"
  proof -
    have "w = w'" if "executing (f w) = Some t" "executing (f w') = Some t" for w w' t
      using st e [OF that(1)] e [OF that(2)] unfolding started_ok_def by blast
    then show ?thesis using st d unfolding started_ok_def by simp blast
  qed
  moreover have "unleased_ok (p\<lparr>pl_phase := f\<rparr>) t" if "unleased_ok p t" for t
  proof -
    have "w = w'" if "before_lease (f w) = Some t" "before_lease (f w') = Some t" for w w'
      using \<open>unleased_ok p t\<close> b [OF that(1)] b [OF that(2)] unfolding unleased_ok_def by blast
    then show ?thesis using that b unfolding unleased_ok_def by simp blast
  qed
  ultimately show ?thesis using p u unfolding pool_inv_def by simp
qed

lemma pool_inv_phase:
  assumes "pool_inv p"
    and "before_lease ph = None \<or> before_lease ph = before_lease (pl_phase p me)"
    and "after_lease ph = None \<or> after_lease ph = after_lease (pl_phase p me)"
    and "executing ph = None" and "\<And>task l. ph \<noteq> Checked task l"
  shows "pool_inv (p\<lparr>pl_phase := (pl_phase p)(me := ph)\<rparr>)"
  by (rule pool_inv_phases [OF assms(1)]) (use assms(2-) in \<open>auto split: if_splits\<close>)

text \<open>The turns of the scheduler, which never take back a task by themselves.\<close>

lemma fail_taken:
  assumes "taken d t"
  shows "taken (snd (inner_fail ord u d)) t"
proof (cases "fmlookup (dag_states d) u \<in> {Some Pending, Some Ready, Some Running}")
  case True
  have "taken (d\<lparr>dag_states := fmupd u TaskFailed (dag_states d)\<rparr>) t" using assms by (simp add: taken_def)
  then show ?thesis
    using only_failsD [OF cascade_only_fails [of "fmupd u TaskFailed (dag_states d)" ord "dag_successors d" "[u]"], of t]
    by (auto simp: taken_def inner_fail_ok(2) [OF True])
qed (simp add: assms inner_fail_error)

lemma complete_taken:
  assumes "taken d t"
  shows "taken (snd (inner_complete ord now u d)) t"
proof (cases "fmlookup (dag_states d) u = Some Running")
  case True
  let ?d = "release_running u (d\<lparr>dag_states := fmupd u TaskCompleted (dag_states d)\<rparr>)"
  have "taken ?d t" using assms by (simp add: taken_def)
  then show ?thesis using True fold_unblock_states [of now "ord (successors_of ?d u)" ?d t]
    by (auto simp: taken_def inner_complete_def Let_def)
qed (use assms in \<open>auto simp: inner_complete_def split: option.split\<close>)

lemma dequeue_taken:
  assumes "taken d t"
  shows "taken (snd (inner_dequeue now d)) t"
  using inner_dequeue_states [of now d] assms by (auto simp: taken_def split: if_splits)

lemma enqueue_taken:
  assumes inv: "dag_inv d" and t: "taken d t"
  shows "taken (snd (inner_enqueue sorted_list_of_set now task d)) t"
  using inv hash_order_sorted
proof (cases rule: inner_enqueue_cases [of _ _ now task])
  case (rejected e)
  from rejected [THEN arg_cong [where f = "\<lambda>r. dag_states (snd r)"]]
  have "dag_states (snd (inner_enqueue sorted_list_of_set now task d)) = dag_states d" by simp
  then show ?thesis using t by (simp add: taken_def)
next
  case admitted
  have "graph_ok d" using inv by (simp add: dag_inv_def dag_inv_during_def)
  then have "fmdom' (dag_states d) = fmdom' (dag_tasks d)" by (simp add: graph_ok_def)
  then have "fmlookup (dag_states d) (td_task_id task) = None"
    using admitted(2) by (metis fmdom'_notD fmdom'_notI)
  then have "t \<noteq> td_task_id task" using t by (auto simp: taken_def)
  then show ?thesis using t by (simp add: admitted(1) taken_def)
qed

lemma requeue_taken:
  "taken d t \<Longrightarrow> t \<noteq> u \<Longrightarrow> taken (snd (inner_requeue now u a d)) t"
  by (simp add: taken_def inner_requeue_states)

lemma on_dag_simps [simp]:
  "w_leases (snd (on_dag (with_lock f) s)) = w_leases s"
  "dag_inner (w_dag (snd (on_dag (with_lock f) s)))
     = (if dag_poisoned (w_dag s) then dag_inner (w_dag s) else snd (f (dag_inner (w_dag s))))"
  by (simp_all add: on_dag_def with_lock_def split: prod.split)

lemma dag_turn:
  assumes p: "pool_inv p" and i: "dag_inv (snd (f (pl_dag p)))"
    and t: "\<And>w t. before_lease (pl_phase p w) = Some t \<Longrightarrow> fmlookup (w_leases (pl_world p)) t = None
      \<Longrightarrow> taken (pl_dag p) t \<Longrightarrow> taken (snd (f (pl_dag p))) t"
  shows "pool_inv (p\<lparr>pl_world := snd (on_dag (with_lock f) (pl_world p))\<rparr>)"
  by (rule pool_inv_dag [OF p]) (use p i t in \<open>auto simp: pool_inv_def\<close>)

lemma lease_write_turn:
  assumes p: "pool_inv p"
  shows "pool_inv (p\<lparr>pl_world := snd (on_leases (mem_update l) (pl_world p))\<rparr>)"
proof (cases "fmlookup (w_leases (pl_world p)) (ls_task_id l)")
  case (Some old)
  have k: "keyed (fmupd (ls_task_id l) l (w_leases (pl_world p)))"
    using p by (auto simp: pool_inv_def leased_ok_def keyed_def)
  have "fmlookup (fmupd (ls_task_id l) l (w_leases (pl_world p))) t = None
      \<longleftrightarrow> fmlookup (w_leases (pl_world p)) t = None" for t using Some by auto
  from pool_inv_leases [OF p k this] Some show ?thesis by (simp add: on_leases_def mem_update_def)
qed (use p in \<open>simp add: on_leases_def mem_update_def\<close>)

lemma reaping_snoc:
  "pool_inv p \<Longrightarrow> fmlookup (w_leases (pl_world p)) (ls_task_id l) \<noteq> None \<Longrightarrow>
   pool_inv (p\<lparr>pl_reaping := pl_reaping p @ [l]\<rparr>)"
  unfolding pool_inv_defs by auto

lemma expire_turn:
  assumes p: "pool_inv p"
  shows "pool_inv (pool_turn (PtExpire l) p)"
proof (cases "fmlookup (w_leases (pl_world p)) (ls_task_id l)")
  case (Some old)
  then show ?thesis using reaping_snoc [OF lease_write_turn [OF p, of l], of l]
    by (simp add: on_leases_def mem_update_def)
qed (use p in \<open>simp add: on_leases_def mem_update_def\<close>)

lemma reap_turn:
  assumes p: "pool_inv p"
  shows "pool_inv (pool_turn PtReap p)"
proof (cases "pl_reaping p")
  case (Cons l ls)
  let ?q = "p\<lparr>pl_reaping := ls, pl_world := emitted (EvLeaseExpired (ls_task_id l)) (pl_world p)\<rparr>"
  have l: "fmlookup (w_leases (pl_world p)) (ls_task_id l) \<noteq> None"
    using p Cons by (simp add: pool_inv_def leased_ok_def)
  have q: "pool_inv ?q" using p Cons unfolding pool_inv_defs by simp
  have "pool_inv (?q\<lparr>pl_world := snd (on_dag (with_lock (inner_requeue (w_now (pl_world ?q)) (ls_task_id l) (ls_attempt l + 1)))
      (pl_world ?q))\<rparr>)"
    by (rule dag_turn [OF q]) (use q l in \<open>auto simp: pool_inv_def intro!: inner_requeue_inv requeue_taken\<close>)
  then show ?thesis using Cons by (simp add: on_world_def)
qed (use p in simp)

lemma requeue_released:
  assumes p: "pool_inv p" and h: "\<And>w. before_lease (pl_phase p w) = Some t \<Longrightarrow> fmlookup (w_leases (pl_world p)) t \<noteq> None"
  shows "pool_inv (p\<lparr>pl_world := snd (queue_requeue dag_queue t a (pl_world p))\<rparr>)"
  unfolding dag_queue_simps
  by (rule dag_turn [OF p]) (use p h in \<open>auto simp: pool_inv_def intro!: inner_requeue_inv requeue_taken\<close>)

lemma refused_turn:
  assumes p: "pool_inv p" and ph: "pl_phase p me = Refused task"
  shows "pool_inv (worker_turn me fresh now outcome p)"
proof -
  let ?q = "p\<lparr>pl_phase := (pl_phase p)(me := Idle)\<rparr>"
  have q: "pool_inv ?q" by (rule pool_inv_phase [OF p]) simp_all
  have "pool_inv (?q\<lparr>pl_world := snd (queue_requeue dag_queue (td_task_id task) (td_attempt task) (pl_world ?q))\<rparr>)"
  proof (rule requeue_released [OF q])
    fix w assume w: "before_lease (pl_phase ?q w) = Some (td_task_id task)"
    then have "w \<noteq> me" "before_lease (pl_phase p w) = Some (td_task_id task)" by (auto split: if_splits)
    moreover have "before_lease (pl_phase p me) = Some (td_task_id task)" by (simp add: ph)
    ultimately show "fmlookup (w_leases (pl_world ?q)) (td_task_id task) \<noteq> None"
      using p unfolding pool_inv_def unleased_ok_def by fastforce
  qed
  then show ?thesis by (simp add: worker_turn_def ph)
qed

lemma delayed_turn:
  assumes p: "pool_inv p" and ph: "pl_phase p me = Delayed task"
  shows "pool_inv (worker_turn me fresh now outcome p)"
proof -
  let ?q = "p\<lparr>pl_phase := (pl_phase p)(me := Idle)\<rparr>"
  have q: "pool_inv ?q" by (rule pool_inv_phase [OF p]) simp_all
  have "after_lease (pl_phase p me) = Some (td_task_id task)" by (simp add: ph)
  then have "fmlookup (w_leases (pl_world p)) (td_task_id task) \<noteq> None"
    using p unfolding pool_inv_def leased_ok_def by blast
  then have "pool_inv (?q\<lparr>pl_world := snd (queue_requeue dag_queue (td_task_id task) (td_attempt task + 1) (pl_world ?q))\<rparr>)"
    by (intro requeue_released [OF q]) simp
  then show ?thesis by (simp add: worker_turn_def ph)
qed

lemma leased_start_turn:
  assumes p: "pool_inv p" and ph: "pl_phase p me = Leased task"
  shows "pool_inv (worker_turn me fresh now outcome p)"
proof -
  let ?t = "td_task_id task"
  let ?e = "emitted (EvAcquired ?t me (td_attempt task)) (pl_world p)"
  let ?q = "p\<lparr>pl_phase := (pl_phase p)(me := Executing task), pl_world := ?e, pl_started := pl_started p @ [?t]\<rparr>"
  have l: "leased_ok p" and st: "started_ok p" and u: "\<And>t. fmlookup (w_leases (pl_world p)) t = None \<Longrightarrow> unleased_ok p t"
    using p by (simp_all add: pool_inv_def)
  have me: "after_lease (pl_phase p me) = Some ?t" "executing (pl_phase p me) = Some ?t" by (simp_all add: ph)
  have some: "fmlookup (w_leases (pl_world p)) ?t \<noteq> None" using l me(1) unfolding leased_ok_def by blast
  have new: "?t \<notin> set (pl_started p)" using st ph by (simp add: started_ok_def)
  have only: "w = me" if "executing (pl_phase p w) = Some ?t" for w
    using st that me(2) unfolding started_ok_def by blast
  have ex: "executing (pl_phase ?q w) = executing (pl_phase p w)"
    and af: "after_lease (pl_phase ?q w) = after_lease (pl_phase p w)"
    and be: "before_lease (pl_phase ?q w) = before_lease (pl_phase p w)" for w by (simp_all add: ph)
  have ck: "pl_phase ?q w = Checked task' l' \<longleftrightarrow> pl_phase p w = Checked task' l'" for w task' l' by (simp add: ph)
  have "leased_ok ?q" using l unfolding leased_ok_def af ck by simp
  moreover have "started_ok ?q"
    unfolding started_ok_def ex
  proof (intro conjI allI impI)
    show "distinct (pl_started ?q)" using st new by (simp add: started_ok_def)
  next
    fix w task' assume w: "pl_phase ?q w = Leased task'"
    then have w: "w \<noteq> me" "pl_phase p w = Leased task'" by (simp_all split: if_splits)
    then have "td_task_id task' \<noteq> ?t" using only [of w] by auto
    then show "td_task_id task' \<notin> set (pl_started ?q)" using st w(2) by (simp add: started_ok_def)
  next
    fix w w' t assume "executing (pl_phase p w) = Some t \<and> executing (pl_phase p w') = Some t"
    then show "w = w'" using st unfolding started_ok_def by blast
  qed
  moreover have "unleased_ok ?q t" if "fmlookup (w_leases (pl_world p)) t = None" for t
    using u [OF that] that some unfolding unleased_ok_def be by auto
  ultimately have "pool_inv ?q" using p by (simp add: pool_inv_def)
  then show ?thesis by (simp add: worker_turn_def ph)
qed

lemma check_turn:
  assumes p: "pool_inv p" and ph: "pl_phase p me = Allocated task"
  shows "pool_inv (worker_turn me fresh now outcome p)"
proof -
  let ?l = "lease_new fresh now (td_task_id task) me (from_secs 30) (td_attempt task)"
  show ?thesis
  proof (cases "fmlookup (w_leases (pl_world p)) (td_task_id task)")
    case (Some old)
    have "pool_inv (p\<lparr>pl_phase := (pl_phase p)(me := Idle)\<rparr>)" by (rule pool_inv_phase [OF p]) simp_all
    then show ?thesis using Some by (simp add: worker_turn_def ph Let_def insert_check_def lease_new_def)
  next
    case None
    let ?q = "p\<lparr>pl_phase := (pl_phase p)(me := Checked task ?l)\<rparr>"
    have l: "leased_ok p" and st: "started_ok p" and u: "\<And>t. fmlookup (w_leases (pl_world p)) t = None \<Longrightarrow> unleased_ok p t"
      using p by (simp_all add: pool_inv_def)
    have ex: "executing (pl_phase ?q w) = executing (pl_phase p w)"
      and af: "after_lease (pl_phase ?q w) = after_lease (pl_phase p w)"
      and be: "before_lease (pl_phase ?q w) = before_lease (pl_phase p w)" for w by (simp_all add: ph)
    have le: "pl_phase ?q w = Leased task' \<longleftrightarrow> pl_phase p w = Leased task'" for w task' by (simp add: ph)
    have "leased_ok ?q" using l None unfolding leased_ok_def af by (simp add: lease_new_def)
    moreover have "started_ok ?q" using st unfolding started_ok_def ex le by simp
    moreover have "unleased_ok ?q t" if "fmlookup (w_leases (pl_world p)) t = None" for t
      using u [OF that] unfolding unleased_ok_def be by simp
    ultimately have "pool_inv ?q" using p by (simp add: pool_inv_def)
    then show ?thesis using None by (simp add: worker_turn_def ph Let_def insert_check_def lease_new_def)
  qed
qed

lemma put_turn:
  assumes p: "pool_inv p" and ph: "pl_phase p me = Checked task l"
  shows "pool_inv (worker_turn me fresh now outcome p)"
proof -
  let ?t = "td_task_id task"
  let ?q = "p\<lparr>pl_phase := (pl_phase p)(me := Leased task),
      pl_world := (pl_world p)\<lparr>w_leases := insert_put l (w_leases (pl_world p))\<rparr>\<rparr>"
  have lo: "leased_ok p" and st: "started_ok p" and u: "\<And>t. fmlookup (w_leases (pl_world p)) t = None \<Longrightarrow> unleased_ok p t"
    using p by (simp_all add: pool_inv_def)
  have l: "ls_task_id l = ?t" and none: "fmlookup (w_leases (pl_world p)) ?t = None"
    using lo ph unfolding leased_ok_def by blast+
  have me: "before_lease (pl_phase p me) = Some ?t" by (simp add: ph)
  have only: "w = me" if "before_lease (pl_phase p w) = Some ?t" for w
    using u [OF none] that me unfolding unleased_ok_def by blast
  have noex: "after_lease (pl_phase p w) \<noteq> Some ?t" for w using lo none unfolding leased_ok_def by metis
  have exaf: "executing x = Some t \<Longrightarrow> after_lease x = Some t" for x t by (cases x) simp_all
  have lease: "fmlookup (w_leases (pl_world ?q)) t = (if t = ?t then Some l else fmlookup (w_leases (pl_world p)) t)" for t
    by (simp add: insert_put_def l)
  have "leased_ok ?q"
    unfolding leased_ok_def lease
  proof (intro conjI allI ballI impI)
    show "keyed (w_leases (pl_world ?q))" using lo by (simp add: leased_ok_def keyed_def insert_put_def)
  next
    fix w t assume "after_lease (pl_phase ?q w) = Some t"
    then have "t = ?t \<or> after_lease (pl_phase p w) = Some t" by (simp split: if_splits)
    then show "(if t = ?t then Some l else fmlookup (w_leases (pl_world p)) t) \<noteq> None"
      using lo unfolding leased_ok_def by (metis option.discI)
  next
    fix k assume "k \<in> set (pl_reaping ?q)"
    then show "(if ls_task_id k = ?t then Some l else fmlookup (w_leases (pl_world p)) (ls_task_id k)) \<noteq> None"
      using lo by (simp add: leased_ok_def)
  next
    fix w task' k assume "pl_phase ?q w = Checked task' k"
    then have w: "w \<noteq> me" "pl_phase p w = Checked task' k" by (simp_all split: if_splits)
    then have "td_task_id task' \<noteq> ?t" using only [of w] by auto
    moreover have "ls_task_id k = td_task_id task' \<and> fmlookup (w_leases (pl_world p)) (td_task_id task') = None"
      using lo w(2) unfolding leased_ok_def by blast
    ultimately show "ls_task_id k = td_task_id task'"
      "(if td_task_id task' = ?t then Some l else fmlookup (w_leases (pl_world p)) (td_task_id task')) = None" by simp_all
  qed
  moreover have "started_ok ?q"
    unfolding started_ok_def
  proof (intro conjI allI impI)
    show "distinct (pl_started ?q)" using st by (simp add: started_ok_def)
  next
    fix w task' assume "pl_phase ?q w = Leased task'"
    then have "task' = task \<or> pl_phase p w = Leased task'" by (simp split: if_splits)
    then show "td_task_id task' \<notin> set (pl_started ?q)"
      using st u [OF none] by (auto simp: started_ok_def unleased_ok_def)
  next
    fix w w' t assume "executing (pl_phase ?q w) = Some t \<and> executing (pl_phase ?q w') = Some t"
    then consider "w = me" "w' = me" | "t = ?t" "executing (pl_phase p w) = Some t \<or> executing (pl_phase p w') = Some t"
      | "executing (pl_phase p w) = Some t" "executing (pl_phase p w') = Some t" by (auto split: if_splits)
    then show "w = w'"
    proof cases
      case 2
      then show ?thesis using exaf noex by blast
    qed (use st in \<open>unfold started_ok_def, blast+\<close>)
  qed
  moreover have "unleased_ok ?q t" if "fmlookup (w_leases (pl_world ?q)) t = None" for t
  proof -
    have t: "t \<noteq> ?t" "fmlookup (w_leases (pl_world p)) t = None" using that [unfolded lease] by (auto split: if_splits)
    have b: "before_lease (pl_phase p w) = Some t" if "before_lease (pl_phase ?q w) = Some t" for w
      using that by (simp split: if_splits)
    show ?thesis unfolding unleased_ok_def
    proof (intro conjI allI impI)
      show "t \<notin> set (pl_started ?q)" using u [OF t(2)] by (simp add: unleased_ok_def)
      show "taken (pl_dag ?q) t" if "before_lease (pl_phase ?q w) = Some t" for w
        using u [OF t(2)] b [OF that] unfolding unleased_ok_def by auto
      show "w = w'" if "before_lease (pl_phase ?q w) = Some t \<and> before_lease (pl_phase ?q w') = Some t" for w w'
        using u [OF t(2)] b [of w] b [of w'] that unfolding unleased_ok_def by blast
    qed
  qed
  ultimately have "pool_inv ?q" using p by (simp add: pool_inv_def)
  then show ?thesis by (simp add: worker_turn_def ph)
qed

lemma dequeued_task:
  assumes inv: "dag_inv d" and r: "inner_dequeue now d = (Ok (Some task), d')"
  shows "fmlookup (dag_states d) (td_task_id task) = Some Ready"
    and "dag_states d' = fmupd (td_task_id task) Running (dag_states d)"
proof -
  obtain x where "pop_loop (age_ready now d) (dag_ready (age_ready now d)) [] = (Some task, x)" "x = d'"
    using r by (auto simp: inner_dequeue_def Let_def split: prod.splits)
  from pop_loop_chosen [OF this(1)] this(2) obtain e where e: "startable (age_ready now d) e"
    "fmlookup (dag_tasks d) (re_task_id e) = Some task" "dag_states d' = fmupd (re_task_id e) Running (dag_states d)"
    by (auto simp: chosen_def)
  have "graph_ok d" using inv by (simp add: dag_inv_def dag_inv_during_def)
  then have "td_task_id task = re_task_id e" using graph_ok_task [OF _ e(2)] by blast
  then show "fmlookup (dag_states d) (td_task_id task) = Some Ready"
    "dag_states d' = fmupd (td_task_id task) Running (dag_states d)" using e by (simp_all add: startable_def)
qed

lemma dequeue_turn:
  assumes p: "pool_inv p" and ph: "pl_phase p me = Idle"
  shows "pool_inv (worker_turn me fresh now outcome p)"
proof -
  let ?f = "inner_dequeue (w_now (pl_world p))"
  let ?s = "snd (on_dag (with_lock ?f) (pl_world p))"
  have "dag_inv (pl_dag p)" using p by (simp add: pool_inv_def)
  then have q: "pool_inv (p\<lparr>pl_world := ?s\<rparr>)"
    by (intro dag_turn [OF p]) (simp_all add: inner_dequeue_inv dequeue_taken)
  show ?thesis
  proof (cases "\<exists>task. fst (on_dag (with_lock ?f) (pl_world p)) = Ok (Some task)")
    case False
    have "phase_turn me fresh now outcome Idle (pl_world p) = (Idle, ?s)"
      using False by (auto split: prod.split sum.split option.split)
    moreover have "(pl_phase p)(me := Idle) = pl_phase p" using ph by auto
    ultimately show ?thesis using q by (simp add: worker_turn_def ph del: dag_queue_simps)
  next
    case True
    then obtain task where r: "fst (on_dag (with_lock ?f) (pl_world p)) = Ok (Some task)" ..
    then have turn: "phase_turn me fresh now outcome Idle (pl_world p) = (Dequeued task, ?s)"
      by (auto split: prod.split)
    let ?t = "td_task_id task"
    let ?q = "p\<lparr>pl_phase := (pl_phase p)(me := Dequeued task), pl_world := ?s\<rparr>"
    have np: "\<not> dag_poisoned (w_dag (pl_world p))" using r by (auto simp: on_dag_def with_lock_def)
    then have "fst (?f (pl_dag p)) = Ok (Some task)" using r by (simp add: on_dag_def with_lock_def split: prod.splits)
    then have "?f (pl_dag p) = (Ok (Some task), snd (?f (pl_dag p)))" by (simp add: prod_eq_iff)
    note d = dequeued_task [OF \<open>dag_inv (pl_dag p)\<close> this]
    have lo: "leased_ok p" and st: "started_ok p" and u: "\<And>t. fmlookup (w_leases (pl_world p)) t = None \<Longrightarrow> unleased_ok p t"
      using p by (simp_all add: pool_inv_def)
    have u': "\<And>t. fmlookup (w_leases (pl_world p)) t = None \<Longrightarrow> unleased_ok (p\<lparr>pl_world := ?s\<rparr>) t"
      using q by (simp add: pool_inv_def)
    have free: "before_lease (pl_phase p w) \<noteq> Some ?t" if "fmlookup (w_leases (pl_world p)) ?t = None" for w
      using u [OF that] d(1) unfolding unleased_ok_def taken_def by auto
    have dq: "dag_inner (w_dag ?s) = snd (?f (pl_dag p))" using np by simp
    have tk: "taken (dag_inner (w_dag ?s)) ?t" unfolding dq using d(2) by (simp add: taken_def)
    have ck: "pl_phase ?q w = Checked task' l' \<Longrightarrow> pl_phase p w = Checked task' l'"
      and af: "after_lease (pl_phase ?q w) = Some t \<Longrightarrow> after_lease (pl_phase p w) = Some t"
      and ex: "executing (pl_phase ?q w) = Some t \<Longrightarrow> executing (pl_phase p w) = Some t"
      and le: "pl_phase ?q w = Leased task' \<Longrightarrow> pl_phase p w = Leased task'"
      and be: "before_lease (pl_phase ?q w) = Some t \<Longrightarrow> before_lease (pl_phase p w) = Some t \<or> w = me \<and> t = ?t"
      for w t task' l' by (simp_all split: if_splits)
    have "leased_ok ?q" using lo ck af unfolding leased_ok_def by (simp del: not_None_eq fun_upd_apply) metis
    moreover have "started_ok ?q"
    proof -
      have "w = w'" if "executing (pl_phase ?q w) = Some t" "executing (pl_phase ?q w') = Some t" for w w' t
        using st ex [OF that(1)] ex [OF that(2)] unfolding started_ok_def by blast
      then show ?thesis using st le unfolding started_ok_def by (simp del: fun_upd_apply) blast
    qed
    moreover have "unleased_ok ?q t" if n: "fmlookup (w_leases (pl_world p)) t = None" for t
      unfolding unleased_ok_def
    proof (intro conjI allI impI)
      show "t \<notin> set (pl_started ?q)" using u [OF n] by (simp add: unleased_ok_def)
    next
      fix w assume "before_lease (pl_phase ?q w) = Some t"
      from be [OF this] show "taken (pl_dag ?q) t" using u' [OF n] tk by (auto simp: unleased_ok_def)
    next
      fix w w' assume "before_lease (pl_phase ?q w) = Some t \<and> before_lease (pl_phase ?q w') = Some t"
      then have "before_lease (pl_phase p w) = Some t \<or> w = me \<and> t = ?t"
        "before_lease (pl_phase p w') = Some t \<or> w' = me \<and> t = ?t" using be by blast+
      then show "w = w'" using u [OF n] free n unfolding unleased_ok_def by blast
    qed
    ultimately have "pool_inv ?q" using q by (simp add: pool_inv_def)
    then show ?thesis using turn by (simp add: worker_turn_def ph)
  qed
qed

text \<open>The remaining turns of a worker only go on, or give up.\<close>

lemma pool_inv_world:
  assumes p: "pool_inv p" and "w_dag s = w_dag (pl_world p)" "w_leases s = w_leases (pl_world p)"
  shows "pool_inv (p\<lparr>pl_world := s\<rparr>)"
  by (rule pool_inv_dag [OF p]) (use assms in \<open>auto simp: pool_inv_def\<close>)

lemma emitted_turn: "pool_inv p \<Longrightarrow> pool_inv (p\<lparr>pl_world := emitted e (pl_world p)\<rparr>)"
  by (rule pool_inv_world) simp_all

lemma modify_turn:
  assumes p: "pool_inv p" and f: "\<And>l. ls_task_id (f l) = ls_task_id l"
  shows "pool_inv (p\<lparr>pl_world := snd (lm_modify world_leases f t (pl_world p))\<rparr>)"
proof (cases "fmlookup (w_leases (pl_world p)) t")
  case (Some l)
  then have "lm_modify world_leases f t (pl_world p) = on_leases (mem_update (f l)) (pl_world p)"
    by (simp add: lm_modify_def try_bind_def on_leases_def mem_get_def)
  then show ?thesis using lease_write_turn [OF p, of "f l"] by simp
qed (use p in \<open>simp add: lm_modify_def try_bind_def on_leases_def mem_get_def\<close>)

lemma phase_world:
  assumes "pool_inv (p\<lparr>pl_world := s\<rparr>)"
    and "before_lease ph = None \<or> before_lease ph = before_lease (pl_phase p me)"
    and "after_lease ph = None \<or> after_lease ph = after_lease (pl_phase p me)"
    and "executing ph = None" and "\<And>task l. ph \<noteq> Checked task l"
  shows "pool_inv (p\<lparr>pl_phase := (pl_phase p)(me := ph), pl_world := s\<rparr>)"
proof -
  have "p\<lparr>pl_phase := (pl_phase p)(me := ph), pl_world := s\<rparr> = p\<lparr>pl_world := s, pl_phase := (pl_phase p)(me := ph)\<rparr>"
    by (cases p) simp
  moreover have "pool_inv (p\<lparr>pl_world := s, pl_phase := (pl_phase p)(me := ph)\<rparr>)"
    using pool_inv_phase [OF assms(1), of ph me] assms(2-) by simp
  ultimately show ?thesis by (rule ssubst)
qed

lemma worker_turn_inv:
  assumes p: "pool_inv p"
  shows "pool_inv (worker_turn me fresh now outcome p)"
proof (cases "pl_phase p me")
  case Idle
  then show ?thesis by (rule dequeue_turn [OF p])
next
  case (Refused task)
  then show ?thesis by (rule refused_turn [OF p])
next
  case (Allocated task)
  then show ?thesis by (rule check_turn [OF p])
next
  case (Checked task l)
  then show ?thesis by (rule put_turn [OF p])
next
  case (Leased task)
  then show ?thesis by (rule leased_start_turn [OF p])
next
  case (Delayed task)
  then show ?thesis by (rule delayed_turn [OF p])
next
  case (Dequeued task)
  then show ?thesis by (auto simp: worker_turn_def intro!: pool_inv_phase [OF p])
next
  case (Admitted task)
  then show ?thesis by (auto simp: worker_turn_def intro!: pool_inv_phase [OF p])
next
  case (Executing task)
  then show ?thesis
    by (auto simp: worker_turn_def intro!: pool_inv_phase [OF p] phase_world [OF emitted_turn [OF p]] split: sum.split)
next
  case (Ended task oc)
  let ?t = "td_task_id task"
  have abandon: "pool_inv (p\<lparr>pl_world := snd (lm_modify world_leases f u (emitted e (pl_world p)))\<rparr>)"
    if "\<And>l. ls_task_id (f l) = ls_task_id l" for f u e
    using modify_turn [OF emitted_turn [OF p], of f u e] that by simp
  show ?thesis using Ended
    by (auto simp: worker_turn_def Let_def lm_complete_def lm_fail_def intro!: pool_inv_phase [OF p]
        phase_world [OF emitted_turn [OF p]] phase_world [OF modify_turn [OF p]] phase_world [OF abandon]
        split: option.split RetryDecision.split)
next
  case (Announced task)
  obtain r s where s: "lm_fail world_leases (td_task_id task) (td_attempt task + 1) (pl_world p) = (r, s)" by fastforce
  have "pool_inv (p\<lparr>pl_world := snd (lm_fail world_leases (td_task_id task) (td_attempt task + 1) (pl_world p))\<rparr>)"
    unfolding lm_fail_def by (rule modify_turn [OF p]) simp
  then show ?thesis using Announced s
    by (auto simp: worker_turn_def intro!: phase_world split: sum.split)
next
  case Dead
  then show ?thesis by (auto simp: worker_turn_def intro!: pool_inv_phase [OF p])
qed

lemma pool_turn_inv: "pool_inv p \<Longrightarrow> pool_inv (pool_turn turn p)"
proof (cases turn)
  assume p: "pool_inv p"
  then have d: "dag_inv (pl_dag p)" by (simp add: pool_inv_def)
  {
    case (PtEnqueue task)
    have "pool_inv (p\<lparr>pl_world := snd (on_dag (with_lock (inner_enqueue sorted_list_of_set (w_now (pl_world p)) task)) (pl_world p))\<rparr>)"
      by (rule dag_turn [OF p]) (simp_all add: d inner_enqueue_inv hash_order_sorted enqueue_taken)
    then show ?thesis by (simp add: PtEnqueue on_world_def)
  next
    case (PtComplete t)
    have "pool_inv (p\<lparr>pl_world := snd (on_dag (with_lock (inner_complete sorted_list_of_set (w_now (pl_world p)) t)) (pl_world p))\<rparr>)"
      by (rule dag_turn [OF p]) (simp_all add: d inner_complete_inv hash_order_sorted complete_taken)
    then show ?thesis by (simp add: PtComplete on_world_def)
  next
    case (PtFail t)
    have "pool_inv (p\<lparr>pl_world := snd (on_dag (with_lock (inner_fail sorted_list_of_set t)) (pl_world p))\<rparr>)"
      by (rule dag_turn [OF p]) (simp_all add: d inner_fail_inv fail_taken)
    then show ?thesis by (simp add: PtFail on_world_def)
  next
    case (PtDiscard t)
    have "pool_inv (p\<lparr>pl_world := snd (on_dag (with_lock (inner_discard sorted_list_of_set t)) (pl_world p))\<rparr>)"
      by (rule dag_turn [OF p]) (simp_all add: d inner_fail_inv fail_taken inner_discard_def)
    then show ?thesis by (simp add: PtDiscard on_world_def)
  }
qed (simp_all add: on_world_def worker_turn_inv expire_turn reap_turn lease_write_turn pool_inv_world
    del: pool_turn.simps(3,4))

lemma pool_start_inv:
  assumes "dag_reachable (dag_inner (w_dag s))" "w_leases s = fmempty"
  shows "pool_inv (pool_start s)"
  using assms by (simp add: pool_inv_defs pool_start_def dag_reachable_inv keyed_def)

lemma pool_turns_inv: "pool_inv p \<Longrightarrow> pool_inv (fold pool_turn turns p)"
  by (induction turns arbitrary: p) (simp_all add: pool_turn_inv)

text \<open>
  C13: any number of workers may take turns in any order, with the test and the insertion of the
  lease store apart, among expiring leases, stale lease writes, the reaper, cancellations and the
  scheduler's clients: the executor is called at most once for each task, only for a task that has
  a lease from then on, and never by two workers at a time. So no requeued task runs again,
  whatever its retry policy.
\<close>

theorem executed_at_most_once:
  assumes "dag_reachable (dag_inner (w_dag s))" and "w_leases s = fmempty"
    and "p = fold pool_turn turns (pool_start s)"
  shows "distinct (pl_started p)
    \<and> (\<forall>t \<in> set (pl_started p). fmlookup (w_leases (pl_world p)) t \<noteq> None)
    \<and> (\<forall>w w' task task'. pl_phase p w = Executing task \<and> pl_phase p w' = Executing task'
        \<and> td_task_id task = td_task_id task' \<longrightarrow> w = w')"
proof -
  have p: "pool_inv p" unfolding assms(3) by (rule pool_turns_inv [OF pool_start_inv [OF assms(1,2)]])
  then have "distinct (pl_started p)"
    and one: "\<And>w w' t. executing (pl_phase p w) = Some t \<Longrightarrow> executing (pl_phase p w') = Some t \<Longrightarrow> w = w'"
    and "\<And>t. fmlookup (w_leases (pl_world p)) t = None \<Longrightarrow> t \<notin> set (pl_started p)"
    unfolding pool_inv_defs by blast+
  moreover have "w = w'" if "pl_phase p w = Executing task" "pl_phase p w' = Executing task'"
      "td_task_id task = td_task_id task'" for w w' task task'
    by (rule one [of w "td_task_id task"]) (simp_all add: that)
  ultimately show ?thesis by blast
qed

text \<open>
  Two workers and one task: the lease of the first expires while it runs, the reaper requeues the
  task, the second worker dequeues it and is refused.
\<close>

definition example_pool_world :: World where
  "example_pool_world = \<lparr>w_dag = \<lparr>dag_inner = example_enqueued, dag_poisoned = False\<rparr>, w_leases = fmempty,
     w_fake = fake_new, w_now = 7\<rparr>"

definition first_turns :: "PoolTurn list" where
  "first_turns = (let w = PtWorker (WorkerId 1) (LeaseId 1) 0 (Ok Success) in [w, w, w, w, w, w])"

definition later_turns :: "PoolTurn list" where
  "later_turns = (let w = PtWorker (WorkerId 2) (LeaseId 2) 9 (Ok Success) in
     [PtExpire ((example_lease (TaskId 1) (WorkerId 1) 0)\<lparr>ls_state := Expired\<rparr>), PtReap, w, w, w, w])"

lemma example_scheduler_dequeue: "inner_dequeue 7 example_enqueued = (Ok (Some example_first), example_started)"
  by (simp add: example_defs dag_eval fmupd_swap_12)

lemma example_scheduler_requeue:
  "\<exists>d d'. inner_requeue 7 (TaskId 1) 1 example_started = (Ok (), d)
     \<and> inner_dequeue 7 d = (Ok (Some (example_first\<lparr>td_attempt := 1\<rparr>)), d')"
  by (simp add: example_defs dag_eval fmupd_swap_12 inner_requeue_def)

definition example_leased_pool :: Pool where
  "example_leased_pool = \<lparr>pl_world = \<lparr>w_dag = \<lparr>dag_inner = example_started, dag_poisoned = False\<rparr>,
       w_leases = fmupd (TaskId 1) (lease_new (LeaseId 1) 0 (TaskId 1) (WorkerId 1) (from_secs 30) 0) fmempty,
       w_fake = fake_new\<lparr>fake_events := [EvAcquired (TaskId 1) (WorkerId 1) 0]\<rparr>, w_now = 7\<rparr>,
     pl_phase = (\<lambda>_. Idle)(WorkerId 1 := Executing example_first), pl_reaping = [], pl_started = [TaskId 1]\<rparr>"

lemma example_first_simps [simp]:
  "td_task_id example_first = TaskId 1" "td_attempt example_first = 0" "td_resources example_first = default_allocation"
  by (simp_all add: example_first_def example_task_def)

lemma emitted_eq: "emitted e s = s\<lparr>w_fake := (w_fake s)\<lparr>fake_events := fake_events (w_fake s) @ [e]\<rparr>\<rparr>"
  by (simp add: emitted_def on_fake_def fake_emit_event_def)

lemmas pool_eval = worker_turn_def on_dag_def with_lock_def example_scheduler_dequeue Let_def insert_check_def insert_put_def
  fake_new_def emitted_eq example_leased_pool_def pool_start_def

lemma example_first_turns: "fold pool_turn first_turns (pool_start example_pool_world) = example_leased_pool"
  by (simp add: first_turns_def example_pool_world_def pool_eval lease_new_def)

lemma example_later_turns:
  "pl_started (fold pool_turn later_turns example_leased_pool) = [TaskId 1]
   \<and> pl_phase (fold pool_turn later_turns example_leased_pool) (WorkerId 2) = Idle"
proof -
  from example_scheduler_requeue obtain d d' where d: "inner_requeue 7 (TaskId 1) 1 example_started = (Ok (), d)"
    "inner_dequeue 7 d = (Ok (Some (example_first\<lparr>td_attempt := 1\<rparr>)), d')" by blast
  show ?thesis
    by (simp add: later_turns_def pool_eval d lease_new_def example_lease_def on_world_def on_leases_def mem_update_def)
qed

theorem executed_at_most_once_witness:
  "\<exists>p. p = fold pool_turn (first_turns @ later_turns) (pool_start example_pool_world)
    \<and> distinct (pl_started p) \<and> pl_started p = [TaskId 1] \<and> pl_phase p (WorkerId 2) = Idle"
proof -
  let ?p = "fold pool_turn (first_turns @ later_turns) (pool_start example_pool_world)"
  have "distinct (pl_started ?p)"
    using executed_at_most_once [of example_pool_world ?p "first_turns @ later_turns"]
    by (simp add: example_pool_world_def example_reachable)
  then show ?thesis using example_later_turns by (intro exI [of _ ?p]) (simp add: example_first_turns)
qed

end
