(* ===== verification/CoordinatorServer.thy ===== *)
theory CoordinatorServer
  imports CoordinatorProperties
begin

text \<open>
  The running coordinator: \<open>serve\<close> of \<open>crates/coordinator/src/server.rs\<close> with the tasks it spawns (one
  per connection, the reaper, the health monitor of \<open>ssh_health.rs\<close>) taking turns, and the settings
  and health answers of \<open>main.rs\<close>. A turn is what happens between two awaits of one task: one frame
  of a connection, one round of the reaper, the list of nodes or one probe of the monitor.
\<close>

subsection \<open>The health monitor\<close>

record SocketAddr =
  sa_ip :: string
  sa_port :: u16

text \<open>What connecting to an address within a time comes to.\<close>

datatype Dial = Connected | Refused string | Unanswered

record TcpProbe =
  tp_timeout :: duration

definition tcp_probe :: "(duration \<Rightarrow> string \<Rightarrow> Dial) \<Rightarrow> TcpProbe \<Rightarrow> string \<Rightarrow> u16 \<Rightarrow> string + unit" where
  "tcp_probe dial p hostname port =
     (case dial (tp_timeout p) (hostname @ '':'' @ nat_text (unat port)) of
        Connected \<Rightarrow> Ok ()
      | Refused e \<Rightarrow> Err (''connection failed: '' @ e)
      | Unanswered \<Rightarrow> Err ''probe timeout'')"

record SshHealthMonitor =
  hm_probe :: TcpProbe
  hm_interval :: duration
  hm_port :: u16

definition monitor_new :: "TcpProbe \<Rightarrow> duration \<Rightarrow> u16 \<Rightarrow> SshHealthMonitor" where
  "monitor_new p interval port = \<lparr>hm_probe = p, hm_interval = interval, hm_port = port\<rparr>"

subsection \<open>The server\<close>

text \<open>
  \<open>sv_probing\<close> are the nodes of the current round of the monitor that are not probed yet; a
  connection that has ended is \<open>None\<close>.
\<close>

record Server =
  sv_state :: CoordinatorState
  sv_addr :: SocketAddr
  sv_connections :: "Connection option list"
  sv_probing :: "NodeInfo list"

definition server_new :: "CoordinatorState \<Rightarrow> SocketAddr \<Rightarrow> Server" where
  "server_new s addr = \<lparr>sv_state = s, sv_addr = addr, sv_connections = [], sv_probing = []\<rparr>"

definition reaper_timeout :: duration where
  "reaper_timeout = from_secs 60"

definition server_monitor :: "Server \<Rightarrow> SshHealthMonitor" where
  "server_monitor srv = monitor_new \<lparr>tp_timeout = from_secs 5\<rparr> (from_secs 30) (sa_port (sv_addr srv))"

datatype ServerTurn =
    SvAccept Stream
  | SvArrive nat "u8 list"
  | SvConnection nat Env
  | SvReaper Env
  | SvRound Env
  | SvProbe "duration \<Rightarrow> string \<Rightarrow> Dial"

definition connection_at :: "Server \<Rightarrow> nat \<Rightarrow> Connection option" where
  "connection_at srv n = (if n < length (sv_connections srv) then sv_connections srv ! n else None)"

fun server_turn :: "(CoordinatorResponse \<Rightarrow> string + u8 list) \<Rightarrow> (u8 list \<Rightarrow> string + CoordinatorRequest)
    \<Rightarrow> ServerTurn \<Rightarrow> Server \<Rightarrow> Server" where
  "server_turn ser de (SvAccept stream) srv =
     srv\<lparr>sv_connections := sv_connections srv @ [Some \<lparr>cn_stream = stream, cn_registered = None\<rparr>]\<rparr>"
| "server_turn ser de (SvArrive n bytes) srv =
     (case connection_at srv n of
        None \<Rightarrow> srv
      | Some c \<Rightarrow> srv\<lparr>sv_connections := (sv_connections srv)
          [n := Some (c\<lparr>cn_stream := (cn_stream c)\<lparr>incoming := incoming (cn_stream c) @ bytes\<rparr>\<rparr>)]\<rparr>)"
| "server_turn ser de (SvConnection n env) srv =
     (case connection_at srv n of
        None \<Rightarrow> srv
      | Some c \<Rightarrow>
          (case connection_turn env ser de (c, sv_state srv) of
             (None, c', s) \<Rightarrow> srv\<lparr>sv_state := s, sv_connections := (sv_connections srv)[n := Some c']\<rparr>
           | (Some _, _, s) \<Rightarrow> srv\<lparr>sv_state := s, sv_connections := (sv_connections srv)[n := None]\<rparr>))"
| "server_turn ser de (SvReaper env) srv = srv\<lparr>sv_state := node_reaper_tick env reaper_timeout (sv_state srv)\<rparr>"
| "server_turn ser de (SvRound env) srv =
     (if sv_probing srv = [] then srv\<lparr>sv_probing := all_nodes (env_node_order env) (co_registry (sv_state srv))\<rparr> else srv)"
| "server_turn ser de (SvProbe dial) srv =
     (case sv_probing srv of
        [] \<Rightarrow> srv
      | info # rest \<Rightarrow>
          let m = server_monitor srv;
              r = probe_node (\<lambda>hostname. tcp_probe dial (hm_probe m) hostname (hm_port m)) info (co_registry (sv_state srv))
          in srv\<lparr>sv_probing := rest, sv_state := (sv_state srv)\<lparr>co_registry := r\<rparr>\<rparr>)"

subsection \<open>The program\<close>

text \<open>
  \<open>main\<close> reads the two addresses from the environment and starts the server on the first and the
  health routes on the second; \<open>parse\<close> is the standard library's reading of an address.
\<close>

datatype HealthAnswer = Json "(string \<times> string) list" | Plain string

definition address_setting :: "(string \<Rightarrow> string option) \<Rightarrow> (string \<Rightarrow> string + SocketAddr) \<Rightarrow> string \<Rightarrow> string
    \<Rightarrow> string + SocketAddr" where
  "address_setting env parse name fallback =
     parse (case env name of None \<Rightarrow> fallback | Some value \<Rightarrow> value)"

definition coordinator_main :: "(string \<Rightarrow> string option) \<Rightarrow> (string \<Rightarrow> string + SocketAddr) \<Rightarrow> string + (Server \<times> SocketAddr)" where
  "coordinator_main env parse =
     (case address_setting env parse ''COORDINATOR_ADDR'' ''0.0.0.0:4000'' of
        Inl e \<Rightarrow> Err e
      | Inr addr \<Rightarrow>
          (case address_setting env parse ''HEALTH_ADDR'' ''0.0.0.0:8080'' of
             Inl e \<Rightarrow> Err e
           | Inr health \<Rightarrow> Ok (server_new coordinator_new addr, health)))"

definition health_route :: "string \<Rightarrow> HealthAnswer option" where
  "health_route path =
     (if path = ''/health'' then Some (Json [(''status'', ''ok''), (''service'', ''knitting-crab-coordinator'')])
      else if path = ''/healthz'' then Some (Plain ''OK'')
      else if path = ''/readyz'' then Some (Plain ''OK'')
      else None)"

text \<open>The server that \<open>main\<close> starts probes every node at the port it listens on itself.\<close>

lemma main_probes_own_port:
  "coordinator_main env parse = Ok (srv, health) \<Longrightarrow>
   hm_port (server_monitor srv) = sa_port (sv_addr srv) \<and> coord_reachable (sv_state srv) \<and> sv_probing srv = []"
  by (auto simp: coordinator_main_def server_new_def server_monitor_def monitor_new_def coord_reachable.start
      split: sum.splits)

subsection \<open>The turns and the steps of the shared state\<close>

text \<open>What a turn of a connection leaves of the shared state.\<close>

definition connection_state :: "Env \<Rightarrow> (u8 list \<Rightarrow> string + CoordinatorRequest) \<Rightarrow> Connection \<Rightarrow> CoordinatorState
    \<Rightarrow> CoordinatorState" where
  "connection_state env de c s =
     (case fst (recv_message de (cn_stream c)) of
        Inr (Some req) \<Rightarrow> snd (snd (handle_request env req (cn_registered c, s)))
      | _ \<Rightarrow> deregister (cn_registered c) s)"

lemma connection_turn_state: "snd (snd (connection_turn env ser de (c, s))) = connection_state env de c s"
  by (auto simp: connection_turn_def connection_state_def split: prod.split sum.split option.split)

lemma server_connection_state:
  "sv_state (server_turn ser de (SvConnection n env) srv) =
     (case connection_at srv n of None \<Rightarrow> sv_state srv | Some c \<Rightarrow> connection_state env de c (sv_state srv))"
  using connection_turn_state [of env ser de]
  by (auto split: prod.split option.split) (metis snd_conv)+

text \<open>Every turn is a step of the coordinator's state, or leaves it.\<close>

lemma connection_state_step: "coord_step s (connection_state env de c s)"
proof (cases "fst (recv_message de (cn_stream c))")
  case (Inr m)
  show ?thesis
  proof (cases m)
    case (Some req)
    obtain resp reg s' where "handle_request env req (cn_registered c, s) = (resp, reg, s')"
      by (cases "handle_request env req (cn_registered c, s)")
    then show ?thesis using coord_step.request [of env req "cn_registered c" s resp reg s'] Inr Some
      by (simp add: connection_state_def)
  qed (simp add: connection_state_def Inr coord_step.disconnect)
qed (simp add: connection_state_def coord_step.disconnect)

lemma server_turn_step:
  "sv_state (server_turn ser de turn srv) = sv_state srv \<or> coord_step (sv_state srv) (sv_state (server_turn ser de turn srv))"
proof (cases turn)
  case (SvConnection n env)
  then show ?thesis unfolding SvConnection server_connection_state
    by (simp add: connection_state_step split: option.split)
next
  case (SvReaper env)
  then show ?thesis by (simp add: coord_step.reaper)
next
  case (SvProbe dial)
  then show ?thesis by (auto simp: Let_def coord_step.probe split: list.split)
qed (simp_all split: option.split)

lemma server_turn_ok: "coordinator_ok (sv_state srv) \<Longrightarrow> coordinator_ok (sv_state (server_turn ser de turn srv))"
  using server_turn_step [of ser de turn srv] coord_step_ok by metis

subsection \<open>A node that cannot be probed\<close>

text \<open>
  The turns that do nothing for worker \<open>w\<close> on host \<open>h\<close>: no connection registers it, and nothing
  accepts connections on its host at the port that is probed. Hash collections are listed completely.
\<close>

definition registers :: "(u8 list \<Rightarrow> string + CoordinatorRequest) \<Rightarrow> WorkerId \<Rightarrow> Connection \<Rightarrow> bool" where
  "registers de w c = (case fst (recv_message de (cn_stream c)) of
     Inr (Some (RegisterNode v hostname capacity production)) \<Rightarrow> v = w | _ \<Rightarrow> False)"

definition in_vain :: "(u8 list \<Rightarrow> string + CoordinatorRequest) \<Rightarrow> WorkerId \<Rightarrow> string \<Rightarrow> Server \<Rightarrow> ServerTurn \<Rightarrow> bool" where
  "in_vain de w h srv turn =
     (case turn of
        SvConnection n env \<Rightarrow> (case connection_at srv n of None \<Rightarrow> True | Some c \<Rightarrow> \<not> registers de w c)
      | SvReaper env \<Rightarrow> hash_order (env_node_order env)
      | SvRound env \<Rightarrow> hash_order (env_node_order env)
      | SvProbe dial \<Rightarrow> dial (from_secs 5) (h @ '':'' @ nat_text (unat (sa_port (sv_addr srv)))) \<noteq> Connected
      | _ \<Rightarrow> True)"

definition probes :: "WorkerId \<Rightarrow> Server \<Rightarrow> ServerTurn \<Rightarrow> bool" where
  "probes w srv turn = (case turn of SvProbe dial \<Rightarrow>
     (case sv_probing srv of [] \<Rightarrow> False | info # rest \<Rightarrow> ni_worker_id info = w) | _ \<Rightarrow> False)"

primrec all_in_vain :: "(CoordinatorResponse \<Rightarrow> string + u8 list) \<Rightarrow> (u8 list \<Rightarrow> string + CoordinatorRequest)
    \<Rightarrow> WorkerId \<Rightarrow> string \<Rightarrow> ServerTurn list \<Rightarrow> Server \<Rightarrow> bool" where
  "all_in_vain ser de w h [] srv = True"
| "all_in_vain ser de w h (turn # turns) srv =
     (in_vain de w h srv turn \<and> all_in_vain ser de w h turns (server_turn ser de turn srv))"

primrec probe_count :: "(CoordinatorResponse \<Rightarrow> string + u8 list) \<Rightarrow> (u8 list \<Rightarrow> string + CoordinatorRequest)
    \<Rightarrow> WorkerId \<Rightarrow> ServerTurn list \<Rightarrow> Server \<Rightarrow> nat" where
  "probe_count ser de w [] srv = 0"
| "probe_count ser de w (turn # turns) srv =
     (if probes w srv turn then 1 else 0) + probe_count ser de w turns (server_turn ser de turn srv)"

text \<open>After \<open>k\<close> probes the worker is gone, or has failed at least \<open>k\<close> times (counting up to three).\<close>

definition failing :: "WorkerId \<Rightarrow> string \<Rightarrow> nat \<Rightarrow> Server \<Rightarrow> bool" where
  "failing w h k srv \<longleftrightarrow> coordinator_ok (sv_state srv)
     \<and> (\<forall>i \<in> set (sv_probing srv). ni_worker_id i = w \<longrightarrow> ni_hostname i = h)
     \<and> (\<forall>i. fmlookup (nr_nodes (co_registry (sv_state srv))) w = Some i \<longrightarrow>
          ni_hostname i = h \<and> min k 3 \<le> unat (probe_failures_of w (co_registry (sv_state srv))))"

lemma failing_cong:
  assumes "failing w h k srv" and "coordinator_ok (sv_state srv')"
    and "\<forall>i \<in> set (sv_probing srv'). ni_worker_id i = w \<longrightarrow> ni_hostname i = h"
    and "fmlookup (nr_nodes (co_registry (sv_state srv'))) w = None
      \<or> fmlookup (nr_nodes (co_registry (sv_state srv'))) w = fmlookup (nr_nodes (co_registry (sv_state srv))) w
        \<and> probe_failures_of w (co_registry (sv_state srv')) = probe_failures_of w (co_registry (sv_state srv))"
  shows "failing w h k srv'"
  using assms by (auto simp: failing_def)

lemma deregister_registry:
  "fmlookup (nr_nodes (co_registry (deregister reg s))) w = None
   \<or> fmlookup (nr_nodes (co_registry (deregister reg s))) w = fmlookup (nr_nodes (co_registry s)) w
     \<and> probe_failures_of w (co_registry (deregister reg s)) = probe_failures_of w (co_registry s)"
  by (cases reg) (auto simp: deregister_def forget_node_def registry_remove_def probe_failures_of_def)

lemma request_registry:
  assumes "\<And>hostname capacity production. req \<noteq> RegisterNode w hostname capacity production"
  shows "fmlookup (nr_nodes (co_registry (snd (snd (handle_request env req (reg, s)))))) w
      = fmlookup (nr_nodes (co_registry s)) w
    \<and> probe_failures_of w (co_registry (snd (snd (handle_request env req (reg, s)))))
      = probe_failures_of w (co_registry s)"
proof (cases req)
  case (RegisterNode v hostname capacity production)
  then show ?thesis using assms by (auto simp: registry_register_def Let_def probe_failures_of_def)
qed (auto simp only: handle_request_state, auto simp: registry_heartbeat_def probe_failures_of_def split: option.splits)

lemma connection_registry:
  assumes "\<not> registers de w c"
  shows "fmlookup (nr_nodes (co_registry (connection_state env de c s))) w = None
   \<or> fmlookup (nr_nodes (co_registry (connection_state env de c s))) w = fmlookup (nr_nodes (co_registry s)) w
     \<and> probe_failures_of w (co_registry (connection_state env de c s)) = probe_failures_of w (co_registry s)"
proof (cases "\<exists>req. fst (recv_message de (cn_stream c)) = Ok (Some req)")
  case True
  then obtain req where req: "fst (recv_message de (cn_stream c)) = Ok (Some req)" ..
  then have "req \<noteq> RegisterNode w hostname capacity production" for hostname capacity production
    using assms by (auto simp: registers_def)
  from request_registry [OF this] show ?thesis by (simp add: connection_state_def req)
next
  case False
  then have "connection_state env de c s = deregister (cn_registered c) s"
    by (auto simp: connection_state_def split: sum.split option.split)
  then show ?thesis using deregister_registry [of "cn_registered c" s w] by simp
qed

lemma reaper_registry:
  "fmlookup (nr_nodes (co_registry (node_reaper_tick env timeout s))) w = None
   \<or> fmlookup (nr_nodes (co_registry (node_reaper_tick env timeout s))) w = fmlookup (nr_nodes (co_registry s)) w
     \<and> probe_failures_of w (co_registry (node_reaper_tick env timeout s)) = probe_failures_of w (co_registry s)"
  by (auto simp: node_reaper_tick_def Let_def reap_nodes_registry fold_remove_lookup probe_failures_of_def)

lemma failed_probe:
  assumes "dial (from_secs 5) (ni_hostname i @ '':'' @ nat_text (unat (sa_port (sv_addr srv)))) \<noteq> Connected"
  shows "probe_node (\<lambda>hostname. tcp_probe dial (hm_probe (server_monitor srv)) hostname (hm_port (server_monitor srv))) i r
    = record_probe_failure (ni_worker_id i) r"
  using assms by (auto simp: probe_node_def tcp_probe_def server_monitor_def monitor_new_def split: Dial.splits)

lemma failure_counts:
  "probe_failures_of w (record_probe_failure v r) = (if v = w then saturating_add (probe_failures_of w r) 1 else probe_failures_of w r)"
  "nr_nodes (record_probe_failure v r) = nr_nodes r"
  by (simp_all add: record_probe_failure_def probe_failures_of_def)

lemma other_probe:
  "ni_worker_id i \<noteq> w \<Longrightarrow> probe_failures_of w (probe_node probe i r) = probe_failures_of w r"
  by (simp add: probe_node_def record_probe_failure_def record_probe_success_def probe_failures_of_def split: sum.split)

lemma all_nodes_keyed:
  "registry_ok r \<Longrightarrow> hash_order ord \<Longrightarrow> i \<in> set (all_nodes ord r) \<Longrightarrow>
   fmlookup (nr_nodes r) (ni_worker_id i) = Some i"
  by (auto simp: all_nodes_def registry_ok_def finite_fmdom' fmdom'_lookup)

lemma failing_turn:
  assumes f: "failing w h k srv" and v: "in_vain de w h srv turn"
  shows "failing w h (k + (if probes w srv turn then 1 else 0)) (server_turn ser de turn srv)"
proof -
  have ok: "coordinator_ok (sv_state (server_turn ser de turn srv))"
    by (rule server_turn_ok) (use f in \<open>simp add: failing_def\<close>)
  have pr: "\<forall>i \<in> set (sv_probing srv). ni_worker_id i = w \<longrightarrow> ni_hostname i = h" using f by (simp add: failing_def)
  show ?thesis
  proof (cases turn)
    case (SvAccept st)
    then show ?thesis using f by (simp add: probes_def failing_def)
  next
    case (SvArrive n bs)
    then show ?thesis using f by (simp add: probes_def failing_def split: option.split)
  next
    case (SvConnection n env)
    have "failing w h k (server_turn ser de turn srv)"
    proof (rule failing_cong [OF f ok])
      show "\<forall>i \<in> set (sv_probing (server_turn ser de turn srv)). ni_worker_id i = w \<longrightarrow> ni_hostname i = h"
        using pr SvConnection by (simp split: option.split prod.split)
      show "fmlookup (nr_nodes (co_registry (sv_state (server_turn ser de turn srv)))) w = None
        \<or> fmlookup (nr_nodes (co_registry (sv_state (server_turn ser de turn srv)))) w
            = fmlookup (nr_nodes (co_registry (sv_state srv))) w
          \<and> probe_failures_of w (co_registry (sv_state (server_turn ser de turn srv)))
            = probe_failures_of w (co_registry (sv_state srv))"
      proof (cases "connection_at srv n")
        case (Some c)
        then have "\<not> registers de w c" using v by (simp add: in_vain_def SvConnection)
        from connection_registry [OF this, of env "sv_state srv"] show ?thesis
          unfolding SvConnection server_connection_state by (simp add: Some)
      qed (simp add: SvConnection)
    qed
    then show ?thesis by (simp add: SvConnection probes_def)
  next
    case (SvReaper env)
    have "failing w h k (server_turn ser de turn srv)"
      by (rule failing_cong [OF f ok]) (use pr reaper_registry in \<open>simp_all add: SvReaper\<close>)
    then show ?thesis by (simp add: SvReaper probes_def)
  next
    case (SvRound env)
    have "registry_ok (co_registry (sv_state srv))" using f by (simp add: failing_def coordinator_ok_def)
    moreover have "hash_order (env_node_order env)" using v SvRound by (simp add: in_vain_def)
    ultimately have "ni_hostname i = h"
      if "i \<in> set (all_nodes (env_node_order env) (co_registry (sv_state srv)))" "ni_worker_id i = w" for i
      using all_nodes_keyed [of "co_registry (sv_state srv)" "env_node_order env" i] that f by (simp add: failing_def)
    then show ?thesis using f SvRound by (simp add: failing_def probes_def)
  next
    case (SvProbe dial)
    show ?thesis
    proof (cases "sv_probing srv")
      case Nil
      then show ?thesis using f by (simp add: SvProbe probes_def)
    next
      case (Cons i rest)
      let ?r = "co_registry (sv_state srv)" and ?srv = "server_turn ser de turn srv"
      have rest: "\<forall>i \<in> set (sv_probing ?srv). ni_worker_id i = w \<longrightarrow> ni_hostname i = h"
        using pr Cons by (simp add: SvProbe Let_def)
      show ?thesis
      proof (cases "ni_worker_id i = w")
        case False
        have "failing w h k ?srv"
          by (rule failing_cong [OF f ok rest]) (use False Cons in \<open>simp add: SvProbe Let_def other_probe probe_node_frame\<close>)
        then show ?thesis using False Cons by (simp add: SvProbe probes_def)
      next
        case True
        then have "dial (from_secs 5) (ni_hostname i @ '':'' @ nat_text (unat (sa_port (sv_addr srv)))) \<noteq> Connected"
          using pr v Cons by (simp add: in_vain_def SvProbe)
        from failed_probe [of dial i srv ?r, OF this]
        have r: "co_registry (sv_state ?srv) = record_probe_failure w ?r" using True Cons by (simp add: SvProbe Let_def)
        have "min (Suc k) 3 \<le> unat (saturating_add (probe_failures_of w ?r) 1)"
          if "min k 3 \<le> unat (probe_failures_of w ?r)"
          using that by (auto simp: unat_saturating_add min_def split: if_splits)
        then have "failing w h (Suc k) ?srv" using f ok rest by (simp add: failing_def r failure_counts)
        then show ?thesis using True Cons by (simp add: SvProbe probes_def)
      qed
    qed
  qed
qed

lemma failing_turns:
  "failing w h k srv \<Longrightarrow> all_in_vain ser de w h turns srv \<Longrightarrow>
   failing w h (k + probe_count ser de w turns srv) (fold (server_turn ser de) turns srv)"
proof (induction turns arbitrary: k srv)
  case (Cons turn turns)
  have "failing w h (k + (if probes w srv turn then 1 else 0)) (server_turn ser de turn srv)"
    by (rule failing_turn) (use Cons.prems in auto)
  from Cons.IH [OF this] Cons.prems(2) show ?case by (simp add: add.assoc)
qed simp

lemma gone_turn:
  assumes g: "fmlookup (nr_nodes (co_registry (sv_state srv))) w = None" and v: "in_vain de w h srv turn"
  shows "fmlookup (nr_nodes (co_registry (sv_state (server_turn ser de turn srv)))) w = None"
proof (cases turn)
  case (SvConnection n env)
  show ?thesis
  proof (cases "connection_at srv n")
    case (Some c)
    then have "\<not> registers de w c" using v by (simp add: in_vain_def SvConnection)
    from connection_registry [OF this, of env "sv_state srv"] g show ?thesis
      unfolding SvConnection server_connection_state by (auto simp: Some)
  qed (simp add: SvConnection g)
next
  case (SvReaper env)
  then show ?thesis using reaper_registry [of env reaper_timeout "sv_state srv" w] g by auto
next
  case (SvProbe dial)
  then show ?thesis using g by (simp add: Let_def probe_node_frame split: list.split)
qed (simp_all add: g split: option.split)

lemma gone_turns:
  "fmlookup (nr_nodes (co_registry (sv_state srv))) w = None \<Longrightarrow> all_in_vain ser de w h turns srv \<Longrightarrow>
   fmlookup (nr_nodes (co_registry (sv_state (fold (server_turn ser de) turns srv)))) w = None"
proof (induction turns arbitrary: srv)
  case (Cons turn turns)
  have "fmlookup (nr_nodes (co_registry (sv_state (server_turn ser de turn srv)))) w = None"
    by (rule gone_turn [of _ _ de h]) (use Cons.prems in simp_all)
  from Cons.IH [OF this] Cons.prems(2) show ?case by simp
qed simp

lemma all_in_vain_append:
  "all_in_vain ser de w h (turns @ turns') srv \<longleftrightarrow>
   all_in_vain ser de w h turns srv \<and> all_in_vain ser de w h turns' (fold (server_turn ser de) turns srv)"
  by (induction turns arbitrary: srv) simp_all

lemma server_turns_ok:
  "coordinator_ok (sv_state srv) \<Longrightarrow> coordinator_ok (sv_state (fold (server_turn ser de) turns srv))"
  by (induction turns arbitrary: srv) (simp_all add: server_turn_ok)

text \<open>
  C31: \<open>serve\<close> probes every node at the port that the coordinator itself listens on, where a worker
  node does not listen. If nothing else accepts connections there on a node's host, then after three
  probes the next round of the reaper forgets the node, however recent its heartbeats, whatever the
  connections and the other tasks of the server do in between. From then on, unless it registers
  again, it is not registered, its announcements are refused and no cache query returns it.
\<close>

theorem unprobeable_node_forgotten:
  assumes "coord_reachable (sv_state srv)" and "sv_probing srv = []"
    and "get_node_info w (co_registry (sv_state srv)) = Some info"
    and "all_in_vain ser de w (ni_hostname info) (turns @ SvReaper env # later) srv"
    and "3 \<le> probe_count ser de w turns srv"
    and "s = sv_state (fold (server_turn ser de) (turns @ SvReaper env # later) srv)"
  shows "get_node_info w (co_registry s) = None
    \<and> handle_request env' (AnnounceCache key path) (Some w, s) = (RError ''node not found'', Some w, s)
    \<and> (\<forall>l \<in> set (index_query key (co_cache s)). cl_worker_id l \<noteq> w)"
proof -
  let ?mid = "fold (server_turn ser de) turns srv"
  have ok: "coordinator_ok (sv_state srv)" by (rule coord_reachable_ok [OF assms(1)])
  have v: "all_in_vain ser de w (ni_hostname info) turns srv" "in_vain de w (ni_hostname info) ?mid (SvReaper env)"
    "all_in_vain ser de w (ni_hostname info) later (server_turn ser de (SvReaper env) ?mid)"
    using assms(4) by (simp_all add: all_in_vain_append)
  have "failing w (ni_hostname info) 0 srv" using assms(2,3) ok by (simp add: failing_def get_node_info_def)
  from failing_turns [OF this v(1)] have f: "failing w (ni_hostname info) (probe_count ser de w turns srv) ?mid" by simp
  have order: "hash_order (env_node_order env)" using v(2) by (simp add: in_vain_def)
  have "fmlookup (nr_nodes (co_registry (sv_state (server_turn ser de (SvReaper env) ?mid)))) w = None"
  proof (cases "fmlookup (nr_nodes (co_registry (sv_state ?mid))) w")
    case None
    then show ?thesis by (rule gone_turn [OF _ v(2)])
  next
    case (Some i)
    then have "3 \<le> unat (probe_failures_of w (co_registry (sv_state ?mid)))" using f assms(5) by (simp add: failing_def)
    then have "UNHEALTHY_THRESHOLD \<le> probe_failures_of w (co_registry (sv_state ?mid))"
      by (simp add: word_le_nat_alt UNHEALTHY_THRESHOLD_def)
    then have "health_status w (co_registry (sv_state ?mid)) = Unhealthy" by (simp add: health_status_def Let_def)
    then show ?thesis using reaper_tick_nodes [OF order, of w reaper_timeout "sv_state ?mid"] by (simp add: get_node_info_def)
  qed
  from gone_turns [OF this v(3)] have none: "fmlookup (nr_nodes (co_registry s)) w = None" by (simp add: assms(6))
  have "coordinator_ok s" unfolding assms(6) by (rule server_turns_ok [OF ok])
  then have "\<forall>l \<in> set (index_query key (co_cache s)). cl_worker_id l \<noteq> w"
    using none by (fastforce simp: coordinator_ok_def cache_ok_def index_query_def)
  then show ?thesis using none by (simp add: get_node_info_def)
qed

text \<open>Three rounds and a heartbeat in between, with a refused connection each.\<close>

definition refuse :: "duration \<Rightarrow> string \<Rightarrow> Dial" where
  "refuse time addr = Refused ''connection refused''"

definition example_server :: Server where
  "example_server = (server_new example_announced \<lparr>sa_ip = ''0.0.0.0'', sa_port = 4000\<rparr>)\<lparr>sv_connections :=
     [Some \<lparr>cn_stream = idle_stream\<lparr>incoming := frame [2]\<rparr>, cn_registered = Some (WorkerId 1)\<rparr>]\<rparr>"

definition example_rounds :: "ServerTurn list" where
  "example_rounds = [SvRound (example_env 30), SvProbe refuse, SvRound (example_env 60), SvProbe refuse,
     SvRound (example_env 90), SvConnection 0 (example_env 91), SvProbe refuse]"

lemma worker_order_single: "worker_order {WorkerId 1} = [WorkerId 1]"
  by (simp add: worker_order_def)

lemma recv_heartbeat:
  "recv_message byte_request (idle_stream\<lparr>incoming := frame [2]\<rparr>) = (Ok (Some (NodeHeartbeat (WorkerId 1))), idle_stream\<lparr>incoming := []\<rparr>)"
  using recv_frame [of "idle_stream\<lparr>incoming := frame [2]\<rparr>" "[2]" "[]" byte_request]
  by (simp add: byte_request_def MAX_MESSAGE_BYTES_def)

lemmas recv_heartbeat' = recv_heartbeat [unfolded idle_stream_def, simplified]

lemmas server_eval = example_rounds_def example_server_def server_new_def example_announced_def example_register_def
  example_env_def coordinator_new_def registry_new_def registry_register_def registry_heartbeat_def Let_def get_node_info_def
  index_announce_def index_entries_def all_nodes_def worker_order_single probe_node_def tcp_probe_def refuse_def
  record_probe_failure_def connection_at_def recv_heartbeat' server_monitor_def monitor_new_def

lemma example_rounds_run:
  "all_in_vain (\<lambda>_. Ok [0]) byte_request (WorkerId 1) ''node'' (example_rounds @ [SvReaper (example_env 92)]) example_server
   \<and> probe_count (\<lambda>_. Ok [0]) byte_request (WorkerId 1) example_rounds example_server = 3"
  by (simp add: server_eval in_vain_def probes_def hash_order_worker_order registers_def connection_turn_def
      send_message_def write_all_def idle_stream_def MAX_MESSAGE_BYTES_def)

theorem unprobeable_node_forgotten_witness:
  "get_node_info (WorkerId 1) (co_registry (sv_state example_server)) \<noteq> None
   \<and> get_node_info (WorkerId 1) (co_registry (sv_state (fold (server_turn (\<lambda>_. Ok [0]) byte_request)
       (example_rounds @ [SvReaper (example_env 92)]) example_server))) = None"
proof -
  obtain info where info: "get_node_info (WorkerId 1) (co_registry (sv_state example_server)) = Some info"
    "ni_hostname info = ''node''" by (simp add: server_eval)
  have "coord_reachable (sv_state example_server)" "sv_probing example_server = []"
    using announced_reachable by (simp_all add: example_server_def server_new_def)
  from unprobeable_node_forgotten [OF this info(1), of "\<lambda>_. Ok [0]" byte_request example_rounds "example_env 92" "[]"]
  show ?thesis using example_rounds_run info by simp
qed

end
