(* ===== verification/CoordinatorThreads.thy ===== *)
theory CoordinatorThreads
  imports CoordinatorProperties "HOL-Library.List_Lexorder" "HOL-Library.Char_ord"
begin

text \<open>
  The coordinator's threads at the grain of \<open>server.rs\<close>, \<open>node_registry.rs\<close>, \<open>cache_index.rs\<close> and
  \<open>lease_manager.rs\<close>: the connections, the reaper and the health monitor share maps of which only
  a single access is atomic, so a request of several accesses, the removal of a node and the eviction of its
  locations are interleaved with everything else. \<open>handle_request\<close>, \<open>forget_node\<close> and
  \<open>node_reaper_tick\<close> are what they come to when nothing else runs in between. Listing a map (the stale
  nodes, the active leases, the nodes to probe) is one access here, as is dropping the empty entries of the cache
  index, although the code locks one shard of the map after the other.
\<close>

subsection \<open>Requests, access by access\<close>

text \<open>
  What a handler does next: its first access, or one of those that may follow it; then it
  holds its answer.
\<close>

datatype Work =
    Begun
  | RegisterSeen WorkerId
  | RegisterFailures WorkerId
  | InsertPut Lease
  | UpdatePut Lease
  | AnnouncePut string CacheIndexEntry
  | Answered CoordinatorResponse

text \<open>Requests that are not listed make one access, or none.\<close>

fun first_access :: "Env \<Rightarrow> CoordinatorRequest \<Rightarrow> WorkerId option \<times> CoordinatorState
    \<Rightarrow> Work \<times> WorkerId option \<times> CoordinatorState" where
  "first_access env (RegisterNode w hostname capacity is_production) (reg, s) =
     (RegisterSeen w, Some w, s\<lparr>co_registry := (co_registry s)\<lparr>nr_nodes := fmupd w
        \<lparr>ni_worker_id = w, ni_hostname = hostname, ni_capacity = capacity, ni_registered_at = env_utc env,
         ni_is_production = is_production\<rparr> (nr_nodes (co_registry s))\<rparr>\<rparr>)"
| "first_access env (InsertLease lease) (reg, s) =
     (if insert_check lease (co_leases s) then (InsertPut lease, reg, s) else (Answered (RError ''already leased''), reg, s))"
| "first_access env (UpdateLease lease) (reg, s) =
     (if fmlookup (co_leases s) (ls_task_id lease) = None
      then (Answered (error_response env ''update lease failed: '' LeaseNotFound), reg, s)
      else (UpdatePut lease, reg, s))"
| "first_access env (AnnounceCache key path) (reg, s) =
     (case reg of
        None \<Rightarrow> (Answered (RError ''not registered''), reg, s)
      | Some w \<Rightarrow>
          (case get_node_info w (co_registry s) of
             None \<Rightarrow> (Answered (RError ''node not found''), reg, s)
           | Some info \<Rightarrow> (AnnouncePut key
               \<lparr>ce_worker_id = ni_worker_id info, ce_hostname = ni_hostname info, ce_path = path\<rparr>, reg, s)))"
| "first_access env req x = (case handle_request env req x of (resp, x') \<Rightarrow> (Answered resp, x'))"

fun handler_access :: "Env \<Rightarrow> CoordinatorRequest \<Rightarrow> Work \<Rightarrow> WorkerId option \<times> CoordinatorState
    \<Rightarrow> Work \<times> WorkerId option \<times> CoordinatorState" where
  "handler_access env req Begun x = first_access env req x"
| "handler_access env req (RegisterSeen w) (reg, s) =
     (RegisterFailures w, reg, s\<lparr>co_registry := registry_heartbeat (env_now env) w (co_registry s)\<rparr>)"
| "handler_access env req (RegisterFailures w) (reg, s) =
     (Answered ROk, reg, s\<lparr>co_registry := record_probe_success w (co_registry s)\<rparr>)"
| "handler_access env req (InsertPut lease) (reg, s) = (Answered ROk, reg, s\<lparr>co_leases := insert_put lease (co_leases s)\<rparr>)"
| "handler_access env req (UpdatePut lease) (reg, s) = (Answered ROk, reg, s\<lparr>co_leases := insert_put lease (co_leases s)\<rparr>)"
| "handler_access env req (AnnouncePut key e) (reg, s) = (Answered ROk, reg, s\<lparr>co_cache := index_announce key e (co_cache s)\<rparr>)"
| "handler_access env req (Answered resp) x = (Answered resp, x)"

text \<open>With nothing in between, the accesses of a request come to what the handler does.\<close>

lemma handler_alone:
  assumes "handle_request env req x = (resp, x')"
  shows "((\<lambda>(work, x). handler_access env req work x) ^^ 3) (Begun, x) = (Answered resp, x')"
proof -
  obtain reg s where x: "x = (reg, s)" by (cases x)
  show ?thesis
    using assms unfolding x
    by (cases req) (auto simp: numeral_3_eq_3 registry_register_def registry_heartbeat_def record_probe_success_def Let_def
        on_store_def mem_insert_halves mem_update_def insert_put_def respond_def split: prod.splits option.splits sum.splits if_splits)
qed

subsection \<open>Forgetting a node, access by access\<close>

text \<open>
  \<open>NodeRegistry::remove\<close> and then \<open>CacheIndex::evict_node\<close>. The eviction visits the keys one by
  one: those that are there when it starts, and possibly some that are added meanwhile; \<open>visit\<close>
  lists them. At the end it removes the empty entries.
\<close>

datatype Forgetting = RemoveNode | RemoveSeen | RemoveFailures | EvictStart | EvictKeys "string list"

definition evict_key :: "WorkerId \<Rightarrow> string \<Rightarrow> CacheIndex \<Rightarrow> CacheIndex" where
  "evict_key w k ix = (case fmlookup ix k of None \<Rightarrow> ix | Some es \<Rightarrow> fmupd k (filter (\<lambda>e. ce_worker_id e \<noteq> w) es) ix)"

definition drop_empty :: "CacheIndex \<Rightarrow> CacheIndex" where
  "drop_empty ix = fmfilter (\<lambda>k. fmlookup ix k \<noteq> Some []) ix"

fun forget_access :: "(string set \<Rightarrow> string list) \<Rightarrow> WorkerId \<Rightarrow> Forgetting \<Rightarrow> CoordinatorState
    \<Rightarrow> Forgetting option \<times> CoordinatorState" where
  "forget_access visit w RemoveNode s =
     (Some RemoveSeen, s\<lparr>co_registry := (co_registry s)\<lparr>nr_nodes := fmdrop w (nr_nodes (co_registry s))\<rparr>\<rparr>)"
| "forget_access visit w RemoveSeen s =
     (Some RemoveFailures, s\<lparr>co_registry := (co_registry s)\<lparr>nr_last_seen := fmdrop w (nr_last_seen (co_registry s))\<rparr>\<rparr>)"
| "forget_access visit w RemoveFailures s =
     (Some EvictStart, s\<lparr>co_registry := (co_registry s)\<lparr>nr_probe_failures := fmdrop w (nr_probe_failures (co_registry s))\<rparr>\<rparr>)"
| "forget_access visit w EvictStart s = (Some (EvictKeys (visit (fmdom' (co_cache s)))), s)"
| "forget_access visit w (EvictKeys (k # ks)) s = (Some (EvictKeys ks), s\<lparr>co_cache := evict_key w k (co_cache s)\<rparr>)"
| "forget_access visit w (EvictKeys []) s = (None, s\<lparr>co_cache := drop_empty (co_cache s)\<rparr>)"

lemma evict_keys_lookup:
  "fmlookup (fold (evict_key w) ks ix) k =
    map_option (\<lambda>es. if k \<in> set ks then filter (\<lambda>e. ce_worker_id e \<noteq> w) es else es) (fmlookup ix k)"
proof (induction ks arbitrary: ix)
  case (Cons a ks)
  then show ?case by (cases "fmlookup ix k"; cases "fmlookup ix a") (auto simp: evict_key_def)
qed (simp add: option.map_ident)

lemma evict_alone:
  assumes "fmdom' ix \<subseteq> set ks"
  shows "drop_empty (fold (evict_key w) ks ix) = evict_node w ix"
proof (rule fmap_ext)
  fix k
  have "k \<in> set ks" if "fmlookup ix k = Some es" for es using assms that by (auto simp: fmdom'_lookup)
  then show "fmlookup (drop_empty (fold (evict_key w) ks ix)) k = fmlookup (evict_node w ix) k"
    by (cases "fmlookup ix k") (auto simp: drop_empty_def evict_node_def Let_def evict_keys_lookup)
qed

lemma forget_alone:
  fixes visit w
  defines "next \<equiv> \<lambda>(f, s). case f of None \<Rightarrow> (None, s) | Some f \<Rightarrow> forget_access visit w f s"
  assumes "fmdom' (co_cache s) \<subseteq> set (visit (fmdom' (co_cache s)))"
  shows "(next ^^ Suc (length (visit (fmdom' (co_cache s))) + 4)) (Some RemoveNode, s) = (None, forget_node w s)"
proof -
  have keys: "(next ^^ Suc (length ks)) (Some (EvictKeys ks), t)
      = (None, t\<lparr>co_cache := drop_empty (fold (evict_key w) ks (co_cache t))\<rparr>)" for ks t
    by (induction ks arbitrary: t) (simp_all add: next_def funpow_swap1)
  let ?r = "registry_remove w (co_registry s)" and ?ks = "visit (fmdom' (co_cache s))"
  have "(next ^^ 4) (Some RemoveNode, s) = (Some (EvictKeys ?ks), s\<lparr>co_registry := ?r\<rparr>)"
    by (simp add: next_def eval_nat_numeral registry_remove_def)
  moreover have "(next ^^ Suc (length ?ks + 4)) x = (next ^^ Suc (length ?ks)) ((next ^^ 4) x)" for x
    using funpow_add [of "Suc (length ?ks)" 4 "next"] by simp
  ultimately show ?thesis using keys [of ?ks "s\<lparr>co_registry := ?r\<rparr>"] evict_alone [OF assms(2)]
    by (simp add: forget_node_def del: funpow.simps)
qed

subsection \<open>The threads\<close>

text \<open>
  A connection waits for a request, serves one, forgets the worker it has registered, or has ended.
\<close>

datatype Activity = Waiting | Serving CoordinatorRequest Work | Leaving WorkerId Forgetting | Ended

record Thread =
  th_registered :: "WorkerId option"
  th_activity :: Activity

text \<open>
  The reaper works through the stale nodes and then the unhealthy ones; the flag tells that the
  unhealthy ones are still to come. For each node it goes through the leases that were active, then
  forgets the node.
\<close>

datatype Reaping =
    Resting
  | Nodes bool "WorkerId list"
  | Leases bool WorkerId "Lease list" "WorkerId list"
  | Forget bool WorkerId Forgetting "WorkerId list"

fun reaper_access :: "Env \<Rightarrow> (string set \<Rightarrow> string list) \<Rightarrow> duration \<Rightarrow> Reaping \<Rightarrow> CoordinatorState \<Rightarrow> Reaping \<times> CoordinatorState" where
  "reaper_access env visit timeout Resting s =
     (Nodes True (stale_nodes (env_node_order env) (env_now env) timeout (co_registry s)), s)"
| "reaper_access env visit timeout (Nodes True []) s =
     (Nodes False (unhealthy_nodes (env_node_order env) (co_registry s)), s)"
| "reaper_access env visit timeout (Nodes False []) s = (Resting, s)"
| "reaper_access env visit timeout (Nodes flag (w # ws)) s =
     (case on_store (mem_active (env_lease_order env)) s of
        (Inr leases, s') \<Rightarrow> (Leases flag w leases ws, s')
      | (Inl _, s') \<Rightarrow> (Forget flag w RemoveNode ws, s'))"
| "reaper_access env visit timeout (Leases flag w [] ws) s = (Forget flag w RemoveNode ws, s)"
| "reaper_access env visit timeout (Leases flag w (l # ls) ws) s =
     (Leases flag w ls ws,
      if ls_worker_id l = w then snd (on_queue (stub_requeue (ls_task_id l) (ls_attempt l + 1)) s) else s)"
| "reaper_access env visit timeout (Forget flag w f ws) s =
     (case forget_access visit w f s of
        (Some f', s') \<Rightarrow> (Forget flag w f' ws, s')
      | (None, s') \<Rightarrow> (Nodes flag ws, s'))"

text \<open>
  The monitor's probes: the nodes of the round that are left, and a failure that has been read
  and not written back yet.
\<close>

record Threads =
  ts_state :: CoordinatorState
  ts_connections :: "Thread list"
  ts_reaper :: Reaping
  ts_probing :: "NodeInfo list"
  ts_failure :: "(WorkerId \<times> u32) option"

definition threads_new :: "CoordinatorState \<Rightarrow> Threads" where
  "threads_new s = \<lparr>ts_state = s, ts_connections = [], ts_reaper = Resting, ts_probing = [], ts_failure = None\<rparr>"

definition probe_access :: "Env \<Rightarrow> (string \<Rightarrow> string + unit) \<Rightarrow> Threads \<Rightarrow> Threads" where
  "probe_access env probe th =
     (let s = ts_state th; r = co_registry s in
      case ts_failure th of
        Some (w, n) \<Rightarrow> th\<lparr>ts_failure := None,
          ts_state := s\<lparr>co_registry := r\<lparr>nr_probe_failures := fmupd w (saturating_add n 1) (nr_probe_failures r)\<rparr>\<rparr>\<rparr>
      | None \<Rightarrow>
          (case ts_probing th of
             [] \<Rightarrow> th\<lparr>ts_probing := all_nodes (env_node_order env) r\<rparr>
           | info # rest \<Rightarrow>
               (case probe (ni_hostname info) of
                  Inr _ \<Rightarrow> th\<lparr>ts_probing := rest, ts_state := s\<lparr>co_registry := record_probe_success (ni_worker_id info) r\<rparr>\<rparr>
                | Inl _ \<Rightarrow> th\<lparr>ts_probing := rest, ts_failure := Some (ni_worker_id info, probe_failures_of (ni_worker_id info) r)\<rparr>)))"

text \<open>
  One step of one thread. \<open>TtAccess\<close> is the next access of a connection; \<open>TtSend\<close> writes its
  answer, which may fail and then ends it at once; \<open>TtClose\<close> is the end of its stream, or an error in reading
  from it.
\<close>

datatype ThreadTurn =
    TtAccept
  | TtReceive nat CoordinatorRequest
  | TtAccess nat Env "string set \<Rightarrow> string list"
  | TtSend nat bool
  | TtClose nat
  | TtReaper Env "string set \<Rightarrow> string list" duration
  | TtProbe Env "string \<Rightarrow> string + unit"
  | TtSubmit TaskDescriptor

definition thread_at :: "Threads \<Rightarrow> nat \<Rightarrow> Thread option" where
  "thread_at th n = (if n < length (ts_connections th) then Some (ts_connections th ! n) else None)"

definition set_thread :: "nat \<Rightarrow> Thread \<Rightarrow> Threads \<Rightarrow> Threads" where
  "set_thread n c th = th\<lparr>ts_connections := (ts_connections th)[n := c]\<rparr>"

definition connection_access :: "Env \<Rightarrow> (string set \<Rightarrow> string list) \<Rightarrow> Thread \<Rightarrow> CoordinatorState \<Rightarrow> Thread \<times> CoordinatorState" where
  "connection_access env visit c s =
     (case th_activity c of
        Serving req work \<Rightarrow>
          (case handler_access env req work (th_registered c, s) of
             (work', reg, s') \<Rightarrow> (\<lparr>th_registered = reg, th_activity = Serving req work'\<rparr>, s'))
      | Leaving w f \<Rightarrow>
          (case forget_access visit w f s of
             (Some f', s') \<Rightarrow> (c\<lparr>th_activity := Leaving w f'\<rparr>, s')
           | (None, s') \<Rightarrow> (c\<lparr>th_activity := Ended\<rparr>, s'))
      | _ \<Rightarrow> (c, s))"

definition on_thread :: "nat \<Rightarrow> (Thread \<Rightarrow> Thread) \<Rightarrow> Threads \<Rightarrow> Threads" where
  "on_thread n f th = (case thread_at th n of None \<Rightarrow> th | Some c \<Rightarrow> set_thread n (f c) th)"

primrec thread_turn :: "ThreadTurn \<Rightarrow> Threads \<Rightarrow> Threads" where
  "thread_turn TtAccept th =
     th\<lparr>ts_connections := ts_connections th @ [\<lparr>th_registered = None, th_activity = Waiting\<rparr>]\<rparr>"
| "thread_turn (TtReceive n req) th =
     on_thread n (\<lambda>c. if th_activity c = Waiting then c\<lparr>th_activity := Serving req Begun\<rparr> else c) th"
| "thread_turn (TtAccess n env visit) th =
     (case thread_at th n of
        None \<Rightarrow> th
      | Some c \<Rightarrow> (case connection_access env visit c (ts_state th) of (c', s) \<Rightarrow> set_thread n c' (th\<lparr>ts_state := s\<rparr>)))"
| "thread_turn (TtSend n sent) th =
     on_thread n (\<lambda>c. case th_activity c of
        Serving req (Answered resp) \<Rightarrow> c\<lparr>th_activity := (if sent then Waiting else Ended)\<rparr> | _ \<Rightarrow> c) th"
| "thread_turn (TtClose n) th =
     on_thread n (\<lambda>c. if th_activity c = Waiting
        then c\<lparr>th_activity := (case th_registered c of None \<Rightarrow> Ended | Some w \<Rightarrow> Leaving w RemoveNode)\<rparr> else c) th"
| "thread_turn (TtReaper env visit timeout) th =
     (case reaper_access env visit timeout (ts_reaper th) (ts_state th) of (r, s) \<Rightarrow> th\<lparr>ts_reaper := r, ts_state := s\<rparr>)"
| "thread_turn (TtProbe env probe) th = probe_access env probe th"
| "thread_turn (TtSubmit task) th = th\<lparr>ts_state := snd (on_queue (stub_enqueue task) (ts_state th))\<rparr>"

subsection \<open>Leases\<close>

lemma thread_at_set [simp]:
  "thread_at (set_thread n c th) m = (if n = m \<and> m < length (ts_connections th) then Some c else thread_at th m)"
  by (simp add: thread_at_def set_thread_def)

lemma set_thread_state [simp]: "ts_state (set_thread n c th) = ts_state th"
  by (simp add: set_thread_def)

lemma thread_at_update [simp]:
  "thread_at (th\<lparr>ts_state := s\<rparr>) m = thread_at th m" "thread_at (th\<lparr>ts_reaper := r\<rparr>) m = thread_at th m"
  "thread_at (th\<lparr>ts_probing := ps\<rparr>) m = thread_at th m" "thread_at (th\<lparr>ts_failure := x\<rparr>) m = thread_at th m"
  by (simp_all add: thread_at_def)

lemma thread_at_length: "thread_at th n = Some c \<Longrightarrow> n < length (ts_connections th)"
  by (simp add: thread_at_def split: if_splits)

lemma on_thread_state [simp]: "ts_state (on_thread n f th) = ts_state th"
  by (simp add: on_thread_def split: option.split)

lemma thread_at_on_thread [simp]:
  "thread_at (on_thread n f th) m = (if n = m then map_option f (thread_at th m) else thread_at th m)"
  by (auto simp: on_thread_def split: option.split dest: thread_at_length)

lemma probe_access_frame [simp]:
  "thread_at (probe_access env probe th) m = thread_at th m" "co_leases (ts_state (probe_access env probe th)) = co_leases (ts_state th)"
  "co_cache (ts_state (probe_access env probe th)) = co_cache (ts_state th)"
  "nr_nodes (co_registry (ts_state (probe_access env probe th))) = nr_nodes (co_registry (ts_state th))"
  "ts_reaper (probe_access env probe th) = ts_reaper th"
  by (auto simp: probe_access_def Let_def record_probe_success_def split: option.split list.split sum.split)

text \<open>What a turn does to the connections.\<close>

definition thread_step :: "ThreadTurn \<Rightarrow> nat \<Rightarrow> CoordinatorState \<Rightarrow> Thread \<Rightarrow> Thread" where
  "thread_step turn m s c =
     (case turn of
        TtReceive n req \<Rightarrow> if n = m \<and> th_activity c = Waiting then c\<lparr>th_activity := Serving req Begun\<rparr> else c
      | TtAccess n env visit \<Rightarrow> if n = m then fst (connection_access env visit c s) else c
      | TtSend n sent \<Rightarrow> if n = m then (case th_activity c of
            Serving req (Answered resp) \<Rightarrow> c\<lparr>th_activity := (if sent then Waiting else Ended)\<rparr> | _ \<Rightarrow> c) else c
      | TtClose n \<Rightarrow> if n = m \<and> th_activity c = Waiting
          then c\<lparr>th_activity := (case th_registered c of None \<Rightarrow> Ended | Some w \<Rightarrow> Leaving w RemoveNode)\<rparr> else c
      | _ \<Rightarrow> c)"

lemma thread_at_turn:
  "thread_at th m = Some c \<Longrightarrow> thread_at (thread_turn turn th) m = Some (thread_step turn m (ts_state th) c)"
  by (cases turn) (auto simp: thread_step_def thread_at_def [of "th\<lparr>ts_connections := ts_connections th @ x\<rparr>" for x]
      thread_at_def [of th] nth_append split: if_splits prod.split option.split)

lemma thread_at_turn_new:
  "thread_at (thread_turn turn th) m = Some c \<Longrightarrow> thread_at th m = None \<Longrightarrow> c = \<lparr>th_registered = None, th_activity = Waiting\<rparr>"
  by (cases turn) (auto simp: thread_at_def [of "th\<lparr>ts_connections := ts_connections th @ x\<rparr>" for x]
      thread_at_def [of th] nth_append split: if_splits prod.splits option.splits)

lemma handler_not_begun: "fst (handler_access env req work x) \<noteq> Begun"
  by (cases work; cases x; cases req) (auto split: prod.split option.split)

lemma handler_access_leases:
  assumes "fmlookup (co_leases s) t \<noteq> None" and "\<not> (req = RemoveLease t \<and> work = Begun)"
  shows "fmlookup (co_leases (snd (snd (handler_access env req work (reg, s))))) t \<noteq> None"
proof (cases work)
  case Begun
  then show ?thesis using assms handle_request_leases [OF assms(1), of req env reg]
    by (cases req) (auto split: prod.split option.split simp del: handle_request.simps)
qed (use assms in \<open>auto simp: insert_put_def\<close>)

lemma forget_access_leases: "forget_access visit w f s = (f', s') \<Longrightarrow> co_leases s' = co_leases s"
  by (induction visit w f s rule: forget_access.induct) auto

lemma reaper_access_leases: "reaper_access env visit timeout r s = (r', s') \<Longrightarrow> co_leases s' = co_leases s"
  by (induction env visit timeout r s rule: reaper_access.induct)
    (auto simp: on_store_def mem_active_def dest: forget_access_leases split: prod.splits option.splits if_splits)

lemma connection_access_state:
  "snd (connection_access env visit c s) = (case th_activity c of
     Serving req work \<Rightarrow> snd (snd (handler_access env req work (th_registered c, s)))
   | Leaving w f \<Rightarrow> snd (forget_access visit w f s)
   | _ \<Rightarrow> s)"
  by (simp add: connection_access_def split: Activity.split prod.split option.split)

lemma access_state:
  "ts_state (thread_turn (TtAccess n env visit) th) =
    (case thread_at th n of None \<Rightarrow> ts_state th | Some c \<Rightarrow> snd (connection_access env visit c (ts_state th)))"
  by (simp split: prod.split option.split)

text \<open>Nobody is about to remove the lease of a task.\<close>

definition no_removal :: "TaskId \<Rightarrow> Threads \<Rightarrow> bool" where
  "no_removal t th \<longleftrightarrow> (\<forall>n c. thread_at th n = Some c \<longrightarrow> th_activity c \<noteq> Serving (RemoveLease t) Begun)"

definition asks_removal :: "TaskId \<Rightarrow> ThreadTurn \<Rightarrow> bool" where
  "asks_removal t turn \<longleftrightarrow> (\<exists>n. turn = TtReceive n (RemoveLease t))"

definition lease_held :: "TaskId \<Rightarrow> Threads \<Rightarrow> bool" where
  "lease_held t th \<longleftrightarrow> fmlookup (co_leases (ts_state th)) t \<noteq> None"

lemma connection_access_activity:
  "th_activity (fst (connection_access env visit c s)) = Serving req Begun \<Longrightarrow> False"
  using handler_not_begun [of env]
  by (auto simp: connection_access_def split: Activity.splits prod.splits option.splits) (metis fst_conv)+

lemma no_removal_turn: "no_removal t th \<Longrightarrow> \<not> asks_removal t turn \<Longrightarrow> no_removal t (thread_turn turn th)"
  unfolding no_removal_def
proof (intro allI impI notI)
  fix n c
  assume nr: "\<forall>n c. thread_at th n = Some c \<longrightarrow> th_activity c \<noteq> Serving (RemoveLease t) Begun" and na: "\<not> asks_removal t turn"
    and c: "thread_at (thread_turn turn th) n = Some c" and bad: "th_activity c = Serving (RemoveLease t) Begun"
  show False
  proof (cases "thread_at th n")
    case None
    then show False using thread_at_turn_new [OF c] bad by simp
  next
    case (Some c0)
    then have "c = thread_step turn n (ts_state th) c0" using thread_at_turn [OF Some, of turn] c by simp
    then show False using nr na Some bad connection_access_activity
      by (auto simp: thread_step_def asks_removal_def split: ThreadTurn.splits if_splits Activity.splits Work.splits option.splits)
  qed
qed

lemma lease_held_turn:
  assumes held: "lease_held t th" and nr: "no_removal t th"
  shows "lease_held t (thread_turn turn th)"
proof (cases turn)
  case (TtAccess n env visit)
  show ?thesis
  proof (cases "thread_at th n")
    case (Some c)
    then have "th_activity c \<noteq> Serving (RemoveLease t) Begun" using nr by (auto simp: no_removal_def)
    then show ?thesis
      using held handler_access_leases [of "ts_state th" t _ _ env "th_registered c"]
        forget_access_leases [OF surjective_pairing, of visit _ _ "ts_state th"] Some
      unfolding TtAccess lease_held_def access_state
      by (cases "th_activity c") (auto simp: connection_access_state)
  qed (use TtAccess held in simp)
next
  case (TtReaper env visit timeout)
  then show ?thesis using held reaper_access_leases [of env visit timeout "ts_reaper th" "ts_state th"]
    by (auto simp: lease_held_def split: prod.split)
qed (use held in \<open>simp_all add: lease_held_def\<close>)

lemma lease_held_turns:
  "lease_held t th \<Longrightarrow> no_removal t th \<Longrightarrow> list_all (\<lambda>turn. \<not> asks_removal t turn) turns \<Longrightarrow>
    lease_held t (fold thread_turn turns th) \<and> no_removal t (fold thread_turn turns th)"
  by (induction turns arbitrary: th) (simp_all add: lease_held_turn no_removal_turn)

definition activity_at :: "Threads \<Rightarrow> nat \<Rightarrow> Activity option" where
  "activity_at th n = map_option th_activity (thread_at th n)"

text \<open>A connection that has asked for the lease of a task that is leased.\<close>

definition turned_down :: "nat \<Rightarrow> Lease \<Rightarrow> Threads \<Rightarrow> bool" where
  "turned_down m l th \<longleftrightarrow> activity_at th m = Some (Serving (InsertLease l) Begun)
     \<or> activity_at th m = Some (Serving (InsertLease l) (Answered (RError ''already leased'')))"

lemma turned_down_turn:
  assumes "turned_down m l th" and "lease_held (ls_task_id l) th" and "\<And>sent. turn \<noteq> TtSend m sent"
  shows "turned_down m l (thread_turn turn th)"
proof -
  obtain c where c: "thread_at th m = Some c" and a: "th_activity c = Serving (InsertLease l) Begun
      \<or> th_activity c = Serving (InsertLease l) (Answered (RError ''already leased''))"
    using assms(1) by (auto simp: turned_down_def activity_at_def)
  have "\<not> insert_check l (co_leases (ts_state th))" using assms(2) by (simp add: lease_held_def insert_check_def)
  then show ?thesis
    using a assms(3) thread_at_turn [OF c, of turn]
    by (auto simp: turned_down_def activity_at_def thread_step_def connection_access_def split: ThreadTurn.split)
qed

lemma turned_down_turns:
  "turned_down m l th \<Longrightarrow> lease_held (ls_task_id l) th \<Longrightarrow> no_removal (ls_task_id l) th \<Longrightarrow>
    list_all (\<lambda>turn. \<not> asks_removal (ls_task_id l) turn \<and> (\<forall>sent. turn \<noteq> TtSend m sent)) turns \<Longrightarrow>
    turned_down m l (fold thread_turn turns th)"
  by (induction turns arbitrary: th) (simp_all add: turned_down_turn lease_held_turn no_removal_turn)

text \<open>
  C28: from the access by which the coordinator grants a lease for a task on, it refuses every lease
  for the task that is asked for later, from any connection, however the accesses of all requests,
  of the reaper and of the health probes are interleaved, as long as nobody removes the lease.
\<close>

theorem lease_exclusive_across_nodes:
  assumes "activity_at th n = Some (Serving (InsertLease lease) (InsertPut lease))"
    and "ls_task_id lease' = ls_task_id lease"
    and "no_removal (ls_task_id lease) th" and "list_all (\<lambda>turn. \<not> asks_removal (ls_task_id lease) turn) (turns @ turns')"
    and "th1 = fold thread_turn turns (thread_turn (TtAccess n env visit) th)" and "activity_at th1 m = Some Waiting"
    and "list_all (\<lambda>turn. \<forall>sent. turn \<noteq> TtSend m sent) turns'"
    and "th2 = fold thread_turn turns' (thread_turn (TtReceive m (InsertLease lease')) th1)"
    and "activity_at th2 m = Some (Serving req (Answered resp))"
  shows "req = InsertLease lease' \<and> resp = RError ''already leased''"
proof -
  let ?t = "ls_task_id lease"
  obtain c where c: "thread_at th n = Some c" "th_activity c = Serving (InsertLease lease) (InsertPut lease)"
    using assms(1) by (auto simp: activity_at_def)
  have "lease_held ?t (thread_turn (TtAccess n env visit) th)"
    unfolding lease_held_def access_state using c by (simp add: connection_access_state insert_put_def)
  moreover have "no_removal ?t (thread_turn (TtAccess n env visit) th)"
    by (rule no_removal_turn [OF assms(3)]) (simp add: asks_removal_def)
  ultimately have th1: "lease_held ?t th1 \<and> no_removal ?t th1"
    using lease_held_turns [of ?t _ turns] assms(4,5) by simp
  let ?th = "thread_turn (TtReceive m (InsertLease lease')) th1"
  have "turned_down m lease' ?th" using assms(6) by (auto simp: turned_down_def activity_at_def)
  moreover have "lease_held ?t ?th" using th1 by (simp add: lease_held_def)
  moreover have "no_removal ?t ?th" by (rule no_removal_turn) (use th1 in \<open>simp_all add: asks_removal_def\<close>)
  ultimately have "turned_down m lease' th2"
    using turned_down_turns [of m lease' ?th turns'] assms(2,4,7,8) by (simp add: list_all_iff)
  then show ?thesis using assms(9) by (auto simp: turned_down_def)
qed

text \<open>
  C29: two requests for a lease of the same task that overlap are both granted: when both have
  looked before either has written, both nodes are told that they hold the lease, and the first one's
  lease is gone.
\<close>

theorem overlapping_leases_both_granted:
  assumes "activity_at th n = Some Waiting" and "activity_at th m = Some Waiting" and "n \<noteq> m"
    and "fmlookup (co_leases (ts_state th)) t = None" and "ls_task_id lease = t" and "ls_task_id lease' = t"
    and "th' = fold thread_turn [TtReceive n (InsertLease lease), TtReceive m (InsertLease lease'), TtAccess n env visit,
        TtAccess m env visit, TtAccess n env visit, TtAccess m env visit] th"
  shows "activity_at th' n = Some (Serving (InsertLease lease) (Answered ROk))
    \<and> activity_at th' m = Some (Serving (InsertLease lease') (Answered ROk))
    \<and> fmlookup (co_leases (ts_state th')) t = Some lease'"
proof -
  obtain c d where cd: "thread_at th n = Some c" "th_activity c = Waiting" "thread_at th m = Some d" "th_activity d = Waiting"
    using assms(1,2) by (auto simp: activity_at_def)
  have run: "thread_at (thread_turn turn th) k = Some (thread_step turn k (ts_state th) x)" if "thread_at th k = Some x" for th turn k x
    using thread_at_turn [OF that] .
  show ?thesis
    unfolding assms(7)
    using cd assms(3-6)
    by (simp add: activity_at_def run thread_step_def access_state connection_access_def insert_check_def insert_put_def
        del: thread_turn.simps(3))
qed

subsection \<open>Cache locations\<close>

definition registered :: "WorkerId \<Rightarrow> CoordinatorState \<Rightarrow> bool" where
  "registered w s \<longleftrightarrow> get_node_info w (co_registry s) \<noteq> None"

text \<open>
  The thread that is forgetting a worker, a connection or the reaper, has removed it from the
  registry and has not visited the key yet.
\<close>

definition still_evicts :: "string \<Rightarrow> Forgetting \<Rightarrow> bool" where
  "still_evicts k f \<longleftrightarrow> (case f of RemoveNode \<Rightarrow> False | EvictKeys ks \<Rightarrow> k \<in> set ks | _ \<Rightarrow> True)"

definition forgetting :: "WorkerId \<Rightarrow> string \<Rightarrow> Threads \<Rightarrow> bool" where
  "forgetting w k th \<longleftrightarrow> (\<exists>n f. activity_at th n = Some (Leaving w f) \<and> still_evicts k f)
     \<or> (\<exists>flag f ws. ts_reaper th = Forget flag w f ws \<and> still_evicts k f)"

text \<open>A connection has looked up the worker and has not announced its location yet.\<close>

definition announcing :: "WorkerId \<Rightarrow> Threads \<Rightarrow> bool" where
  "announcing w th \<longleftrightarrow> (\<exists>n req key e. activity_at th n = Some (Serving req (AnnouncePut key e)) \<and> ce_worker_id e = w)"

text \<open>The turn removes the worker from the registry.\<close>

definition removes_node :: "WorkerId \<Rightarrow> ThreadTurn \<Rightarrow> Threads \<Rightarrow> bool" where
  "removes_node w turn th \<longleftrightarrow>
     (\<exists>n env visit. turn = TtAccess n env visit \<and> activity_at th n = Some (Leaving w RemoveNode))
     \<or> (\<exists>env visit timeout flag ws. turn = TtReaper env visit timeout \<and> ts_reaper th = Forget flag w RemoveNode ws)"

text \<open>The runs in which no removal comes between the two halves of an announcement for that worker.\<close>

definition calm_turn :: "ThreadTurn \<Rightarrow> Threads \<Rightarrow> bool" where
  "calm_turn turn th \<longleftrightarrow> (\<forall>w. removes_node w turn th \<longrightarrow> \<not> announcing w th)
     \<and> (case turn of TtAccess n env visit \<Rightarrow> \<forall>S. finite S \<longrightarrow> S \<subseteq> set (visit S)
        | TtReaper env visit timeout \<Rightarrow> \<forall>S. finite S \<longrightarrow> S \<subseteq> set (visit S) | _ \<Rightarrow> True)"

inductive calmly_reachable :: "Threads \<Rightarrow> bool" where
  start: "calmly_reachable (threads_new coordinator_new)"
| turn: "calmly_reachable th \<Longrightarrow> calm_turn turn th \<Longrightarrow> calmly_reachable (thread_turn turn th)"

definition locations_ok :: "Threads \<Rightarrow> bool" where
  "locations_ok th \<longleftrightarrow>
     (\<forall>w i. fmlookup (nr_nodes (co_registry (ts_state th))) w = Some i \<longrightarrow> ni_worker_id i = w)
     \<and> (\<forall>k. \<forall>e \<in> set (index_entries (co_cache (ts_state th)) k).
          registered (ce_worker_id e) (ts_state th) \<or> forgetting (ce_worker_id e) k th)
     \<and> (\<forall>w. announcing w th \<longrightarrow> registered w (ts_state th))"

lemma activity_at_update [simp]:
  "thread_at th n \<noteq> None \<Longrightarrow>
    activity_at (set_thread n c th) m = (if n = m then Some (th_activity c) else activity_at th m)"
  "activity_at (th\<lparr>ts_state := s\<rparr>) m = activity_at th m" "activity_at (th\<lparr>ts_reaper := r\<rparr>) m = activity_at th m"
  by (auto simp: activity_at_def dest: thread_at_length)

lemma set_thread_reaper [simp]: "ts_reaper (set_thread n c th) = ts_reaper th"
  by (simp add: set_thread_def)

lemma index_entries_evict_key:
  "index_entries (evict_key w k ix) k' = (if k = k' then filter (\<lambda>e. ce_worker_id e \<noteq> w) (index_entries ix k') else index_entries ix k')"
  by (auto simp: index_entries_def evict_key_def split: option.split)

lemma index_entries_drop_empty [simp]: "index_entries (drop_empty ix) k = index_entries ix k"
  by (auto simp: index_entries_def drop_empty_def split: option.split)

lemma index_entries_announce:
  "index_entries (index_announce key e ix) k = (if key = k then index_entries ix k @ [e] else index_entries ix k)"
  by (simp add: index_entries_def index_announce_def)

lemma index_entries_dom: "e \<in> set (index_entries ix k) \<Longrightarrow> k \<in> fmdom' ix"
  by (cases "fmlookup ix k") (auto simp: index_entries_def fmdom'_lookup)

text \<open>After the removal from the registry, each access of the forgetting keeps what it has still to evict.\<close>

lemma forget_effect:
  assumes "forget_access visit w f s = (f', s')" and "f \<noteq> RemoveNode" and "\<forall>S. finite S \<longrightarrow> S \<subseteq> set (visit S)"
  shows "nr_nodes (co_registry s') = nr_nodes (co_registry s)
    \<and> (\<forall>k. set (index_entries (co_cache s') k) \<subseteq> set (index_entries (co_cache s) k))
    \<and> (\<forall>k e. e \<in> set (index_entries (co_cache s') k) \<longrightarrow> ce_worker_id e = w \<longrightarrow> still_evicts k f \<longrightarrow>
        (\<exists>g. f' = Some g \<and> still_evicts k g))"
  using assms
proof (induction visit w f s rule: forget_access.induct)
  case (4 visit w s)
  have "k \<in> set (visit (fmdom' (co_cache s)))" if "e \<in> set (index_entries (co_cache s) k)" for e k
    using 4(3) index_entries_dom [OF that] finite_fmdom' by blast
  then show ?case using 4(1) by (auto simp: still_evicts_def)
qed (auto simp: still_evicts_def index_entries_evict_key split: if_splits)

lemma handler_effect:
  assumes "handler_access env req work (reg, s) = (work', reg', s')"
    and "\<forall>w i. fmlookup (nr_nodes (co_registry s)) w = Some i \<longrightarrow> ni_worker_id i = w"
  shows "(\<forall>w i. fmlookup (nr_nodes (co_registry s')) w = Some i \<longrightarrow> ni_worker_id i = w)
    \<and> (\<forall>w. registered w s \<longrightarrow> registered w s')
    \<and> (\<forall>k e. e \<in> set (index_entries (co_cache s') k) \<longrightarrow> e \<in> set (index_entries (co_cache s) k) \<or> (\<exists>key. work = AnnouncePut key e))
    \<and> (\<forall>key e. work' = AnnouncePut key e \<longrightarrow> registered (ce_worker_id e) s')"
proof (cases "work = Begun")
  case True
  then have s': "s' = snd (snd (first_access env req (reg, s)))" and w': "work' = fst (first_access env req (reg, s))"
    using assms(1) by simp_all
  have rest: "first_access env req (reg, s) = (case handle_request env req (reg, s) of (resp, x') \<Rightarrow> (Answered resp, x')) \<Longrightarrow>
      snd (snd (handle_request env req (reg, s))) = t \<Longrightarrow> nr_nodes (co_registry t) = nr_nodes (co_registry s) \<Longrightarrow>
      co_cache t = co_cache s \<Longrightarrow> ?thesis" for t
    using assms(2) by (auto simp: s' w' registered_def get_node_info_def split: prod.splits)
  show ?thesis
  proof (cases req)
    case (AnnounceCache key path)
    then show ?thesis using assms(2)
      by (auto simp: s' w' registered_def get_node_info_def split: option.splits)
  next
    case (RegisterNode w h c p)
    then show ?thesis using assms(2) by (auto simp: s' w' registered_def get_node_info_def)
  next
    case (NodeHeartbeat w)
    show ?thesis by (rule rest, simp add: NodeHeartbeat, rule handle_request_state) (simp_all add: NodeHeartbeat registry_heartbeat_def)
  next
    case (InsertLease l)
    then show ?thesis using assms(2) by (auto simp: s' w' registered_def)
  next
    case (UpdateLease l)
    then show ?thesis using assms(2) by (auto simp: s' w' registered_def)
  qed ((rule rest, simp, rule handle_request_state, simp_all)[1])+
next
  case False
  then show ?thesis using assms
    by (cases work) (auto simp: registered_def get_node_info_def registry_heartbeat_def record_probe_success_def
        index_entries_announce split: if_splits)
qed

abbreviation entries_at :: "Threads \<Rightarrow> string \<Rightarrow> CacheIndexEntry list" where
  "entries_at th k \<equiv> index_entries (co_cache (ts_state th)) k"

abbreviation nodes_at :: "Threads \<Rightarrow> (WorkerId, NodeInfo) fmap" where
  "nodes_at th \<equiv> nr_nodes (co_registry (ts_state th))"

lemma locations_ok_keep:
  assumes "locations_ok th"
    and "\<And>w i. fmlookup (nodes_at th') w = Some i \<Longrightarrow> ni_worker_id i = w"
    and "\<And>w. registered w (ts_state th) \<Longrightarrow> registered w (ts_state th')"
    and "\<And>k e. e \<in> set (entries_at th' k) \<Longrightarrow> registered (ce_worker_id e) (ts_state th') \<or>
      (e \<in> set (entries_at th k) \<and> (forgetting (ce_worker_id e) k th \<longrightarrow> forgetting (ce_worker_id e) k th'))"
    and "\<And>w. announcing w th' \<Longrightarrow> announcing w th \<or> registered w (ts_state th')"
  shows "locations_ok th'"
  unfolding locations_ok_def
proof (intro conjI allI ballI impI)
  fix k e
  assume "e \<in> set (entries_at th' k)"
  then show "registered (ce_worker_id e) (ts_state th') \<or> forgetting (ce_worker_id e) k th'"
    using assms(1,3) assms(4) [of e k] unfolding locations_ok_def by blast
next
  fix w
  assume "announcing w th'"
  then show "registered w (ts_state th')" using assms(1,3) assms(5) [of w] unfolding locations_ok_def by blast
qed (rule assms(2))

lemma locations_ok_remove:
  assumes "locations_ok th" and "nodes_at th' = fmdrop w (nodes_at th)" and "co_cache (ts_state th') = co_cache (ts_state th)"
    and "\<And>k. forgetting w k th'" and "\<And>v k. forgetting v k th \<Longrightarrow> forgetting v k th'"
    and "\<And>v. announcing v th' \<Longrightarrow> announcing v th" and "\<not> announcing w th"
  shows "locations_ok th'"
proof -
  have reg: "registered v (ts_state th')" if "registered v (ts_state th)" "v \<noteq> w" for v
    using that by (simp add: registered_def get_node_info_def assms(2))
  show ?thesis
    unfolding locations_ok_def
  proof (intro conjI allI ballI impI)
    fix v i
    assume "fmlookup (nodes_at th') v = Some i"
    then show "ni_worker_id i = v" using assms(1) by (simp add: assms(2) locations_ok_def split: if_splits)
  next
    fix k e
    assume "e \<in> set (entries_at th' k)"
    then have "registered (ce_worker_id e) (ts_state th) \<or> forgetting (ce_worker_id e) k th"
      using assms(1) by (simp add: assms(3) locations_ok_def)
    then show "registered (ce_worker_id e) (ts_state th') \<or> forgetting (ce_worker_id e) k th'"
      using reg assms(4,5) by blast
  next
    fix v
    assume "announcing v th'"
    then show "registered v (ts_state th')" using reg [of v] assms(1,6,7) unfolding locations_ok_def by blast
  qed
qed

text \<open>What a turn leaves alone.\<close>

lemma leaving_other:
  assumes "activity_at th n = Some (Leaving w f)" and "\<And>env visit. turn \<noteq> TtAccess n env visit"
  shows "activity_at (thread_turn turn th) n = Some (Leaving w f)"
proof -
  obtain c where "thread_at th n = Some c" "th_activity c = Leaving w f" using assms(1) by (auto simp: activity_at_def)
  then show ?thesis
    using assms(2) thread_at_turn [of th n c turn] by (auto simp: activity_at_def thread_step_def split: ThreadTurn.split)
qed

lemma announcing_other:
  assumes "activity_at (thread_turn turn th) n = Some (Serving req (AnnouncePut key e))" and "\<And>env visit. turn \<noteq> TtAccess n env visit"
  shows "activity_at th n = Some (Serving req (AnnouncePut key e))"
proof (cases "thread_at th n")
  case None
  then show ?thesis using assms(1) thread_at_turn_new [of turn th n] by (auto simp: activity_at_def)
next
  case (Some c)
  then show ?thesis
    using assms thread_at_turn [OF Some, of turn]
    by (auto simp: activity_at_def thread_step_def split: ThreadTurn.splits if_splits Activity.splits Work.splits option.splits)
qed

text \<open>The turns, by what they may change.\<close>

lemma locations_ok_quiet:
  assumes "locations_ok th" and "\<And>n env visit. turn \<noteq> TtAccess n env visit" and "\<And>env visit timeout. turn \<noteq> TtReaper env visit timeout"
  shows "locations_ok (thread_turn turn th)"
proof -
  let ?th = "thread_turn turn th"
  have same: "nodes_at ?th = nodes_at th" "co_cache (ts_state ?th) = co_cache (ts_state th)" "ts_reaper ?th = ts_reaper th"
    using assms(2,3) by (cases turn; auto simp: on_thread_def set_thread_def split: option.split)+
  have "forgetting v k th \<Longrightarrow> forgetting v k ?th" for v k
    using leaving_other [OF _ assms(2)] unfolding forgetting_def same by blast
  moreover have "announcing v ?th \<Longrightarrow> announcing v th" for v
    using announcing_other [OF _ assms(2)] unfolding announcing_def by blast
  ultimately show ?thesis
    using assms(1) by (intro locations_ok_keep [OF assms(1)])
      (auto simp: same registered_def get_node_info_def locations_ok_def)
qed

lemma activity_at_moved:
  assumes "thread_at th n = Some c" and "th' = set_thread n c' (th\<lparr>ts_state := s\<rparr>)"
  shows "activity_at th' m = (if m = n then Some (th_activity c') else activity_at th m)"
    "activity_at th n = Some (th_activity c)" "ts_state th' = s" "ts_reaper th' = ts_reaper th"
  using assms thread_at_length [OF assms(1)] by (simp_all add: activity_at_def)

lemma forgetting_moved:
  assumes "thread_at th n = Some c" and "th' = set_thread n c' (th\<lparr>ts_state := s\<rparr>)" and "forgetting v k th"
    and "\<And>f. th_activity c = Leaving v f \<Longrightarrow> still_evicts k f \<Longrightarrow> \<exists>g. th_activity c' = Leaving v g \<and> still_evicts k g"
  shows "forgetting v k th'"
proof -
  note at = activity_at_moved [OF assms(1,2)]
  have "\<exists>m g. activity_at th' m = Some (Leaving v g) \<and> still_evicts k g"
    if f: "activity_at th m = Some (Leaving v f)" "still_evicts k f" for m f
  proof (cases "m = n")
    case True
    then have "th_activity c = Leaving v f" using f(1) at(2) by simp
    then obtain g where "th_activity c' = Leaving v g" "still_evicts k g" using assms(4) f(2) by blast
    then have "activity_at th' n = Some (Leaving v g)" using at(1) by simp
    then show ?thesis using \<open>still_evicts k g\<close> by blast
  next
    case False
    then show ?thesis using f at(1) [of m] by fastforce
  qed
  then show ?thesis using assms(3) unfolding forgetting_def at(4) by blast
qed

lemma announcing_moved:
  assumes "thread_at th n = Some c" and "th' = set_thread n c' (th\<lparr>ts_state := s\<rparr>)" and "announcing v th'"
  shows "announcing v th \<or> (\<exists>req key e. th_activity c' = Serving req (AnnouncePut key e) \<and> ce_worker_id e = v)"
  using assms(3) unfolding announcing_def activity_at_moved(1) [OF assms(1,2)] by (metis option.inject)

lemma locations_ok_serving:
  assumes ok: "locations_ok th" and c: "thread_at th n = Some c" "th_activity c = Serving req work"
    and h: "handler_access env req work (th_registered c, ts_state th) = (work', reg, s)"
    and c': "th_activity c' = Serving req work'" and th': "th' = set_thread n c' (th\<lparr>ts_state := s\<rparr>)"
  shows "locations_ok th'"
proof -
  note at = activity_at_moved [OF c(1) th']
  have keyed: "\<forall>w i. fmlookup (nodes_at th) w = Some i \<longrightarrow> ni_worker_id i = w" using ok by (simp add: locations_ok_def)
  note eff = handler_effect [OF h keyed]
  have put: "registered (ce_worker_id e) (ts_state th)" if "work = AnnouncePut key e" for key e
  proof -
    have "announcing (ce_worker_id e) th" using at(2) that c(2) by (auto simp: announcing_def)
    then show ?thesis using ok by (simp add: locations_ok_def)
  qed
  show ?thesis
  proof (rule locations_ok_keep [OF ok], unfold at(3))
    show "ni_worker_id i = w" if "fmlookup (nr_nodes (co_registry s)) w = Some i" for w i using eff that by simp
    show "registered w s" if "registered w (ts_state th)" for w using eff that by simp
    show "announcing w th \<or> registered w s" if "announcing w th'" for w
      using announcing_moved [OF c(1) th' that] eff c' by auto
    show "registered (ce_worker_id e) s \<or> (e \<in> set (entries_at th k) \<and>
        (forgetting (ce_worker_id e) k th \<longrightarrow> forgetting (ce_worker_id e) k th'))"
      if "e \<in> set (index_entries (co_cache s) k)" for k e
    proof (cases "\<exists>key. work = AnnouncePut key e")
      case True
      then obtain key where "work = AnnouncePut key e" by blast
      from put [OF this] show ?thesis using conjunct1 [OF conjunct2 [OF eff]] by simp
    next
      case False
      then have "e \<in> set (entries_at th k)"
        using conjunct1 [OF conjunct2 [OF conjunct2 [OF eff]]] that by blast
      then show ?thesis using forgetting_moved [OF c(1) th'] by (simp add: c(2))
    qed
  qed
qed

lemma locations_ok_removing:
  assumes ok: "locations_ok th" and c: "thread_at th n = Some c" "th_activity c = Leaving w RemoveNode"
    and s: "forget_access visit w RemoveNode (ts_state th) = (Some f', s)"
    and c': "th_activity c' = Leaving w f'" and th': "th' = set_thread n c' (th\<lparr>ts_state := s\<rparr>)" and calm: "\<not> announcing w th"
  shows "locations_ok th'"
proof (rule locations_ok_remove [OF ok])
  note at = activity_at_moved [OF c(1) th']
  show "nodes_at th' = fmdrop w (nodes_at th)" "co_cache (ts_state th') = co_cache (ts_state th)" using s by (auto simp: at)
  have f': "f' = RemoveSeen" using s by simp
  show "forgetting w k th'" for k unfolding forgetting_def at using c' f' by (auto simp: still_evicts_def)
  show "forgetting v k th'" if "forgetting v k th" for v k
    by (rule forgetting_moved [OF c(1) th' that]) (simp add: c(2) still_evicts_def)
  show "announcing v th" if "announcing v th'" for v using announcing_moved [OF c(1) th' that] c' by simp
qed (rule calm)

lemma locations_ok_evicting:
  assumes ok: "locations_ok th" and c: "thread_at th n = Some c" "th_activity c = Leaving w f" and f: "f \<noteq> RemoveNode"
    and s: "forget_access visit w f (ts_state th) = (f', s)" and visit: "\<forall>S. finite S \<longrightarrow> S \<subseteq> set (visit S)"
    and c': "th_activity c' = (case f' of None \<Rightarrow> Ended | Some g \<Rightarrow> Leaving w g)" and th': "th' = set_thread n c' (th\<lparr>ts_state := s\<rparr>)"
  shows "locations_ok th'"
proof (rule locations_ok_keep [OF ok])
  note at = activity_at_moved [OF c(1) th'] and eff = forget_effect [OF s f visit]
  show "ni_worker_id i = v" if "fmlookup (nodes_at th') v = Some i" for v i
    using that eff ok by (simp add: at locations_ok_def)
  show "registered v (ts_state th')" if "registered v (ts_state th)" for v
    using that eff by (simp add: at registered_def get_node_info_def)
  show "announcing v th \<or> registered v (ts_state th')" if "announcing v th'" for v
    using announcing_moved [OF c(1) th' that] c' by (auto split: option.splits)
  show "registered (ce_worker_id e) (ts_state th') \<or>
      (e \<in> set (entries_at th k) \<and> (forgetting (ce_worker_id e) k th \<longrightarrow> forgetting (ce_worker_id e) k th'))"
    if "e \<in> set (entries_at th' k)" for k e
  proof -
    have e: "e \<in> set (index_entries (co_cache s) k)" using that by (simp add: at)
    have "forgetting (ce_worker_id e) k th'" if "forgetting (ce_worker_id e) k th"
    proof (rule forgetting_moved [OF c(1) th' that])
      fix g assume "th_activity c = Leaving (ce_worker_id e) g" "still_evicts k g"
      then have "w = ce_worker_id e" "still_evicts k f" using c(2) by simp_all
      then obtain g' where "f' = Some g'" "still_evicts k g'" using eff e by blast
      with \<open>w = ce_worker_id e\<close> show "\<exists>g. th_activity c' = Leaving (ce_worker_id e) g \<and> still_evicts k g" using c' by simp
    qed
    then show ?thesis using eff e by blast
  qed
qed

lemma locations_ok_idle:
  assumes ok: "locations_ok th" and "thread_at th n = Some c" and th': "th' = set_thread n c (th\<lparr>ts_state := ts_state th\<rparr>)"
  shows "locations_ok th'"
proof -
  note at = activity_at_moved [OF assms(2) th']
  have "activity_at th' m = activity_at th m" for m using at(1,2) by auto
  then show ?thesis using ok by (simp add: locations_ok_def forgetting_def announcing_def at(3,4))
qed

lemma locations_ok_access:
  assumes ok: "locations_ok th" and calm: "calm_turn (TtAccess n env visit) th"
  shows "locations_ok (thread_turn (TtAccess n env visit) th)"
proof (cases "thread_at th n")
  case (Some c)
  obtain c' s where step: "connection_access env visit c (ts_state th) = (c', s)" by fastforce
  have th: "thread_turn (TtAccess n env visit) th = set_thread n c' (th\<lparr>ts_state := s\<rparr>)" using Some step by simp
  have visit: "\<forall>S. finite S \<longrightarrow> S \<subseteq> set (visit S)" using calm by (simp add: calm_turn_def)
  show ?thesis
  proof (cases "th_activity c")
    case (Serving req work)
    then show ?thesis using step locations_ok_serving [OF ok Some Serving _ _ th]
      by (auto simp: connection_access_def split: prod.splits)
  next
    case (Leaving w f)
    show ?thesis
    proof (cases "f = RemoveNode")
      case True
      then have "removes_node w (TtAccess n env visit) th" using Some Leaving by (simp add: removes_node_def activity_at_def)
      then have "\<not> announcing w th" using calm by (auto simp: calm_turn_def)
      then show ?thesis using step Leaving True
        by (intro locations_ok_removing [OF ok Some _ _ _ th, of w visit RemoveSeen]) (auto simp: connection_access_def)
    next
      case False
      obtain f' where "forget_access visit w f (ts_state th) = (f', s)"
        "th_activity c' = (case f' of None \<Rightarrow> Ended | Some g \<Rightarrow> Leaving w g)"
        using step Leaving by (auto simp: connection_access_def split: prod.splits option.splits)
      then show ?thesis using locations_ok_evicting [OF ok Some Leaving False _ visit _ th] by blast
    qed
  qed (use step th in \<open>auto simp: connection_access_def simp del: thread_turn.simps intro: locations_ok_idle [OF ok Some]\<close>)
qed (use ok in simp)

lemma locations_ok_reaper:
  assumes ok: "locations_ok th" and calm: "calm_turn (TtReaper env visit timeout) th"
  shows "locations_ok (thread_turn (TtReaper env visit timeout) th)"
proof -
  obtain r s where step: "reaper_access env visit timeout (ts_reaper th) (ts_state th) = (r, s)" by fastforce
  define th' where "th' = thread_turn (TtReaper env visit timeout) th"
  have th': "th' = th\<lparr>ts_reaper := r, ts_state := s\<rparr>" using step by (simp add: th'_def)
  have at: "activity_at th' m = activity_at th m" "ts_state th' = s" "ts_reaper th' = r" for m by (simp_all add: th')
  have ann: "announcing v th' = announcing v th" for v by (simp add: announcing_def at)
  have visit: "\<forall>S. finite S \<longrightarrow> S \<subseteq> set (visit S)" using calm by (simp add: calm_turn_def)
  show ?thesis
    unfolding th'_def [symmetric]
  proof (cases "\<exists>flag w f ws. ts_reaper th = Forget flag w f ws")
    case False
    then have "nr_nodes (co_registry s) = nodes_at th" "co_cache s = co_cache (ts_state th)"
      using step by (auto simp: on_store_def mem_active_def elim!: reaper_access.elims split: prod.splits if_splits)
    moreover have "forgetting v k th \<Longrightarrow> forgetting v k th'" for v k
      using False by (auto simp: forgetting_def at)
    ultimately show "locations_ok th'"
      using ok by (intro locations_ok_keep [OF ok]) (auto simp: at ann registered_def get_node_info_def locations_ok_def)
  next
    case True
    then obtain flag w f ws where f: "ts_reaper th = Forget flag w f ws" by blast
    show "locations_ok th'"
    proof (cases "f = RemoveNode")
      case True
      then have "removes_node w (TtReaper env visit timeout) th" using f by (simp add: removes_node_def)
      then have "\<not> announcing w th" using calm by (auto simp: calm_turn_def)
      then show ?thesis using step f True
        by (intro locations_ok_remove [OF ok, of _ w]) (auto simp: at ann forgetting_def still_evicts_def)
    next
      case False
      obtain f' where f': "forget_access visit w f (ts_state th) = (f', s)"
        and r: "r = (case f' of None \<Rightarrow> Nodes flag ws | Some g \<Rightarrow> Forget flag w g ws)"
        using step f by (auto split: prod.splits option.splits)
      note eff = forget_effect [OF f' False visit]
      have "forgetting (ce_worker_id e) k th'"
        if "e \<in> set (index_entries (co_cache s) k)" "forgetting (ce_worker_id e) k th" for e k
        using that(2) conjunct2 [OF conjunct2 [OF eff], rule_format, OF that(1)] unfolding forgetting_def at f r
        by (auto split: option.splits)
      then show ?thesis
        using ok eff by (intro locations_ok_keep [OF ok])
          (auto simp: at ann registered_def get_node_info_def locations_ok_def)
    qed
  qed
qed

lemma calmly_reachable_ok: "calmly_reachable th \<Longrightarrow> locations_ok th"
proof (induction rule: calmly_reachable.induct)
  case start
  show ?case
    by (simp add: locations_ok_def threads_new_def coordinator_new_def registry_new_def index_entries_def
        announcing_def activity_at_def thread_at_def)
next
  case (turn th t)
  then show ?case
    by (cases t) (auto intro: locations_ok_access locations_ok_reaper locations_ok_quiet simp del: thread_turn.simps)
qed

text \<open>
  C30: a query of the cache answers with locations of workers that are registered, or that a
  connection or the reaper is forgetting and has not evicted from that key yet: as long as no worker is
  removed between the two accesses of one of its announcements, however everything else is interleaved.
\<close>

theorem cache_locations_live:
  assumes "calmly_reachable th" and "activity_at th n = Some (Serving (QueryCache key) Begun)"
  shows "\<exists>locations. activity_at (thread_turn (TtAccess n env visit) th) n
      = Some (Serving (QueryCache key) (Answered (CacheLocations locations)))
    \<and> (\<forall>l \<in> set locations. registered (cl_worker_id l) (ts_state th) \<or> forgetting (cl_worker_id l) key th)"
proof (intro exI conjI)
  obtain c where c: "thread_at th n = Some c" "th_activity c = Serving (QueryCache key) Begun"
    using assms(2) by (auto simp: activity_at_def)
  then show "activity_at (thread_turn (TtAccess n env visit) th) n
      = Some (Serving (QueryCache key) (Answered (CacheLocations (index_query key (co_cache (ts_state th))))))"
    using thread_at_turn [OF c(1), of "TtAccess n env visit"]
    by (simp add: activity_at_def thread_step_def connection_access_def del: thread_turn.simps)
  show "\<forall>l \<in> set (index_query key (co_cache (ts_state th))).
      registered (cl_worker_id l) (ts_state th) \<or> forgetting (cl_worker_id l) key th"
    using calmly_reachable_ok [OF assms(1)] by (auto simp: locations_ok_def index_query_def)
qed

text \<open>
  What happens otherwise: an announcement that has looked its node up before the node is removed
  leaves a location of a worker that is not registered and that nobody is forgetting.
\<close>

lemma overtaken_announcement_stays:
  assumes "activity_at th n = Some (Serving req (AnnouncePut key e))"
    and "\<not> registered (ce_worker_id e) (ts_state th)" and "\<not> forgetting (ce_worker_id e) key th"
    and "th' = thread_turn (TtAccess n env visit) th"
  shows "activity_at th' n = Some (Serving req (Answered ROk)) \<and> e \<in> set (entries_at th' key)
    \<and> \<not> registered (ce_worker_id e) (ts_state th') \<and> \<not> forgetting (ce_worker_id e) key th'"
proof -
  obtain c where c: "thread_at th n = Some c" "th_activity c = Serving req (AnnouncePut key e)"
    using assms(1) by (auto simp: activity_at_def)
  obtain c' s where step: "connection_access env visit c (ts_state th) = (c', s)" by fastforce
  have th': "th' = set_thread n c' (th\<lparr>ts_state := s\<rparr>)" using assms(4) c(1) step by simp
  have c': "th_activity c' = Serving req (Answered ROk)" "s = (ts_state th)\<lparr>co_cache := index_announce key e (co_cache (ts_state th))\<rparr>"
    using step c(2) by (auto simp: connection_access_def)
  note at = activity_at_moved [OF c(1) th']
  have "\<not> forgetting (ce_worker_id e) key th'"
    using assms(3) unfolding forgetting_def at c' by (auto split: if_splits)
  then show ?thesis
    using assms(2) at(1) [of n] c'
    by (simp add: at index_entries_announce registered_def get_node_info_def)
qed

subsection \<open>Concrete runs\<close>

definition node_lease :: Lease where
  "node_lease = example_lease (TaskId 1) (WorkerId 1) 1"

definition two_connections :: Threads where
  "two_connections = fold thread_turn [TtAccept, TtAccept] (threads_new coordinator_new)"

definition access :: "nat \<Rightarrow> ThreadTurn" where
  "access n = TtAccess n (example_env 1) sorted_list_of_set"

lemmas thread_run = two_connections_def threads_new_def coordinator_new_def registry_new_def access_def example_env_def
  activity_at_def thread_at_def on_thread_def set_thread_def connection_access_def

theorem overlapping_leases_both_granted_witness:
  "activity_at (fold thread_turn [TtReceive 0 (InsertLease node_lease), TtReceive 1 (InsertLease node_lease),
      access 0, access 1, access 0, access 1] two_connections) 1
    = Some (Serving (InsertLease node_lease) (Answered ROk))"
proof -
  have "activity_at two_connections 0 = Some Waiting" "activity_at two_connections 1 = Some Waiting"
    "fmlookup (co_leases (ts_state two_connections)) (ls_task_id node_lease) = None"
    by (simp_all add: thread_run)
  from overlapping_leases_both_granted [OF this(1,2) zero_neq_one this(3) refl refl refl, of "example_env 1" sorted_list_of_set]
  show ?thesis by (simp only: access_def)
qed

definition lease_asked :: Threads where
  "lease_asked = fold thread_turn [TtReceive 0 (InsertLease node_lease), access 0] two_connections"

theorem lease_exclusive_across_nodes_witness:
  "activity_at (fold thread_turn [access 1] (thread_turn (TtReceive 1 (InsertLease node_lease))
      (fold thread_turn [TtSend 0 True] (thread_turn (access 0) lease_asked)))) 1
    = Some (Serving (InsertLease node_lease) (Answered (RError ''already leased'')))"
proof -
  have "activity_at lease_asked 0 = Some (Serving (InsertLease node_lease) (InsertPut node_lease))"
    by (simp add: lease_asked_def thread_run insert_check_def)
  moreover have "no_removal (ls_task_id node_lease) lease_asked"
    by (auto simp: no_removal_def lease_asked_def thread_run nth_Cons' split: if_splits)
  moreover have "activity_at (fold thread_turn [TtSend 0 True] (thread_turn (access 0) lease_asked)) 1 = Some Waiting"
    by (simp add: lease_asked_def thread_run insert_check_def)
  moreover have "\<exists>req resp. activity_at (fold thread_turn [access 1] (thread_turn (TtReceive 1 (InsertLease node_lease))
      (fold thread_turn [TtSend 0 True] (thread_turn (access 0) lease_asked)))) 1 = Some (Serving req (Answered resp))"
    by (simp add: lease_asked_def thread_run insert_check_def insert_put_def)
  ultimately show ?thesis
    using lease_exclusive_across_nodes [of lease_asked 0 node_lease node_lease "[TtSend 0 True]" "[access 1]" _ "example_env 1"
        sorted_list_of_set 1, OF _ refl _ _ refl]
    by (fastforce simp: asks_removal_def access_def)
qed

text \<open>A run in which nobody leaves.\<close>

definition all_stay :: "Threads \<Rightarrow> bool" where
  "all_stay th \<longleftrightarrow> (\<forall>n w f. activity_at th n \<noteq> Some (Leaving w f)) \<and> ts_reaper th = Resting"

primrec staying_turn :: "ThreadTurn \<Rightarrow> bool" where
  "staying_turn TtAccept = True"
| "staying_turn (TtReceive n req) = True"
| "staying_turn (TtAccess n env visit) = (\<forall>S. finite S \<longrightarrow> S \<subseteq> set (visit S))"
| "staying_turn (TtSend n sent) = True"
| "staying_turn (TtClose n) = False"
| "staying_turn (TtReaper env visit timeout) = False"
| "staying_turn (TtProbe env probe) = True"
| "staying_turn (TtSubmit task) = True"

lemma all_stay_turn:
  assumes "all_stay th" and "staying_turn turn"
  shows "all_stay (thread_turn turn th)"
proof -
  have "ts_reaper (thread_turn turn th) = Resting"
    using assms by (cases turn) (auto simp: all_stay_def on_thread_def split: option.split prod.split)
  moreover have "activity_at (thread_turn turn th) n \<noteq> Some (Leaving w f)" for n w f
  proof (cases "thread_at th n")
    case None
    then show ?thesis using thread_at_turn_new [of turn th n] by (auto simp: activity_at_def)
  next
    case (Some c)
    then have "th_activity c \<noteq> Leaving w f" for w f using assms(1) by (auto simp: all_stay_def activity_at_def)
    then show ?thesis
      using assms(2) thread_at_turn [OF Some, of turn]
      by (cases turn) (auto simp: activity_at_def thread_step_def connection_access_def split: Activity.splits Work.splits prod.splits)
  qed
  ultimately show ?thesis by (simp add: all_stay_def)
qed

lemma staying_calm: "all_stay th \<Longrightarrow> staying_turn turn \<Longrightarrow> calm_turn turn th"
  by (cases turn) (auto simp: calm_turn_def removes_node_def all_stay_def)

lemma staying_run: "calmly_reachable th \<Longrightarrow> all_stay th \<Longrightarrow> list_all staying_turn turns \<Longrightarrow>
    calmly_reachable (fold thread_turn turns th) \<and> all_stay (fold thread_turn turns th)"
  by (induction turns arbitrary: th) (simp_all add: calmly_reachable.turn staying_calm all_stay_turn)

definition cache_asked :: Threads where
  "cache_asked = fold thread_turn [TtAccept, TtAccept, TtReceive 0 example_register, access 0, access 0, access 0, TtSend 0 True,
     TtReceive 0 (AnnounceCache ''k'' ''/p''), access 0, access 0, TtReceive 1 (QueryCache ''k'')] (threads_new coordinator_new)"

theorem cache_locations_live_witness:
  "activity_at (thread_turn (access 1) cache_asked) 1 = Some (Serving (QueryCache ''k'') (Answered
      (CacheLocations [\<lparr>cl_worker_id = WorkerId 1, cl_hostname = ''node'', cl_path = ''/p''\<rparr>])))
    \<and> registered (WorkerId 1) (ts_state cache_asked)"
proof -
  have "all_stay (threads_new coordinator_new)"
    by (simp add: all_stay_def threads_new_def activity_at_def thread_at_def)
  then have "calmly_reachable cache_asked \<and> all_stay cache_asked"
    unfolding cache_asked_def by (intro staying_run calmly_reachable.start) (auto simp: access_def)
  moreover note run = cache_asked_def thread_run example_register_def get_node_info_def registry_heartbeat_def
    record_probe_success_def index_announce_def
  have "activity_at cache_asked 1 = Some (Serving (QueryCache ''k'') Begun)" by (simp add: run)
  moreover have "activity_at (thread_turn (access 1) cache_asked) 1 = Some (Serving (QueryCache ''k'') (Answered
      (CacheLocations [\<lparr>cl_worker_id = WorkerId 1, cl_hostname = ''node'', cl_path = ''/p''\<rparr>])))"
    by (simp add: run index_query_def index_entries_def)
  ultimately show ?thesis
    using cache_locations_live [of cache_asked 1 "''k''" "example_env 1" sorted_list_of_set]
    by (auto simp: access_def forgetting_def all_stay_def simp del: thread_turn.simps)
qed

end
