(* ===== verification/Ledger.thy ===== *)
theory Ledger
  imports CoreTypes Effects
begin

text \<open>
  The AIVCS ledger sink of \<open>crates/core/src/aivcs_ledger.rs\<close>. The state is the list of the requests
  that were sent, each with the endpoint; whether the service accepts them makes no difference to the
  code. \<open>to_value\<close> is the serialization of an event to JSON, which may fail.
\<close>

record LedgerEvent =
  le_run_id :: string
  le_event_type :: string
  le_payload :: string
  le_timestamp :: instant

record AivcsEventSink =
  as_endpoint :: string

type_synonym LedgerPosts = "(string \<times> LedgerEvent) list"

definition ledger_event_type :: "TaskEvent \<Rightarrow> string" where
  "ledger_event_type event = (case event of
     EvStarted _ _ \<Rightarrow> ''TASK_STARTED'' | EvCompleted _ _ \<Rightarrow> ''TASK_COMPLETED'' | _ \<Rightarrow> ''TASK_EVENT'')"

definition record_if_context_exists :: "(TaskEvent \<Rightarrow> string + string) \<Rightarrow> instant \<Rightarrow> AivcsEventSink \<Rightarrow> string option
    \<Rightarrow> TaskEvent \<Rightarrow> (LedgerPosts, CoreError, unit) op" where
  "record_if_context_exists to_value now sink run_id event posts =
     (case run_id of
        None \<Rightarrow> (Ok (), posts)
      | Some i \<Rightarrow>
          (case to_value event of
             Inl e \<Rightarrow> (Err (Internal e), posts)
           | Inr payload \<Rightarrow> (Ok (), posts @ [(as_endpoint sink, \<lparr>le_run_id = i, le_event_type = ledger_event_type event,
               le_payload = payload, le_timestamp = now\<rparr>)])))"

definition ledger_emit_event :: "AivcsEventSink \<Rightarrow> TaskEvent \<Rightarrow> (LedgerPosts, CoreError, unit) op" where
  "ledger_emit_event sink event posts = (Ok (), posts)"

definition ledger_emit_log :: "AivcsEventSink \<Rightarrow> LogLine \<Rightarrow> (LedgerPosts, CoreError, unit) op" where
  "ledger_emit_log sink line posts = (Ok (), posts)"

text \<open>
  What the helper would record: a run's events in order, one request each, as long as they can be
  serialized. The sink itself never calls it.
\<close>

lemma ledger_records_run:
  assumes "\<And>e. e \<in> set events \<Longrightarrow> to_value e = Ok (payload e)"
  shows "snd (fold (\<lambda>e (r, posts). record_if_context_exists to_value now sink (Some i) e posts) events (Ok (), posts))
    = posts @ map (\<lambda>e. (as_endpoint sink, \<lparr>le_run_id = i, le_event_type = ledger_event_type e,
        le_payload = payload e, le_timestamp = now\<rparr>)) events"
  using assms by (induction events arbitrary: posts) (simp_all add: record_if_context_exists_def)

end
