(* ===== verification/Gatekeeper.thy ===== *)
theory Gatekeeper
  imports CoreTypes
begin

text \<open>
  The placement policy of \<open>crates/scheduler/src/gatekeeper.rs\<close>. The trait \<open>GatekeeperNode\<close> has the one
  method \<open>is_production\<close>; a node is its value.
\<close>

definition can_run_on_node :: "TaskDescriptor \<Rightarrow> bool \<Rightarrow> bool" where
  "can_run_on_node task production =
     (let ev = td_evaluation task in
      if is_promotion_gate ev \<and> \<not> production then False
      else if agent_phase ev > 0 \<and> agent_phase ev \<le> 2 \<and> production then
        (if \<not> is_promotion_gate ev then False else True)
      else True)"

text \<open>
  A promotion gate runs on production nodes alone, another task of the first two phases on the
  other nodes alone, and every other task anywhere; so a node of each kind is enough for all tasks.
\<close>

lemma placement_exact:
  "can_run_on_node task production \<longleftrightarrow>
     (if is_promotion_gate (td_evaluation task) then production
      else agent_phase (td_evaluation task) \<in> {1, 2} \<longrightarrow> \<not> production)"
proof -
  have "0 < p \<and> p \<le> 2 \<longleftrightarrow> p \<in> {1, 2}" for p :: u8
  proof -
    have "0 < p \<and> p \<le> 2 \<longleftrightarrow> unat p = 1 \<or> unat p = 2"
      by (simp add: word_less_nat_alt word_le_nat_alt) linarith
    then show ?thesis by (simp add: word_unat_eq_iff)
  qed
  then show ?thesis by (auto simp: can_run_on_node_def Let_def)
qed

lemma placement_total: "\<exists>production. can_run_on_node task production"
  unfolding placement_exact by (cases "is_promotion_gate (td_evaluation task)") auto

end
