(* ===== verification/Agent.thy ===== *)
theory Agent
  imports CoreTypes Effects Transport
begin

text \<open>
  The agent crate: the goal locks of \<open>crates/agent/src/goal_lock.rs\<close>, the budgets of \<open>budget.rs\<close>
  and the types of \<open>crates/core/src/agent.rs\<close>. The crate is not a member of the workspace and does not
  compile against the present core crate: \<open>GoalLockStore\<close>, two variants of \<open>CoreError\<close> and the field
  \<open>budget\<close> of \<open>TaskDescriptor\<close> do not exist. Here the errors are a type of their own and the budget
  of the descriptor is an argument.
\<close>

record AgentBudget =
  max_tokens :: u64
  max_duration_secs :: u64

definition default_budget :: AgentBudget where
  "default_budget = \<lparr>max_tokens = 0, max_duration_secs = 0\<rparr>"

record TestGate =
  tg_command :: "string list"
  tg_working_dir :: string

datatype AgentError = GoalLockConflict string | BudgetExceeded string

subsection \<open>Goal locks\<close>

type_synonym GoalLocks = "(string, TaskId) fmap"

definition goal_locks_new :: GoalLocks where
  "goal_locks_new = fmempty"

definition try_acquire :: "string \<Rightarrow> TaskId \<Rightarrow> (GoalLocks, AgentError, unit) op" where
  "try_acquire goal t m =
     (let m' = (if fmlookup m goal = None then fmupd goal t m else m) in
      if fmlookup m' goal = Some t then (Ok (), m') else (Err (GoalLockConflict goal), m'))"

text \<open>\<open>release\<close> gives up the entry between the test and the removal; these are its halves.\<close>

definition release_check :: "string \<Rightarrow> TaskId \<Rightarrow> GoalLocks \<Rightarrow> bool" where
  "release_check goal t m \<longleftrightarrow> fmlookup m goal = Some t"

definition release_remove :: "string \<Rightarrow> GoalLocks \<Rightarrow> GoalLocks" where
  "release_remove goal m = fmdrop goal m"

definition goal_release :: "string \<Rightarrow> TaskId \<Rightarrow> (GoalLocks, AgentError, unit) op" where
  "goal_release goal t m = (Ok (), if release_check goal t m then release_remove goal m else m)"

definition goal_holder :: "string \<Rightarrow> (GoalLocks, AgentError, TaskId option) op" where
  "goal_holder goal m = (Ok (fmlookup m goal), m)"

text \<open>The contract of a lock store whose calls are atomic.\<close>

datatype GoalOp = GoAcquire string TaskId | GoRelease string TaskId

fun goal_step :: "(string \<Rightarrow> TaskId \<Rightarrow> ('s, AgentError, unit) op) \<Rightarrow> (string \<Rightarrow> TaskId \<Rightarrow> ('s, AgentError, unit) op)
    \<Rightarrow> GoalOp \<Rightarrow> 's \<Rightarrow> 's" where
  "goal_step acquire release (GoAcquire g t) s = snd (acquire g t s)"
| "goal_step acquire release (GoRelease g t) s = snd (release g t s)"

locale goal_lock_store =
  fixes acquire :: "string \<Rightarrow> TaskId \<Rightarrow> ('s, AgentError, unit) op"
    and release :: "string \<Rightarrow> TaskId \<Rightarrow> ('s, AgentError, unit) op"
    and view :: "'s \<Rightarrow> string \<Rightarrow> TaskId option"
  assumes acquire_free: "view s g = None \<Longrightarrow> \<exists>s'. acquire g t s = (Ok (), s') \<and> view s' = (view s)(g \<mapsto> t)"
    and acquire_own: "view s g = Some t \<Longrightarrow> \<exists>s'. acquire g t s = (Ok (), s') \<and> view s' = view s"
    and acquire_held: "view s g = Some u \<Longrightarrow> u \<noteq> t \<Longrightarrow>
      \<exists>s'. acquire g t s = (Err (GoalLockConflict g), s') \<and> view s' = view s"
    and release_own: "view s g = Some t \<Longrightarrow> \<exists>s'. release g t s = (Ok (), s') \<and> view s' = (view s)(g := None)"
    and release_other: "view s g \<noteq> Some t \<Longrightarrow> \<exists>s'. release g t s = (Ok (), s') \<and> view s' = view s"
begin

lemma step_holder:
  assumes h: "view s g = Some t" and x: "x \<noteq> GoRelease g t"
  shows "view (goal_step acquire release x s) g = Some t"
proof (cases x)
  case (GoAcquire h u)
  show ?thesis
  proof (cases "view s h")
    case None
    from acquire_free [OF this, of u] None show ?thesis using GoAcquire assms(1) by auto
  next
    case (Some v)
    then show ?thesis using GoAcquire h acquire_own [of s h v] acquire_held [of s h v u] by (cases "v = u") auto
  qed
next
  case (GoRelease h u)
  then show ?thesis using h x release_own [of s h u] release_other [of s h u]
    by (cases "view s h = Some u") auto
qed

lemma steps_holder:
  "view s g = Some t \<Longrightarrow> GoRelease g t \<notin> set ops \<Longrightarrow> view (fold (goal_step acquire release) ops s) g = Some t"
proof (induction ops arbitrary: s)
  case (Cons x ops)
  have "view (goal_step acquire release x s) g = Some t"
    by (rule step_holder) (use Cons.prems in auto)
  from Cons.IH [OF this] Cons.prems show ?case by simp
qed simp

text \<open>Once a task has the lock of a goal, no other gets it before the task releases it.\<close>

lemma lock_exclusive:
  assumes a: "fst (acquire g t s) = Ok ()" and "GoRelease g t \<notin> set ops" and u: "t \<noteq> u"
  shows "fst (acquire g u (fold (goal_step acquire release) ops (snd (acquire g t s)))) = Err (GoalLockConflict g)"
proof -
  have "view (snd (acquire g t s)) g = Some t"
  proof (cases "view s g")
    case None
    from acquire_free [OF this, of t] show ?thesis by auto
  next
    case (Some v)
    then have "v = t" using a acquire_held [of s g v t] by (cases "v = t") auto
    then show ?thesis using acquire_own [of s g t] Some by auto
  qed
  from acquire_held [OF steps_holder [OF this assms(2)] u] show ?thesis by auto
qed

end

interpretation goals: goal_lock_store try_acquire goal_release fmlookup
  by unfold_locales (auto simp: try_acquire_def goal_release_def release_check_def release_remove_def fun_eq_iff)

text \<open>Two releases of one task that overlap can remove the lock that another task got in between.\<close>

lemma overlapping_releases:
  assumes "release_check g t m" and "m1 = release_remove g m" and "try_acquire g u m1 = (Ok (), m2)"
  shows "goal_holder g m2 = (Ok (Some u), m2) \<and> goal_holder g (release_remove g m2) = (Ok None, release_remove g m2)"
  using assms by (auto simp: release_remove_def try_acquire_def goal_holder_def Let_def split: if_splits)

subsection \<open>Budgets\<close>

record BudgetEntry =
  be_started_at :: nat
  be_tokens_used :: u64

type_synonym BudgetTracker = "(TaskId, BudgetEntry) fmap"

definition budget_tracker_new :: BudgetTracker where
  "budget_tracker_new = fmempty"

definition budget_start :: "nat \<Rightarrow> TaskId \<Rightarrow> BudgetTracker \<Rightarrow> BudgetTracker" where
  "budget_start now t m = fmupd t \<lparr>be_started_at = now, be_tokens_used = 0\<rparr> m"

definition charge_tokens :: "TaskId \<Rightarrow> u64 \<Rightarrow> AgentBudget option \<Rightarrow> (BudgetTracker, AgentError, unit) op" where
  "charge_tokens t amount budget m =
     (case budget of
        None \<Rightarrow> (Ok (), m)
      | Some b \<Rightarrow>
          if max_tokens b = 0 then (Ok (), m)
          else case fmlookup m t of
            None \<Rightarrow> (Ok (), m)
          | Some e \<Rightarrow>
              let used = be_tokens_used e + amount;
                  m' = fmupd t (e\<lparr>be_tokens_used := used\<rparr>) m
              in if used > max_tokens b
                 then (Err (BudgetExceeded (''token limit exceeded: '' @ nat_text (unat used) @ '' > '' @ nat_text (unat (max_tokens b)))), m')
                 else (Ok (), m'))"

text \<open>Instants are nanoseconds of the monotonic clock.\<close>

definition check_time :: "nat \<Rightarrow> TaskId \<Rightarrow> AgentBudget option \<Rightarrow> (BudgetTracker, AgentError, unit) op" where
  "check_time now t budget m =
     (case budget of
        None \<Rightarrow> (Ok (), m)
      | Some b \<Rightarrow>
          if max_duration_secs b = 0 then (Ok (), m)
          else case fmlookup m t of
            None \<Rightarrow> (Ok (), m)
          | Some e \<Rightarrow>
              let elapsed = (now - be_started_at e) div 10 ^ 9 in
              if elapsed > unat (max_duration_secs b)
              then (Err (BudgetExceeded (''time limit exceeded: '' @ nat_text elapsed @ '' > ''
                     @ nat_text (unat (max_duration_secs b)) @ '' seconds'')), m)
              else (Ok (), m))"

definition budget_finish :: "TaskId \<Rightarrow> BudgetTracker \<Rightarrow> BudgetTracker" where
  "budget_finish t m = fmdrop t m"

text \<open>The charges of a task after its start, as long as the counter does not wrap around.\<close>

definition charge_all :: "TaskId \<Rightarrow> AgentBudget option \<Rightarrow> u64 list \<Rightarrow> BudgetTracker \<Rightarrow> BudgetTracker" where
  "charge_all t b amounts m = fold (\<lambda>a m. snd (charge_tokens t a b m)) amounts m"

lemma charge_all_used:
  assumes "fmlookup m t = Some e" and "max_tokens b \<noteq> 0"
  shows "fmlookup (charge_all t (Some b) amounts m) t = Some (e\<lparr>be_tokens_used := be_tokens_used e + sum_list amounts\<rparr>)"
  using assms
proof (induction amounts arbitrary: m e)
  case (Cons a amounts)
  let ?e = "e\<lparr>be_tokens_used := be_tokens_used e + a\<rparr>"
  have "fmlookup (snd (charge_tokens t a (Some b) m)) t = Some ?e"
    using Cons.prems by (simp add: charge_tokens_def Let_def)
  from Cons.IH [OF this Cons.prems(2)] show ?case by (simp add: charge_all_def add.assoc)
qed (simp add: charge_all_def)

lemma unat_sum_list: "sum_list (map unat xs) < 2 ^ LENGTH('n) \<Longrightarrow> unat (sum_list (xs :: 'n::len word list)) = sum_list (map unat xs)"
  by (induction xs) (auto simp: unat_add_no_wrap)

lemma budget_enforced:
  assumes "max_tokens b \<noteq> 0" and "sum_list (map unat amounts) + unat a < 2 ^ 64"
  shows "is_ok (fst (charge_tokens t a (Some b) (charge_all t (Some b) amounts (budget_start now t m))))
    \<longleftrightarrow> sum_list (map unat amounts) + unat a \<le> unat (max_tokens b)"
proof -
  let ?m = "charge_all t (Some b) amounts (budget_start now t m)"
  have m: "fmlookup ?m t = Some \<lparr>be_started_at = now, be_tokens_used = sum_list amounts\<rparr>"
    using charge_all_used [of "budget_start now t m" t _ b amounts] assms(1) by (simp add: budget_start_def)
  have "unat (sum_list amounts) = sum_list (map unat amounts)" by (rule unat_sum_list) (use assms(2) in simp)
  then have "unat (sum_list amounts + a) = sum_list (map unat amounts) + unat a"
    using assms(2) by (simp add: unat_add_no_wrap)
  then show ?thesis using assms(1) m by (auto simp: charge_tokens_def Let_def word_less_nat_alt is_ok_def)
qed

lemma unknown_task_not_refused:
  "fmlookup m t = None \<Longrightarrow> charge_tokens t a b m = (Ok (), m) \<and> check_time now t b m = (Ok (), m)"
  by (simp add: charge_tokens_def check_time_def split: option.split)

end
