(* ===== verification/Spec2Isabelle.thy ===== *)
theory Spec2Isabelle
  imports DagDrain DagClients DagAging SoakHarness LocalNode PriorityQueue CircuitBreaker TimeSlice TaskAging TaskTimeout
    PriorityInversion EventLog NodeNetwork ArtifactCache CacheKey SshExecutor SessionCli PersistentLease
    ProcessExecutor NodeProgress WorkerPool CoordinatorServer CoordinatorThreads Ledger Gatekeeper Agent
begin

text \<open>
  A verification of knittingCrab, a distributed task scheduler in Rust (the crates under
  \<open>crates/\<close>). Tasks form a graph of dependencies; a scheduler hands out those that are ready;
  workers lease them, run them as processes or in remote sessions, retry them and report events;
  a coordinator serves worker nodes over TCP with a queue, leases, a registry and a cache index.

  \<^bold>\<open>Theories and what they model\<close>

  \<^item> \<open>Prelude\<close>: machine words, results, saturating arithmetic, the iteration order of hash
    collections, the interface of a max-heap. \<open>Effects\<close>: operations that thread a state and may
    fail, with the question mark operator. \<open>Floats\<close>: the \<open>f64\<close> arithmetic that backoff and
    thresholds use.
  \<^item> \<open>CoreTypes\<close> (\<open>core/src\<close>: \<open>priority.rs\<close>, \<open>resource.rs\<close>, \<open>retry.rs\<close>, \<open>lease.rs\<close>, \<open>event.rs\<close>,
    \<open>error.rs\<close>, \<open>traits.rs\<close>): the types that all components share, and their operations.
  \<^item> \<open>DagScheduler\<close> (\<open>scheduler/src/dag.rs\<close>): the state \<open>Inner\<close> behind the mutex and one definition per
    call: \<open>inner_enqueue\<close>, \<open>inner_dequeue\<close>, \<open>inner_complete\<close>, \<open>inner_fail\<close>, \<open>inner_requeue\<close>,
    \<open>inner_discard\<close>. \<open>DagCycle\<close> shows that the depth-first search finds exactly the cycles,
    \<open>DagInvariant\<close> and \<open>DagSafety\<close> that every call keeps \<open>dag_inv\<close>, \<open>DagProperties\<close> well-formedness,
    dependency order and the results of enqueue and dequeue, \<open>DagProgress\<close> the cascade of failures
    and the absence of deadlock, \<open>DagResources\<close> the accounting of resources, \<open>DagRefinement\<close> that
    the whole implements an abstract scheduler on the task graph, \<open>DagDrain\<close> that a worker works off
    every graph in the order of its dependencies, \<open>DagClients\<close> a proof rule for programs over the
    scheduler and its unit tests as such programs, \<open>DagAging\<close> what aging guarantees
    and \<open>DagStarvation\<close> what it does not, \<open>DagExample\<close> a run. \<open>SoakHarness\<close>
    (\<open>scheduler/src/soak_test.rs\<close>): the load harness over the scheduler.
  \<^item> \<open>LeaseManager\<close> (\<open>worker/src/lease_manager.rs\<close>): the store trait as a record of operations, the
    in-memory store and the manager; its contracts are the locales \<open>exclusive_store\<close>, \<open>lease_map\<close>
    and \<open>lease_store\<close>. \<open>PersistentLease\<close> (\<open>core/src/persistent_lease.rs\<close>): the SQLite store, another
    \<open>lease_map\<close>, shown to answer any sequence of calls and restarts like a map, and its recovery queries.
  \<^item> \<open>Retry\<close> (\<open>core/src/retry.rs\<close>, \<open>worker/src/retry_handler.rs\<close>): backoff and the decision to retry.
  \<^item> \<open>WorkerRuntime\<close> (\<open>worker/src/worker_runtime.rs\<close>): \<open>execute_task\<close> with its guards, the loops one
    turn each, cancellation; the locale \<open>leased_runtime\<close>. \<open>FakeWorker\<close> (\<open>worker/src/fake_worker.rs\<close>).
    \<open>ProcessExecutor\<close> (\<open>worker/src/process.rs\<close>, \<open>cancel_token.rs\<close>): processes, signals, log readers.
    \<open>LocalNode\<close> composes the runtime with the DAG scheduler, the in-memory leases and the fake
    worker's sink and monitor; \<open>NodeProgress\<close> follows it over any number of turns. \<open>WorkerPool\<close> has
    any number of workers take turns at every await of \<open>execute_task\<close> and shows that no task is
    executed twice in any interleaving; its turns come to \<open>execute_task\<close> for a worker that is alone.
  \<^item> \<open>Backpressure\<close>, \<open>PriorityQueue\<close>, \<open>CircuitBreaker\<close>, \<open>TimeSlice\<close>, \<open>TaskAging\<close>, \<open>TaskTimeout\<close>,
    \<open>PriorityInversion\<close>, \<open>EventLog\<close>: the modules of \<open>core/src\<close> of these names; \<open>Ledger\<close>:
    \<open>core/src/aivcs_ledger.rs\<close>.
  \<^item> \<open>Transport\<close> (\<open>transport/src\<close>): messages and frames. \<open>Coordinator\<close> (\<open>coordinator/src\<close>,
    \<open>scheduler/src/stub.rs\<close>): the handler of every request, connections, the registry, the cache
    index, the reaper, each as one step; \<open>CoordinatorProperties\<close> their invariants and the reaper's
    effect; \<open>CoordinatorThreads\<close> the accesses of which handlers, evictions, reaper and probes consist,
    in any interleaving: what still holds of leases and cache locations, and what does not;
    \<open>CoordinatorServer\<close> \<open>serve\<close> with the tasks it spawns and \<open>main\<close>. \<open>Node\<close> (\<open>node/src\<close>): the connection and
    the store, queue and sink over it; \<open>NodeNetwork\<close>: a node and the coordinator together.
  \<^item> \<open>ArtifactCache\<close>, \<open>CacheKey\<close> (\<open>cache/src\<close>). \<open>Sessions\<close>, \<open>SessionCli\<close> (\<open>aivcs-session/src\<close>) and
    \<open>SshExecutor\<close> (\<open>worker/src/ssh_tmux_executor.rs\<close> and the fakes): remote sessions.
    \<open>Gatekeeper\<close> (\<open>scheduler/src/gatekeeper.rs\<close>). \<open>Agent\<close> (\<open>agent/src\<close>, \<open>core/src/agent.rs\<close>): goal locks and
    budgets, a crate that is not a member of the workspace and does not compile against the core crate.
\<close>

text \<open>
  \<^bold>\<open>How the code is modelled\<close>

  A struct is a \<open>record\<close>, an enum a \<open>datatype\<close>, an integer of width \<open>w\<close> a word (arithmetic wraps, as
  in the release profile; the workspace sets none), \<open>Result\<close> the sum with \<open>Err\<close> and \<open>Ok\<close>. A call that
  changes a state is a function to the result and the new state. A \<open>HashMap\<close> is a finite map; where
  the code iterates over one, the order is an argument. Clock readings, fresh identifiers and the
  errors of libraries are arguments too. A \<open>dyn\<close> trait or a generic parameter is a record of
  operations, and what a client relies on is a locale with an interpretation for each provider.

  Concurrency: the calls of a component that hold a lock are atomic; where code gives up control
  between two accesses and the difference matters, the halves are separate definitions
  (\<open>phase_turn\<close> for \<open>execute_task\<close>, \<open>insert_check\<close> and \<open>insert_put\<close>, \<open>modify_read\<close> and \<open>modify_write\<close>, \<open>call_begin\<close> and
  \<open>call_finish\<close>, \<open>pump_turn\<close>). A loop over a timer is one definition per turn, and \<open>rt_wait\<close> and
  \<open>pause\<close> are where the rest of the system runs. The concurrent maps of the coordinator are atomic
  in each access only, and \<open>CoordinatorThreads\<close> interleaves the accesses; in \<open>Coordinator\<close> and what is
  built on it (\<open>CoordinatorServer\<close>, \<open>NodeNetwork\<close>) a handler runs without interruption, and a turn of
  \<open>CoordinatorServer\<close> is a frame, a reaper round or a probe. The counter of unfinished dependencies, a
  \<open>usize\<close>, is a \<open>nat\<close>: the invariant shows that it is never decremented at zero.

  \<^bold>\<open>Bounds and fuel\<close>

  Recursions of the model are structural or have a termination proof (\<open>cascade\<close>, \<open>pop_loop\<close>, the
  depth-first search), with two exceptions that take fuel: \<open>make_room\<close> is started with the number of
  cache entries, and \<open>eviction_terminates\<close> shows that more changes nothing; \<open>poll_for_exit\<close> is
  given the list of what ends each of its waits (the poll or the pause is over, the timeout, a
  cancellation), of which its outcome is a function; an empty list stands for the timeout.

  \<^bold>\<open>Parameters for code that is not in the repository\<close>

  \<open>serde_json\<close>, the texts of identifiers and dates, SHA-256, \<open>shell_escape\<close>, the \<open>ssh\<close> program, the
  operating system's processes, the file system's errors, SQLite's errors and row order, the TCP
  health probe. Hypotheses about them (\<open>format_ok\<close>, \<open>lease_format_ok\<close>, \<open>dates_ok\<close>, \<open>codec_ok\<close>, \<open>kills_group\<close>;
  \<open>sendable\<close>, \<open>reads_back\<close> of single messages) state documented behaviour and are satisfied by a concrete instance in the witness of each property.

  \<^bold>\<open>Idealizations\<close>

  A call that reads the clock more than once gets the same reading each time. A \<open>char\<close> is a Latin-1
  code point. A stream delivers what was written to it or ends; a silent peer is
  not modelled. Error texts leave out the part that a library formats in the poisoning of a lock.
  Logging through \<open>tracing\<close> has no effect.

  \<^bold>\<open>Not modelled\<close>

  Binding sockets, the tracing setup and the parsing of the command line. Schema creation in the two
  databases. Getters that return a field, and the clones of shared handles. Tests, but for
  those in \<open>DagClients\<close>.
\<close>

end
